(* ===== verification/Prelude.thy ===== *)
theory Prelude
  imports Complex_Main "HOL-Library.Word" "HOL-Library.Sublist"
begin

text \<open>
  Shared vocabulary of the development: the Rust string operations the components call, 32-bit
  floating point values as far as the code compares them, instants of the monotonic clock,
  JSON values, and the generic facts and interfaces the component theories rest on.

  A Rust \<open>str\<close> is the list of its UTF-8 bytes. The operations \<open>contains\<close>, \<open>starts_with\<close>,
  \<open>ends_with\<close>, \<open>split\<close>, \<open>strip_prefix\<close>, \<open>len\<close> and \<open>to_ascii_lowercase\<close> work on bytes in Rust as
  they do here (UTF-8 is self-synchronising, so a byte match is a character match), and \<open>trim\<close>
  removes exactly the UTF-8 encodings of the Unicode white-space characters.
  \<open>str::to_lowercase\<close> uses the Unicode case tables, which are not reproduced: the components that
  call it take that function as an argument.
\<close>

named_theorems str_eqs \<open>executable equations of the string operations\<close>
named_theorems f32_simps \<open>comparison facts of single-precision floats\<close>

section \<open>Results\<close>

text \<open>\<open>Result<T, E>\<close> is the sum \<open>'e + 't\<close>: \<open>Inl\<close> is \<open>Err\<close>, \<open>Inr\<close> is \<open>Ok\<close>.\<close>

definition is_ok :: "'e + 'a \<Rightarrow> bool" where
  "is_ok r = (case r of Inl _ \<Rightarrow> False | Inr _ \<Rightarrow> True)"

lemma is_ok_simps [simp]: "is_ok (Inr x)" "\<not> is_ok (Inl e)"
  by (simp_all add: is_ok_def)

lemma is_ok_Ex: "is_ok r \<longleftrightarrow> (\<exists>x. r = Inr x)"
  by (cases r) auto

text \<open>The first element a partial function accepts (\<open>Iterator::find_map\<close>).\<close>

fun find_map :: "('a \<Rightarrow> 'b option) \<Rightarrow> 'a list \<Rightarrow> 'b option" where
  "find_map f [] = None"
| "find_map f (x # xs) = (case f x of Some y \<Rightarrow> Some y | None \<Rightarrow> find_map f xs)"

lemma find_map_Some: "find_map f xs = Some y \<Longrightarrow> \<exists>x \<in> set xs. f x = Some y"
  by (induction xs) (auto split: option.splits)

lemma find_map_None: "find_map f xs = None \<longleftrightarrow> (\<forall>x \<in> set xs. f x = None)"
  by (induction xs) (auto split: option.splits)

lemma find_SomeD: "List.find P xs = Some x \<Longrightarrow> x \<in> set xs \<and> P x"
  by (induction xs) (auto split: if_splits)

lemma find_NoneD: "List.find P xs = None \<longleftrightarrow> (\<forall>x \<in> set xs. \<not> P x)"
  by (induction xs) auto

section \<open>Strings\<close>

fun starts_with :: "string \<Rightarrow> string \<Rightarrow> bool" where
  "starts_with s [] = True"
| "starts_with [] (p # ps) = False"
| "starts_with (c # cs) (p # ps) = (c = p \<and> starts_with cs ps)"

definition ends_with :: "string \<Rightarrow> string \<Rightarrow> bool" where
  "ends_with s p = starts_with (rev s) (rev p)"

fun contains :: "string \<Rightarrow> string \<Rightarrow> bool" where
  "contains [] n = (n = [])"
| "contains (c # cs) n = (starts_with (c # cs) n \<or> contains cs n)"

lemma starts_with_iff: "starts_with s p \<longleftrightarrow> (\<exists>t. s = p @ t)"
  by (induction s p rule: starts_with.induct) auto

lemma ends_with_iff: "ends_with s p \<longleftrightarrow> (\<exists>t. s = t @ p)"
proof
  assume "ends_with s p"
  then obtain t where "rev s = rev p @ t"
    by (auto simp: ends_with_def starts_with_iff)
  then have "s = rev t @ p" by (metis rev_append rev_rev_ident)
  then show "\<exists>t. s = t @ p" ..
qed (auto simp: ends_with_def starts_with_iff)

lemma contains_iff: "contains s n \<longleftrightarrow> (\<exists>a b. s = a @ n @ b)"
proof (induction s n rule: contains.induct)
  case (1 n)
  then show ?case by auto
next
  case (2 c cs n)
  show ?case
  proof
    assume "contains (c # cs) n"
    then consider t where "c # cs = n @ t" | "contains cs n"
      by (auto simp: starts_with_iff)
    then show "\<exists>a b. c # cs = a @ n @ b"
    proof cases
      case 1
      then have "c # cs = [] @ n @ t" by simp
      then show ?thesis by blast
    next
      case 2
      with "2.IH" obtain a b where "cs = a @ n @ b" by auto
      then have "c # cs = (c # a) @ n @ b" by simp
      then show ?thesis by blast
    qed
  next
    assume "\<exists>a b. c # cs = a @ n @ b"
    then obtain a b where ab: "c # cs = a @ n @ b" by blast
    show "contains (c # cs) n"
    proof (cases a)
      case Nil
      with ab have "starts_with (c # cs) n" by (auto simp: starts_with_iff)
      then show ?thesis by simp
    next
      case (Cons d a')
      with ab have "cs = a' @ n @ b" by simp
      with "2.IH" show ?thesis by auto
    qed
  qed
qed

lemma starts_with_self_append [simp]: "starts_with (p @ t) p"
  by (auto simp: starts_with_iff)

lemma ends_with_append_self [simp]: "ends_with (t @ p) p"
  by (auto simp: ends_with_iff)

text \<open>Bytes as numbers, and the ASCII case fold of \<open>to_ascii_lowercase\<close>.\<close>

definition byte :: "char \<Rightarrow> nat" where
  "byte c = of_char c"

definition is_ascii_digit :: "char \<Rightarrow> bool" where
  "is_ascii_digit c = (48 \<le> byte c \<and> byte c \<le> 57)"

definition is_ascii_alphanumeric :: "char \<Rightarrow> bool" where
  "is_ascii_alphanumeric c =
     (is_ascii_digit c \<or> (65 \<le> byte c \<and> byte c \<le> 90) \<or> (97 \<le> byte c \<and> byte c \<le> 122))"

definition ascii_lower :: "char \<Rightarrow> char" where
  "ascii_lower c = (if 65 \<le> byte c \<and> byte c \<le> 90 then char_of (byte c + 32) else c)"

definition to_ascii_lowercase :: "string \<Rightarrow> string" where
  "to_ascii_lowercase s = map ascii_lower s"

lemma byte_less: "byte c < 256"
  by (simp add: byte_def)

lemma byte_ascii_lower:
  "byte (ascii_lower c) = (if 65 \<le> byte c \<and> byte c \<le> 90 then byte c + 32 else byte c)"
  by (simp add: ascii_lower_def byte_def of_char_of)

lemma ascii_lower_idem [simp]: "ascii_lower (ascii_lower c) = ascii_lower c"
proof (cases "65 \<le> byte c \<and> byte c \<le> 90")
  case True
  then have "\<not> (65 \<le> byte (ascii_lower c) \<and> byte (ascii_lower c) \<le> 90)"
    by (simp add: byte_ascii_lower)
  then show ?thesis by (simp only: ascii_lower_def[of "ascii_lower c"] if_False)
next
  case False
  then have "ascii_lower c = c" by (simp only: ascii_lower_def if_False)
  then show ?thesis by simp
qed

lemma to_ascii_lowercase_idem [simp]:
  "to_ascii_lowercase (to_ascii_lowercase s) = to_ascii_lowercase s"
  by (simp add: to_ascii_lowercase_def)

lemma to_ascii_lowercase_append:
  "to_ascii_lowercase (s @ t) = to_ascii_lowercase s @ to_ascii_lowercase t"
  by (simp add: to_ascii_lowercase_def)

lemma length_to_ascii_lowercase [simp]: "length (to_ascii_lowercase s) = length s"
  by (simp add: to_ascii_lowercase_def)

text \<open>Control characters: U+0000 to U+001F, U+007F and, in two bytes, U+0080 to U+009F.\<close>

fun has_control :: "string \<Rightarrow> bool" where
  "has_control [] = False"
| "has_control (c # cs) =
     (byte c < 32 \<or> byte c = 127
      \<or> (case cs of [] \<Rightarrow> False | d # _ \<Rightarrow> byte c = 194 \<and> 128 \<le> byte d \<and> byte d < 160)
      \<or> has_control cs)"

text \<open>The Unicode \<open>White_Space\<close> characters, each as its UTF-8 bytes.\<close>

definition ws_seqs :: "string list" where
  "ws_seqs =
     [[CHR 0x09], [CHR 0x0A], [CHR 0x0B], [CHR 0x0C], [CHR 0x0D], [CHR 0x20],
      [CHR 0xC2, CHR 0x85], [CHR 0xC2, CHR 0xA0], [CHR 0xE1, CHR 0x9A, CHR 0x80],
      [CHR 0xE2, CHR 0x80, CHR 0x80], [CHR 0xE2, CHR 0x80, CHR 0x81], [CHR 0xE2, CHR 0x80, CHR 0x82],
      [CHR 0xE2, CHR 0x80, CHR 0x83], [CHR 0xE2, CHR 0x80, CHR 0x84], [CHR 0xE2, CHR 0x80, CHR 0x85],
      [CHR 0xE2, CHR 0x80, CHR 0x86], [CHR 0xE2, CHR 0x80, CHR 0x87], [CHR 0xE2, CHR 0x80, CHR 0x88],
      [CHR 0xE2, CHR 0x80, CHR 0x89], [CHR 0xE2, CHR 0x80, CHR 0x8A], [CHR 0xE2, CHR 0x80, CHR 0xA8],
      [CHR 0xE2, CHR 0x80, CHR 0xA9], [CHR 0xE2, CHR 0x80, CHR 0xAF], [CHR 0xE2, CHR 0x81, CHR 0x9F],
      [CHR 0xE3, CHR 0x80, CHR 0x80]]"

lemma ws_seqs_nonempty: "w \<in> set ws_seqs \<Longrightarrow> w \<noteq> []"
  by (auto simp: ws_seqs_def)

text \<open>Drop leading members of a list of non-empty byte sequences.\<close>

function strip_seqs :: "string list \<Rightarrow> string \<Rightarrow> string" where
  "strip_seqs ws s =
     (case List.find (\<lambda>w. w \<noteq> [] \<and> starts_with s w) ws of
        None \<Rightarrow> s
      | Some w \<Rightarrow> strip_seqs ws (drop (length w) s))"
  by pat_completeness auto
termination
proof (relation "measure (\<lambda>(ws, s). length s)", simp)
  fix ws :: "string list" and s w
  assume "List.find (\<lambda>w. w \<noteq> [] \<and> starts_with s w) ws = Some w"
  then have "w \<noteq> []" and "starts_with s w" by (auto dest: find_SomeD)
  then show "((ws, drop (length w) s), ws, s) \<in> measure (\<lambda>(ws, s). length s)"
    by (auto simp: starts_with_iff)
qed

declare strip_seqs.simps [simp del]

definition trim_start :: "string \<Rightarrow> string" where
  "trim_start s = strip_seqs ws_seqs s"

definition trim_end :: "string \<Rightarrow> string" where
  "trim_end s = rev (strip_seqs (map rev ws_seqs) (rev s))"

definition trim :: "string \<Rightarrow> string" where
  "trim s = trim_end (trim_start s)"

lemma strip_seqs_suffix: "\<exists>t. s = t @ strip_seqs ws s"
proof (induction ws s rule: strip_seqs.induct)
  case (1 ws s)
  show ?case
  proof (cases "List.find (\<lambda>w. w \<noteq> [] \<and> starts_with s w) ws")
    case None
    then show ?thesis by (simp add: strip_seqs.simps[of ws s])
  next
    case (Some w)
    with "1.IH" obtain t where "drop (length w) s = t @ strip_seqs ws (drop (length w) s)"
      by blast
    then have "s = (take (length w) s @ t) @ strip_seqs ws (drop (length w) s)"
      by (metis append.assoc append_take_drop_id)
    moreover from Some have "strip_seqs ws s = strip_seqs ws (drop (length w) s)"
      by (simp add: strip_seqs.simps[of ws s])
    ultimately show ?thesis by metis
  qed
qed

lemma trim_infix: "\<exists>a b. s = a @ trim s @ b"
proof -
  obtain a where a: "s = a @ trim_start s"
    using strip_seqs_suffix[of s ws_seqs] by (auto simp: trim_start_def)
  obtain t where "rev (trim_start s) = t @ strip_seqs (map rev ws_seqs) (rev (trim_start s))"
    using strip_seqs_suffix by blast
  then have "trim_start s = trim s @ rev t"
    by (metis rev_append rev_rev_ident trim_def trim_end_def)
  with a have "s = a @ trim s @ rev t" by simp
  then show ?thesis by blast
qed

lemma trim_Nil [simp]: "trim [] = []"
  using trim_infix[of "[]"] by simp

text \<open>\<open>chars().any(|c| c.is_whitespace())\<close>.\<close>

lemma strip_seqs_done:
  "w \<in> set ws \<Longrightarrow> w \<noteq> [] \<Longrightarrow> \<not> starts_with (strip_seqs ws s) w"
proof (induction ws s rule: strip_seqs.induct)
  case (1 ws s)
  show ?case
  proof (cases "List.find (\<lambda>w. w \<noteq> [] \<and> starts_with s w) ws")
    case None
    then have "strip_seqs ws s = s" by (subst strip_seqs.simps) simp
    then show ?thesis using None 1 by (auto simp: find_NoneD)
  next
    case (Some v)
    then have "strip_seqs ws s = strip_seqs ws (drop (length v) s)"
      by (subst strip_seqs.simps) simp
    then show ?thesis using Some 1 by simp
  qed
qed

lemma strip_seqs_id:
  "(\<And>w. w \<in> set ws \<Longrightarrow> w \<noteq> [] \<Longrightarrow> \<not> starts_with s w) \<Longrightarrow> strip_seqs ws s = s"
  by (subst strip_seqs.simps) (auto split: option.split dest: find_SomeD)

lemma trim_idem [simp]: "trim (trim s) = trim s"
proof -
  let ?t = "trim_start s" and ?r = "trim s"
  obtain e where e: "?t = ?r @ e"
    using strip_seqs_suffix[of "rev ?t" "map rev ws_seqs"]
    by (metis rev_append rev_rev_ident trim_def trim_end_def)
  have "\<not> starts_with ?r w" if "w \<in> set ws_seqs" "w \<noteq> []" for w
    using strip_seqs_done[OF that, of s] e
    by (auto simp: trim_start_def[symmetric] starts_with_iff)
  then have "trim_start ?r = ?r" unfolding trim_start_def by (intro strip_seqs_id)
  moreover have "\<not> starts_with (rev ?r) w" if "w \<in> set (map rev ws_seqs)" "w \<noteq> []" for w
    using strip_seqs_done[OF that, of "rev ?t"] by (simp add: trim_def trim_end_def)
  then have "strip_seqs (map rev ws_seqs) (rev ?r) = rev ?r" by (intro strip_seqs_id)
  ultimately show ?thesis by (simp add: trim_def[of ?r] trim_end_def)
qed

definition has_whitespace :: "string \<Rightarrow> bool" where
  "has_whitespace s = list_ex (contains s) ws_seqs"

text \<open>Splitting: \<open>split\<close>, \<open>split_once\<close>, \<open>rsplit_once\<close>, \<open>rsplit(..).next()\<close> on an ASCII separator.\<close>

fun split_on :: "(char \<Rightarrow> bool) \<Rightarrow> string \<Rightarrow> string list" where
  "split_on p [] = [[]]"
| "split_on p (c # cs) =
     (if p c then [] # split_on p cs
      else (case split_on p cs of [] \<Rightarrow> [[c]] | w # ws \<Rightarrow> (c # w) # ws))"

fun split_once :: "char \<Rightarrow> string \<Rightarrow> (string \<times> string) option" where
  "split_once d [] = None"
| "split_once d (c # cs) =
     (if c = d then Some ([], cs)
      else map_option (\<lambda>(a, b). (c # a, b)) (split_once d cs))"

definition rsplit_once :: "char \<Rightarrow> string \<Rightarrow> (string \<times> string) option" where
  "rsplit_once d s = map_option (\<lambda>(a, b). (rev b, rev a)) (split_once d (rev s))"

lemma split_on_nonempty [simp]: "split_on p s \<noteq> []"
  by (induction s) (auto split: list.splits)

lemma split_once_Some: "split_once d s = Some (a, b) \<Longrightarrow> s = a @ d # b \<and> d \<notin> set a"
  by (induction s arbitrary: a b) (auto split: if_splits)

lemma split_once_None: "split_once d s = None \<longleftrightarrow> d \<notin> set s"
  by (induction s) auto

lemma split_once_app: "d \<notin> set a \<Longrightarrow> split_once d (a @ d # b) = Some (a, b)"
  by (induction a) auto

lemma rsplit_once_Some: "rsplit_once d s = Some (a, b) \<Longrightarrow> s = a @ d # b \<and> d \<notin> set b"
proof -
  assume "rsplit_once d s = Some (a, b)"
  then have "split_once d (rev s) = Some (rev b, rev a)"
    by (auto simp: rsplit_once_def)
  from split_once_Some[OF this] have "rev s = rev b @ d # rev a" and "d \<notin> set b" by auto
  then show ?thesis by (metis append.assoc append_Cons append_Nil rev.simps(2) rev_append rev_rev_ident)
qed

definition trim_end_char :: "char \<Rightarrow> string \<Rightarrow> string" where
  "trim_end_char d s = rev (dropWhile (\<lambda>c. c = d) (rev s))"

definition trim_start_char :: "char \<Rightarrow> string \<Rightarrow> string" where
  "trim_start_char d s = dropWhile (\<lambda>c. c = d) s"

text \<open>\<open>trim_end_matches(p)\<close> for a non-empty string pattern: drop every trailing copy.\<close>

definition trim_end_matches :: "string \<Rightarrow> string \<Rightarrow> string" where
  "trim_end_matches p s = rev (strip_seqs [rev p] (rev s))"

definition strip_prefix :: "string \<Rightarrow> string \<Rightarrow> string option" where
  "strip_prefix p s = (if starts_with s p then Some (drop (length p) s) else None)"

lemma strip_prefix_Some: "strip_prefix p s = Some t \<longleftrightarrow> s = p @ t"
  by (auto simp: strip_prefix_def starts_with_iff)

lemma strip_prefix_None: "strip_prefix p s = None \<longleftrightarrow> \<not> starts_with s p"
  by (auto simp: strip_prefix_def)

text \<open>\<open>Path::join\<close> with a relative path.\<close>

definition path_join :: "string \<Rightarrow> string \<Rightarrow> string" where
  "path_join a b = (if ends_with a ''/'' then a @ b else a @ ''/'' @ b)"

text \<open>\<open>slice.join(sep)\<close>.\<close>

fun join :: "string \<Rightarrow> string list \<Rightarrow> string" where
  "join sep [] = []"
| "join sep [w] = w"
| "join sep (w # v # ws) = w @ sep @ join sep (v # ws)"

text \<open>\<open>split_whitespace()\<close>: the maximal runs between white-space characters.\<close>

function split_whitespace_aux :: "string \<Rightarrow> string \<Rightarrow> string list" where
  "split_whitespace_aux acc s =
     (case List.find (\<lambda>w. w \<noteq> [] \<and> starts_with s w) ws_seqs of
        Some w \<Rightarrow> (if acc = [] then [] else [rev acc]) @ split_whitespace_aux [] (drop (length w) s)
      | None \<Rightarrow>
          (case s of
             [] \<Rightarrow> (if acc = [] then [] else [rev acc])
           | c # cs \<Rightarrow> split_whitespace_aux (c # acc) cs))"
  by pat_completeness auto
termination
proof (relation "measure (\<lambda>(acc, s). length s)", simp)
  fix acc s w :: string
  assume "List.find (\<lambda>w. w \<noteq> [] \<and> starts_with s w) ws_seqs = Some w"
  then have "w \<noteq> []" and "starts_with s w" by (auto dest: find_SomeD)
  then show "(([], drop (length w) s), acc, s) \<in> measure (\<lambda>(acc, s). length s)"
    by (auto simp: starts_with_iff)
qed auto

declare split_whitespace_aux.simps [simp del]

definition split_whitespace :: "string \<Rightarrow> string list" where
  "split_whitespace s = split_whitespace_aux [] s"

text \<open>\<open>rsplit('/').next()\<close>: what follows the last slash; \<open>split_whitespace().next()\<close>.\<close>

definition last_segment :: "string \<Rightarrow> string" where
  "last_segment s = (case rsplit_once (CHR ''/'') s of Some (a, b) \<Rightarrow> b | None \<Rightarrow> s)"

definition first_word :: "string \<Rightarrow> string option" where
  "first_word s = (case split_whitespace s of [] \<Rightarrow> None | w # ws \<Rightarrow> Some w)"

lemma last_segment_no_slash: "CHR ''/'' \<notin> set (last_segment s)"
proof (cases "rsplit_once (CHR ''/'') s")
  case None
  then have "CHR ''/'' \<notin> set (rev s)"
    by (simp add: rsplit_once_def split_once_None)
  with None show ?thesis by (simp add: last_segment_def)
next
  case (Some ab)
  then show ?thesis by (cases ab) (auto simp: last_segment_def dest: rsplit_once_Some)
qed

lemma last_segment_plain: "CHR ''/'' \<notin> set s \<Longrightarrow> last_segment s = s"
proof -
  assume "CHR ''/'' \<notin> set s"
  then have "split_once (CHR ''/'') (rev s) = None" by (simp add: split_once_None)
  then show ?thesis by (simp add: last_segment_def rsplit_once_def)
qed

lemma last_segment_app: "CHR ''/'' \<notin> set b \<Longrightarrow> last_segment (a @ CHR ''/'' # b) = b"
  using split_once_app[of "CHR ''/''" "rev b" "rev a"]
  by (simp add: last_segment_def rsplit_once_def)

text \<open>
  Characters inside a byte string: continuation bytes belong to the character before them. Slicing
  from an index that is not a character boundary (or beyond the end) panics, here \<open>None\<close>.
\<close>

definition is_cont :: "char \<Rightarrow> bool" where
  "is_cont c = (128 \<le> byte c \<and> byte c < 192)"

fun first_char :: "string \<Rightarrow> string" where
  "first_char [] = []"
| "first_char (c # cs) = c # takeWhile is_cont cs"

fun drop_char :: "string \<Rightarrow> string" where
  "drop_char [] = []"
| "drop_char (c # cs) = dropWhile is_cont cs"

definition slice_from :: "string \<Rightarrow> nat \<Rightarrow> string option" where
  "slice_from s i =
     (if i = 0 \<or> i = length s then Some (drop i s)
      else if i < length s \<and> \<not> is_cont (s ! i) then Some (drop i s) else None)"

definition is_ascii :: "string \<Rightarrow> bool" where
  "is_ascii s = list_all (\<lambda>c. byte c < 128) s"

lemma first_drop_char: "first_char s @ drop_char s = s"
  by (cases s) simp_all

lemma first_char_empty [simp]: "first_char s = [] \<longleftrightarrow> s = []"
  by (cases s) simp_all

lemma length_drop_char: "length (drop_char (c # s)) < Suc (length s)"
  using length_dropWhile_le[of is_cont s] by simp

lemma is_ascii_simps [simp]: "is_ascii []" "is_ascii (c # s) \<longleftrightarrow> byte c < 128 \<and> is_ascii s"
  by (simp_all add: is_ascii_def)

lemma is_ascii_append [simp]: "is_ascii (s @ t) \<longleftrightarrow> is_ascii s \<and> is_ascii t"
  by (simp add: is_ascii_def)

lemma is_ascii_drop: "is_ascii s \<Longrightarrow> is_ascii (drop n s)"
  by (metis append_take_drop_id is_ascii_append)

lemma is_ascii_drop_char: "is_ascii s \<Longrightarrow> is_ascii (drop_char s)"
  by (metis first_drop_char is_ascii_append)

lemma slice_from_ascii: "is_ascii s \<Longrightarrow> i \<le> length s \<Longrightarrow> slice_from s i = Some (drop i s)"
proof -
  assume s: "is_ascii s" and i: "i \<le> length s"
  have "\<not> is_cont (s ! i)" if "i < length s"
    using s that by (auto simp: is_ascii_def list_all_length is_cont_def)
  then show ?thesis using i by (auto simp: slice_from_def)
qed

text \<open>
  Short-circuiting \<open>any\<close> over results that may panic: the first \<open>true\<close> ends the search, a
  panic before it ends the computation.
\<close>

fun any_opt :: "bool option list \<Rightarrow> bool option" where
  "any_opt [] = Some False"
| "any_opt (r # rs) = (case r of None \<Rightarrow> None | Some b \<Rightarrow> if b then Some True else any_opt rs)"

lemma any_opt_total: "None \<notin> set rs \<Longrightarrow> any_opt rs = Some (Some True \<in> set rs)"
proof (induction rs)
  case (Cons r rs)
  then show ?case by (cases r) auto
qed simp

lemma any_opt_True: "any_opt rs = Some True \<Longrightarrow> Some True \<in> set rs"
  by (induction rs) (auto split: option.splits if_splits)

lemma any_opt_False: "any_opt rs = Some False \<longleftrightarrow> list_all (\<lambda>r. r = Some False) rs"
  by (induction rs) (auto split: option.splits)

text \<open>Splitting and joining on a separator are inverse; suffixes of the part list.\<close>

lemma split_on_append: "p c \<Longrightarrow> split_on p (a @ c # b) = split_on p a @ split_on p b"
  by (induction a) (auto split: list.splits)

lemma join_Cons_Cons [simp]: "ws \<noteq> [] \<Longrightarrow> join sep (w # ws) = w @ sep @ join sep ws"
  by (cases ws) simp_all

lemma join_append: "xs \<noteq> [] \<Longrightarrow> ys \<noteq> [] \<Longrightarrow> join sep (xs @ ys) = join sep xs @ sep @ join sep ys"
proof (induction xs)
  case (Cons x xs)
  then show ?case by (cases "xs = []") simp_all
qed simp

lemma join_split_on: "join [d] (split_on (\<lambda>c. c = d) s) = s"
proof (induction s)
  case (Cons c cs)
  obtain w ws where w: "split_on (\<lambda>c. c = d) cs = w # ws"
    using split_on_nonempty by (cases "split_on (\<lambda>c. c = d) cs") auto
  then show ?case using Cons by (cases ws) auto
qed simp

lemma label_suffix_iff:
  "a = s \<or> ends_with a (d # s)
   \<longleftrightarrow> Sublist.suffix (split_on (\<lambda>c. c = d) s) (split_on (\<lambda>c. c = d) a)"
  (is "?L \<longleftrightarrow> ?R")
proof
  assume ?L
  then show ?R by (auto simp: ends_with_iff split_on_append intro: Sublist.suffixI)
next
  assume ?R
  then obtain xs where xs: "split_on (\<lambda>c. c = d) a = xs @ split_on (\<lambda>c. c = d) s"
    by (auto simp: Sublist.suffix_def)
  show ?L
  proof (cases "xs = []")
    case True
    then have "join [d] (split_on (\<lambda>c. c = d) a) = join [d] (split_on (\<lambda>c. c = d) s)"
      by (simp only: xs append_Nil)
    then have "a = s" by (simp only: join_split_on)
    then show ?thesis ..
  next
    case False
    have "a = join [d] (split_on (\<lambda>c. c = d) a)" by (simp only: join_split_on)
    also have "\<dots> = join [d] xs @ [d] @ join [d] (split_on (\<lambda>c. c = d) s)"
      unfolding xs by (rule join_append[OF False split_on_nonempty])
    also have "\<dots> = join [d] xs @ d # s" by (simp only: join_split_on append_Cons append_Nil)
    finally have "a = join [d] xs @ d # s" .
    then show ?thesis by (auto simp: ends_with_iff)
  qed
qed

text \<open>
  \<open>find\<close> for a string pattern: the byte offset of the first match. \<open>split\<close> on a non-empty string
  pattern, \<open>replace\<close> of a character, \<open>trim_matches\<close> on a character class.
\<close>

fun find_str :: "string \<Rightarrow> string \<Rightarrow> nat option" where
  "find_str [] n = (if n = [] then Some 0 else None)"
| "find_str (c # cs) n =
     (if starts_with (c # cs) n then Some 0 else map_option Suc (find_str cs n))"

lemma find_str_Some: "find_str s n = Some i \<Longrightarrow> s = take i s @ n @ drop (i + length n) s"
proof (induction s n arbitrary: i rule: find_str.induct)
  case (2 c cs n)
  then show ?case
    by (cases "starts_with (c # cs) n") (auto simp: starts_with_iff)
qed (auto split: if_splits)

lemma find_str_bound: "find_str s n = Some i \<Longrightarrow> i + length n \<le> length s"
proof (induction s n arbitrary: i rule: find_str.induct)
  case (2 c cs n)
  then show ?case
    by (cases "starts_with (c # cs) n") (auto simp: starts_with_iff simp del: starts_with.simps
        dest: arg_cong[where f = length])
qed (auto split: if_splits)

lemma find_str_None: "find_str s n = None \<longleftrightarrow> \<not> contains s n"
  by (induction s n rule: find_str.induct) auto

lemma find_str_first: "s = a @ n @ b \<Longrightarrow> \<exists>i. find_str s n = Some i \<and> i \<le> length a"
proof (induction a arbitrary: s)
  case Nil
  then have "starts_with s n" by (auto simp: starts_with_iff)
  then have "find_str s n = Some 0" by (cases s; cases n) auto
  then show ?case by simp
next
  case (Cons c a)
  then obtain i where "find_str (a @ n @ b) n = Some i" "i \<le> length a" by blast
  then show ?case using Cons.prems by auto
qed

function split_str :: "string \<Rightarrow> string \<Rightarrow> string list" where
  "split_str p s =
     (case find_str s p of
        None \<Rightarrow> [s]
      | Some i \<Rightarrow> if p = [] then [s] else take i s # split_str p (drop (i + length p) s))"
  by pat_completeness auto
termination
proof (relation "measure (\<lambda>(p, s). length s)", simp)
  fix p s :: string and i
  assume "find_str s p = Some i" and "p \<noteq> []"
  then have "i + length p \<le> length s" and "0 < length p" using find_str_bound by auto
  then have "length s - (i + length p) < length s" by linarith
  then show "((p, drop (i + length p) s), p, s) \<in> measure (\<lambda>(p, s). length s)" by simp
qed

declare split_str.simps [simp del]

definition replace_char :: "char \<Rightarrow> string \<Rightarrow> string \<Rightarrow> string" where
  "replace_char c t s = concat (map (\<lambda>d. if d = c then t else [d]) s)"

definition trim_matches :: "(char \<Rightarrow> bool) \<Rightarrow> string \<Rightarrow> string" where
  "trim_matches p s = rev (dropWhile p (rev (dropWhile p s)))"

definition EM_DASH :: string where
  "EM_DASH = [CHR 0xE2, CHR 0x80, CHR 0x94]"

end
