(* ===== verification/Values.thy ===== *)
theory Values
  imports Prelude
begin

text \<open>
  Values the components compute with: decimal numbers as text, \<open>f32\<close> probabilities, JSON values,
  instants of the monotonic clock, and the interface of a component that keeps an invariant over
  its operations.
\<close>

section \<open>Decimal numbers\<close>

definition digit_char :: "nat \<Rightarrow> char" where
  "digit_char d = char_of (48 + d)"

definition digit_val :: "char \<Rightarrow> nat" where
  "digit_val c = byte c - 48"

fun show_nat :: "nat \<Rightarrow> string" where
  "show_nat n = (if n < 10 then [digit_char n] else show_nat (n div 10) @ [digit_char (n mod 10)])"

declare show_nat.simps [simp del]

definition digits_val :: "string \<Rightarrow> nat" where
  "digits_val s = foldl (\<lambda>a c. 10 * a + digit_val c) 0 s"

text \<open>
  \<open>str::parse\<close> for an unsigned type with largest value \<open>hi\<close>: an optional plus sign, then at
  least one ASCII digit and nothing else, and no overflow.
\<close>

definition parse_uint :: "nat \<Rightarrow> string \<Rightarrow> nat option" where
  "parse_uint hi s =
     (let t = (case s of c # cs \<Rightarrow> if c = CHR ''+'' then cs else s | [] \<Rightarrow> s)
      in if t = [] \<or> \<not> list_all is_ascii_digit t then None
         else if digits_val t \<le> hi then Some (digits_val t) else None)"

abbreviation parse_u8 :: "string \<Rightarrow> nat option" where
  "parse_u8 \<equiv> parse_uint 255"

abbreviation parse_u16 :: "string \<Rightarrow> nat option" where
  "parse_u16 \<equiv> parse_uint 65535"

lemma digit_char_val: "d < 10 \<Longrightarrow> digit_val (digit_char d) = d"
  by (simp add: digit_val_def digit_char_def byte_def of_char_of)

lemma digit_char_is_digit: "d < 10 \<Longrightarrow> is_ascii_digit (digit_char d)"
  by (simp add: is_ascii_digit_def digit_char_def byte_def of_char_of)

lemma show_nat_nonempty: "show_nat n \<noteq> []"
  by (subst show_nat.simps) simp

lemma show_nat_digits: "list_all is_ascii_digit (show_nat n)"
proof (induction n rule: show_nat.induct)
  case (1 n)
  then show ?case
    by (cases "n < 10") (simp_all add: show_nat.simps[of n] digit_char_is_digit)
qed

lemma digits_val_show_nat: "digits_val (show_nat n) = n"
proof (induction n rule: show_nat.induct)
  case (1 n)
  then show ?case
    by (cases "n < 10")
      (simp_all add: show_nat.simps[of n] digits_val_def digit_char_val)
qed

lemma parse_uint_show_nat: "n \<le> hi \<Longrightarrow> parse_uint hi (show_nat n) = Some n"
proof -
  assume n: "n \<le> hi"
  obtain c cs where s: "show_nat n = c # cs"
    using show_nat_nonempty by (cases "show_nat n") auto
  then have "is_ascii_digit c" using show_nat_digits[of n] by simp
  then have "c \<noteq> CHR ''+''" by (auto simp: is_ascii_digit_def byte_def)
  then show ?thesis
    using n s show_nat_digits[of n] digits_val_show_nat[of n]
    by (simp add: parse_uint_def Let_def)
qed

lemma parse_uint_le: "parse_uint hi s = Some n \<Longrightarrow> n \<le> hi"
  by (auto simp: parse_uint_def Let_def split: if_splits)

lemma show_nat_inj: "show_nat a = show_nat b \<Longrightarrow> a = b"
  by (metis digits_val_show_nat)

section \<open>Single-precision floats\<close>

text \<open>
  The checks layer compares, clamps and takes maxima of \<open>f32\<close> values and never does arithmetic on
  them, so a float is NaN, an infinity or the rational it denotes (the sign of zero is not
  observable through comparisons).
\<close>

datatype f32 = NaN | NegInf | Fin rat | PosInf

fun f32_lt :: "f32 \<Rightarrow> f32 \<Rightarrow> bool" where
  "f32_lt NaN _ = False"
| "f32_lt _ NaN = False"
| "f32_lt (Fin a) (Fin b) = (a < b)"
| "f32_lt NegInf y = (y \<noteq> NegInf)"
| "f32_lt (Fin a) y = (y = PosInf)"
| "f32_lt PosInf _ = False"

fun f32_le :: "f32 \<Rightarrow> f32 \<Rightarrow> bool" where
  "f32_le NaN _ = False"
| "f32_le _ NaN = False"
| "f32_le (Fin a) (Fin b) = (a \<le> b)"
| "f32_le NegInf _ = True"
| "f32_le (Fin a) y = (y = PosInf)"
| "f32_le PosInf y = (y = PosInf)"

fun is_finite :: "f32 \<Rightarrow> bool" where
  "is_finite (Fin _) = True"
| "is_finite _ = False"

text \<open>\<open>f32::max\<close> ignores a NaN operand.\<close>

definition f32_max :: "f32 \<Rightarrow> f32 \<Rightarrow> f32" where
  "f32_max a b = (if a = NaN then b else if b = NaN then a else if f32_lt a b then b else a)"

definition f32_clamp :: "f32 \<Rightarrow> f32 \<Rightarrow> f32 \<Rightarrow> f32" where
  "f32_clamp lo hi x = (if f32_lt x lo then lo else if f32_lt hi x then hi else x)"

text \<open>\<open>(0.0..=1.0).contains(&v)\<close>\<close>

definition in_unit :: "f32 \<Rightarrow> bool" where
  "in_unit v = (f32_le (Fin 0) v \<and> f32_le v (Fin 1))"

lemma f32_le_refl [f32_simps]: "f32_le a a \<longleftrightarrow> a \<noteq> NaN"
  by (cases a) auto

lemma f32_le_trans: "f32_le a b \<Longrightarrow> f32_le b c \<Longrightarrow> f32_le a c"
  by (cases a; cases b; cases c) auto

lemma f32_lt_le: "f32_lt a b \<Longrightarrow> f32_le a b"
  by (cases a; cases b) auto

lemma f32_lt_iff [f32_simps]: "a \<noteq> NaN \<Longrightarrow> b \<noteq> NaN \<Longrightarrow> f32_lt a b \<longleftrightarrow> \<not> f32_le b a"
  by (cases a; cases b) auto

lemma f32_max_ge_left: "a \<noteq> NaN \<Longrightarrow> f32_le a (f32_max a b)"
  by (cases a; cases b) (auto simp: f32_max_def)

lemma f32_max_ge_right: "b \<noteq> NaN \<Longrightarrow> f32_le b (f32_max a b)"
  by (cases a; cases b) (auto simp: f32_max_def)

lemma f32_max_not_NaN: "a \<noteq> NaN \<Longrightarrow> f32_max a b \<noteq> NaN"
  by (auto simp: f32_max_def)

lemma f32_clamp_unit: "v \<noteq> NaN \<Longrightarrow> in_unit (f32_clamp (Fin 0) (Fin 1) v)"
  by (cases v) (auto simp: f32_clamp_def in_unit_def)

lemma f32_clamp_NaN [f32_simps]: "f32_clamp (Fin a) (Fin b) NaN = NaN"
  by (simp add: f32_clamp_def)

lemma in_unit_finite: "in_unit v \<Longrightarrow> \<exists>q. v = Fin q \<and> 0 \<le> q \<and> q \<le> 1"
  by (cases v) (auto simp: in_unit_def)

lemma f32_max_in_unit: "in_unit a \<Longrightarrow> in_unit b \<Longrightarrow> in_unit (f32_max a b)"
  by (auto simp: f32_max_def)

section \<open>JSON values\<close>

text \<open>\<open>serde_json::Value\<close>; a number is kept as its text.\<close>

datatype json =
    JNull
  | JBool bool
  | JNum string
  | JStr string
  | JArr "json list"
  | JObj "(string \<times> json) list"

fun json_get :: "json \<Rightarrow> string \<Rightarrow> json option" where
  "json_get (JObj kvs) k = map_of kvs k"
| "json_get _ k = None"

fun as_str :: "json \<Rightarrow> string option" where
  "as_str (JStr s) = Some s"
| "as_str _ = None"

section \<open>Instants\<close>

text \<open>\<open>Instant\<close> and \<open>Duration\<close> are nanosecond counts.\<close>

type_synonym instant = nat

definition from_secs :: "nat \<Rightarrow> nat" where
  "from_secs n = n * 1000000000"

definition clamp_nat :: "nat \<Rightarrow> nat \<Rightarrow> nat \<Rightarrow> nat" where
  "clamp_nat lo hi x = (if x < lo then lo else if hi < x then hi else x)"

lemma clamp_nat_bounds: "lo \<le> hi \<Longrightarrow> lo \<le> clamp_nat lo hi x \<and> clamp_nat lo hi x \<le> hi"
  by (auto simp: clamp_nat_def)

section \<open>The interface of a component that keeps an invariant\<close>

text \<open>
  A component has operations that take its state to a new state; each of them keeps the
  component's invariant. Every history of operations from a good state then ends in a good state,
  and every prefix of it does.
\<close>

locale invariant_system =
  fixes step :: "'s \<Rightarrow> 'op \<Rightarrow> 's"
    and inv :: "'s \<Rightarrow> bool"
  assumes step_inv: "inv s \<Longrightarrow> inv (step s e)"
begin

lemma run_inv: "inv s \<Longrightarrow> inv (foldl step s es)"
  by (induction es arbitrary: s) (auto simp: step_inv)

lemma run_inv_prefix: "inv s \<Longrightarrow> inv (foldl step s (take n es))"
  by (rule run_inv)

end

text \<open>
  A component whose operations never lower a measure (a severity, a counter, an expiry) keeps it
  above its starting value along every history, and at every earlier point of it.
\<close>

locale monotone_system = invariant_system step inv
  for step :: "'s \<Rightarrow> 'op \<Rightarrow> 's" and inv :: "'s \<Rightarrow> bool" +
  fixes level :: "'s \<Rightarrow> 'l::preorder"
  assumes step_mono: "inv s \<Longrightarrow> level s \<le> level (step s e)"
begin

lemma run_mono: "inv s \<Longrightarrow> level s \<le> level (foldl step s es)"
proof (induction es arbitrary: s)
  case (Cons e es)
  have "level s \<le> level (step s e)" using Cons.prems by (rule step_mono)
  also have "\<dots> \<le> level (foldl step (step s e) es)"
    using Cons.prems by (intro Cons.IH step_inv)
  finally show ?case by simp
qed simp

lemma run_mono_prefix: "inv s \<Longrightarrow> level (foldl step s es) \<le> level (foldl step s (es @ fs))"
  using run_mono[OF run_inv] by simp

end

section \<open>The interface of a bounded log\<close>

text \<open>
  A buffer that keeps at most \<open>cap\<close> of the items its component has produced, the oldest given up
  first. The provider promises what one operation does to the buffer; then after any history the
  buffer is the end of everything that was ever produced.
\<close>

definition last_n :: "nat \<Rightarrow> 'a list \<Rightarrow> 'a list" where
  "last_n n xs = drop (length xs - n) xs"

lemma last_n_short [simp]: "length xs \<le> n \<Longrightarrow> last_n n xs = xs"
  by (simp add: last_n_def)

lemma length_last_n [simp]: "length (last_n n xs) = min n (length xs)"
  by (simp add: last_n_def)

lemma last_n_append: "last_n n (last_n n xs @ ys) = last_n n (xs @ ys)"
  by (cases "length xs \<le> n") (simp_all add: last_n_def add.commute)

lemma set_last_n: "set (last_n n xs) \<subseteq> set xs"
  by (simp add: last_n_def set_drop_subset)

lemma last_n_push: "length xs \<le> n \<Longrightarrow> last_n n (xs @ [x]) = (if n < length (xs @ [x]) then tl (xs @ [x]) else xs @ [x])"
  by (cases "length xs = n") (cases xs; auto simp: last_n_def)+

fun produced :: "('s \<Rightarrow> 'op \<Rightarrow> 's) \<Rightarrow> ('s \<Rightarrow> 'op \<Rightarrow> 'a list) \<Rightarrow> 's \<Rightarrow> 'op list \<Rightarrow> 'a list" where
  "produced step out s [] = []"
| "produced step out s (e # es) = out s e @ produced step out (step s e) es"

lemma produced_append:
  "produced step out s (es @ fs) = produced step out s es @ produced step out (foldl step s es) fs"
  by (induction es arbitrary: s) auto

locale bounded_log =
  fixes step :: "'s \<Rightarrow> 'op \<Rightarrow> 's"
    and items :: "'s \<Rightarrow> 'a list"
    and out :: "'s \<Rightarrow> 'op \<Rightarrow> 'a list"
    and cap :: nat
  assumes step_items: "length (items s) \<le> cap \<Longrightarrow> items (step s e) = last_n cap (items s @ out s e)"
begin

lemma items_run:
  "length (items s) \<le> cap \<Longrightarrow> items (foldl step s es) = last_n cap (items s @ produced step out s es)"
proof (induction es arbitrary: s)
  case (Cons e es)
  then have "length (items (step s e)) \<le> cap" by (simp add: step_items)
  then show ?case using Cons by (simp add: step_items last_n_append)
qed simp

lemma items_bounded: "length (items s) \<le> cap \<Longrightarrow> length (items (foldl step s es)) \<le> cap"
  by (simp add: items_run)

end

section \<open>The interface of a named list under operators\<close>

text \<open>
  Operators add names to a list and take them off it; other operations leave the list alone.
  \<open>word\<close> says what an operation says about the list: a name and whether it is listed or delisted.
  The law each provider promises is the effect of one step on every owner's list; then, after any
  history, the last word said about a name decides.
\<close>

definition last_word :: "('op \<Rightarrow> (string \<times> bool) option) \<Rightarrow> 'op list \<Rightarrow> string \<Rightarrow> bool option" where
  "last_word word ops n =
     foldl (\<lambda>acc op. case word op of None \<Rightarrow> acc
                    | Some (m, b) \<Rightarrow> if m = n then Some b else acc) None ops"

locale deny_list =
  fixes step :: "'s \<Rightarrow> 'op \<Rightarrow> 's"
    and word :: "'op \<Rightarrow> (string \<times> bool) option"
    and owners :: "'s \<Rightarrow> string set"
    and listed :: "'s \<Rightarrow> string \<Rightarrow> string set"
  assumes owners_step: "owners (step s op) = owners s"
    and listed_other: "word op = None \<Longrightarrow> k \<in> owners s \<Longrightarrow> listed (step s op) k = listed s k"
    and listed_on: "word op = Some (n, True) \<Longrightarrow> k \<in> owners s
      \<Longrightarrow> listed (step s op) k = insert n (listed s k)"
    and listed_off: "word op = Some (n, False) \<Longrightarrow> k \<in> owners s
      \<Longrightarrow> listed (step s op) k = listed s k - {n}"
begin

lemma owners_run: "owners (foldl step s ops) = owners s"
  by (induction ops arbitrary: s) (simp_all add: owners_step)

lemma last_word_decides:
  "k \<in> owners s \<Longrightarrow>
   n \<in> listed (foldl step s ops) k \<longleftrightarrow>
     (case last_word word ops n of None \<Rightarrow> n \<in> listed s k | Some b \<Rightarrow> b)"
proof (induction ops rule: rev_induct)
  case Nil
  then show ?case by (simp add: last_word_def)
next
  case (snoc op ops)
  let ?s = "foldl step s ops"
  have k: "k \<in> owners ?s" using snoc.prems by (simp add: owners_run)
  note IH = snoc.IH[OF snoc.prems]
  show ?case
  proof (cases "word op")
    case None
    then show ?thesis using IH k by (simp add: listed_other last_word_def)
  next
    case (Some mb)
    then obtain m b where mb: "word op = Some (m, b)" by (cases mb) auto
    show ?thesis
      using IH k mb by (cases b) (auto simp: listed_on listed_off last_word_def)
  qed
qed

end

end
