(* ===== verification/Thresholds.thy ===== *)
theory Thresholds
  imports Values
begin

text \<open>
  checks/src/thresholds.rs: the numbers the checks layer judges by. Bands, the validation that runs
  at load, the bands a bare probability falls into, the cut-off of the review queue and the
  write-once cell that holds the set in force. Decimal literals are the single-precision values
  the compiler rounds them to.
\<close>

record band =
  band_probability :: f32
  band_confidence :: f32

record thresholds =
  secret_pattern_matched_at :: f32
  possible_secret_at :: f32
  secret_pattern :: band
  strong_match :: band
  partial_match :: band
  weak_match :: band
  benign_band :: band
  flag_at :: f32

definition band_new :: "f32 \<Rightarrow> f32 \<Rightarrow> band" where
  "band_new p c = \<lparr>band_probability = p, band_confidence = c\<rparr>"

definition default_thresholds :: thresholds where
  "default_thresholds =
     \<lparr>secret_pattern_matched_at = Fin (7130317 / 8388608),
      possible_secret_at = Fin (13421773 / 33554432),
      secret_pattern = band_new (Fin (15938355 / 16777216)) (Fin (7549747 / 8388608)),
      strong_match = band_new (Fin (7549747 / 8388608)) (Fin (7549747 / 8388608)),
      partial_match = band_new (Fin (11744051 / 16777216)) (Fin (13421773 / 16777216)),
      weak_match = band_new (Fin (1 / 2)) (Fin (13421773 / 33554432)),
      benign_band = band_new (Fin (7549747 / 8388608)) (Fin (5033165 / 8388608)),
      flag_at = Fin (13421773 / 33554432)\<rparr>"

section \<open>Validation\<close>

text \<open>One constructor per message the code formats; every problem is collected.\<close>

datatype threshold_error =
    NotAProbability string f32
  | MatchedBelowPossible f32 f32
  | PatternBelowStrong f32 f32
  | StrongBelowPartial f32 f32
  | PartialBelowWeak f32 f32
  | FlagAboveWeak f32 f32

definition in_range :: "string \<Rightarrow> f32 \<Rightarrow> threshold_error list" where
  "in_range name v = (if \<not> is_finite v \<or> \<not> in_unit v then [NotAProbability name v] else [])"

definition named_bands :: "thresholds \<Rightarrow> (string \<times> band) list" where
  "named_bands t =
     [(''secret_pattern'', secret_pattern t), (''strong_match'', strong_match t),
      (''partial_match'', partial_match t), (''weak_match'', weak_match t),
      (''benign'', benign_band t)]"

definition range_errors :: "thresholds \<Rightarrow> threshold_error list" where
  "range_errors t =
     in_range ''secret_pattern_matched_at'' (secret_pattern_matched_at t)
     @ in_range ''possible_secret_at'' (possible_secret_at t)
     @ in_range ''flag_at'' (flag_at t)
     @ concat (map (\<lambda>(n, b). in_range (n @ ''.probability'') (band_probability b)
                             @ in_range (n @ ''.confidence'') (band_confidence b)) (named_bands t))"

definition below :: "f32 \<Rightarrow> f32 \<Rightarrow> threshold_error \<Rightarrow> threshold_error list" where
  "below a b e = (if f32_lt a b then [e] else [])"

definition order_errors :: "thresholds \<Rightarrow> threshold_error list" where
  "order_errors t =
     (let sp = band_probability (secret_pattern t); st = band_probability (strong_match t);
          pa = band_probability (partial_match t); we = band_probability (weak_match t)
      in below (secret_pattern_matched_at t) (possible_secret_at t)
               (MatchedBelowPossible (secret_pattern_matched_at t) (possible_secret_at t))
         @ below sp st (PatternBelowStrong sp st)
         @ below st pa (StrongBelowPartial st pa)
         @ below pa we (PartialBelowWeak pa we)
         @ below we (flag_at t) (FlagAboveWeak (flag_at t) we))"

definition validate_thresholds :: "thresholds \<Rightarrow> threshold_error list + unit" where
  "validate_thresholds t =
     (let errs = range_errors t @ order_errors t in if errs = [] then Inr () else Inl errs)"

section \<open>What the numbers decide\<close>

definition exposure_option :: "thresholds \<Rightarrow> f32 \<Rightarrow> string" where
  "exposure_option t noul =
     (if f32_le (secret_pattern_matched_at t) noul then ''secret_pattern_matched''
      else if f32_le (possible_secret_at t) noul then ''possible_secret''
      else ''none'')"

definition worth_queueing :: "thresholds \<Rightarrow> string \<Rightarrow> f32 \<Rightarrow> bool" where
  "worth_queueing t opt p = (\<not> (opt = ''benign'' \<or> opt = ''none'') \<and> f32_le (flag_at t) p)"

text \<open>The process-wide cell: set once, read with the defaults behind it.\<close>

definition install :: "thresholds option \<Rightarrow> thresholds \<Rightarrow> (thresholds + unit) \<times> thresholds option" where
  "install cell t = (case cell of None \<Rightarrow> (Inr (), Some t) | Some _ \<Rightarrow> (Inl t, cell))"

definition current :: "thresholds option \<Rightarrow> thresholds" where
  "current cell = (case cell of Some t \<Rightarrow> t | None \<Rightarrow> default_thresholds)"

section \<open>Facts\<close>

text \<open>The order a validated set is in, weakest first.\<close>

definition ordered_bands :: "thresholds \<Rightarrow> bool" where
  "ordered_bands t =
     (f32_le (possible_secret_at t) (secret_pattern_matched_at t)
      \<and> f32_le (flag_at t) (band_probability (weak_match t))
      \<and> f32_le (band_probability (weak_match t)) (band_probability (partial_match t))
      \<and> f32_le (band_probability (partial_match t)) (band_probability (strong_match t))
      \<and> f32_le (band_probability (strong_match t)) (band_probability (secret_pattern t)))"

definition unit_thresholds :: "thresholds \<Rightarrow> bool" where
  "unit_thresholds t =
     (in_unit (secret_pattern_matched_at t) \<and> in_unit (possible_secret_at t) \<and> in_unit (flag_at t)
      \<and> list_all (\<lambda>(n, b). in_unit (band_probability b) \<and> in_unit (band_confidence b)) (named_bands t))"

lemma in_range_Nil [simp]: "in_range n v = [] \<longleftrightarrow> in_unit v"
  using in_unit_finite[of v] by (auto simp: in_range_def)

lemma below_Nil: "a \<noteq> NaN \<Longrightarrow> b \<noteq> NaN \<Longrightarrow> below a b e = [] \<longleftrightarrow> f32_le b a"
  by (simp add: below_def f32_simps)

lemma range_errors_Nil: "range_errors t = [] \<longleftrightarrow> unit_thresholds t"
  by (simp add: range_errors_def unit_thresholds_def named_bands_def)

lemma in_unit_not_NaN: "in_unit v \<Longrightarrow> v \<noteq> NaN"
  by (auto dest: in_unit_finite)

lemma order_errors_Nil: "unit_thresholds t \<Longrightarrow> order_errors t = [] \<longleftrightarrow> ordered_bands t"
  by (auto simp: order_errors_def ordered_bands_def unit_thresholds_def named_bands_def Let_def
      below_Nil in_unit_not_NaN)

lemma validate_ok_iff: "validate_thresholds t = Inr () \<longleftrightarrow> unit_thresholds t \<and> ordered_bands t"
  using range_errors_Nil[of t] order_errors_Nil[of t] by (auto simp: validate_thresholds_def Let_def)

lemma default_valid: "validate_thresholds default_thresholds = Inr ()"
  unfolding validate_ok_iff
  by (simp add: unit_thresholds_def ordered_bands_def named_bands_def default_thresholds_def
      band_new_def in_unit_def)

text \<open>The write-once cell never changes after the first write.\<close>

lemma install_keeps: "cell = Some t \<Longrightarrow> snd (install cell u) = Some t"
  by (simp add: install_def)

lemma current_after_install:
  "fst (install cell t) = Inr () \<Longrightarrow> current (snd (install cell t)) = t"
  by (auto simp: install_def current_def split: option.splits)

section \<open>Properties\<close>

text \<open>
  Validation accepts exactly the sets whose numbers are all probabilities (so no NaN, no
  infinity, nothing outside 0 to 1) and whose bands are ordered: possible secret below matched
  secret, and the review cut-off below the weak band below the partial, strong and exact-match
  bands. What it rejects it rejects with at least one reason, and the shipped defaults are valid.
\<close>

theorem thresholds_validation_exact:
  "(validate_thresholds t = Inr () \<longleftrightarrow> unit_thresholds t \<and> ordered_bands t)
   \<and> validate_thresholds t \<noteq> Inl []
   \<and> validate_thresholds default_thresholds = Inr ()"
  using validate_ok_iff[of t] default_valid by (simp add: validate_thresholds_def Let_def)

lemma ordered_bands_flag:
  assumes "ordered_bands t"
    and "b \<in> {weak_match t, partial_match t, strong_match t, secret_pattern t}"
  shows "f32_le (flag_at t) (band_probability b)"
  using assms unfolding ordered_bands_def by (auto intro: f32_le_trans)

text \<open>
  Under a validated set no finding of a deterministic scorer is lost to the review cut-off:
  any non-benign option reported with the probability of any of the four finding bands is worth
  queueing, while benign and none never are, whatever their probability.
\<close>

theorem validated_findings_are_queued:
  assumes "validate_thresholds t = Inr ()"
    and "b \<in> {weak_match t, partial_match t, strong_match t, secret_pattern t}"
  shows "(worth_queueing t opt (band_probability b) \<longleftrightarrow> opt \<noteq> ''benign'' \<and> opt \<noteq> ''none'')
    \<and> \<not> worth_queueing t ''benign'' p \<and> \<not> worth_queueing t ''none'' p"
  using assms ordered_bands_flag by (auto simp: worth_queueing_def validate_ok_iff)

theorem validated_findings_are_queued_witness:
  "worth_queueing default_thresholds ''reads_sensitive_path''
     (band_probability (weak_match default_thresholds))"
  using validated_findings_are_queued[OF default_valid, of "weak_match default_thresholds"
      "''reads_sensitive_path''" NaN]
  by simp

end
