(* ===== verification/Checks.thy ===== *)
theory Checks
  imports Thresholds
begin

text \<open>
  checks/src/lib.rs: the three deterministic scorers. A check result names a check, one option of
  the check's fixed set, a probability and a confidence, and short evidence lines. The regex
  crate, the JSON printer and the Unicode lower-casing are arguments (record \<open>libs\<close>); the patterns
  and phrase lists are the source's own literals.
\<close>

section \<open>Checks, options and severities\<close>

datatype check = ToolCallArgumentRisk | SensitiveDataExposure | AgentOutputRisk

fun wire_name :: "check \<Rightarrow> string" where
  "wire_name ToolCallArgumentRisk = ''tool_call_argument_risk''"
| "wire_name SensitiveDataExposure = ''sensitive_data_exposure''"
| "wire_name AgentOutputRisk = ''agent_output_risk''"

fun severity_rank :: "check \<Rightarrow> string \<Rightarrow> nat" where
  "severity_rank ToolCallArgumentRisk opt =
     (if opt = ''benign'' then 0
      else if opt = ''unapproved_network_host'' then 1
      else if opt = ''writes_outside_workspace'' then 2
      else if opt = ''reads_sensitive_path'' then 3
      else 0)"
| "severity_rank SensitiveDataExposure opt =
     (if opt = ''none'' then 0
      else if opt = ''possible_secret'' then 1
      else if opt = ''secret_pattern_matched'' then 2
      else 0)"
| "severity_rank AgentOutputRisk opt =
     (if opt = ''benign'' then 0
      else if opt = ''states_policy_evasion'' then 1
      else if opt = ''states_credential_access'' then 2
      else if opt = ''states_exfiltration'' then 3
      else 0)"

fun options :: "check \<Rightarrow> string list" where
  "options ToolCallArgumentRisk =
     [''benign'', ''reads_sensitive_path'', ''writes_outside_workspace'', ''unapproved_network_host'']"
| "options SensitiveDataExposure = [''none'', ''possible_secret'', ''secret_pattern_matched'']"
| "options AgentOutputRisk =
     [''benign'', ''states_credential_access'', ''states_exfiltration'', ''states_policy_evasion'']"

record check_result =
  cr_check :: string
  cr_option :: string
  cr_probability :: f32
  cr_confidence :: "f32 option"
  cr_evidence :: "string list"
  cr_provider :: string
  cr_provider_error :: "string option"

definition default_provider :: string where
  "default_provider = ''deterministic''"

definition check_result_new :: "check \<Rightarrow> string \<Rightarrow> f32 \<Rightarrow> f32 option \<Rightarrow> check_result" where
  "check_result_new c opt p conf =
     \<lparr>cr_check = wire_name c, cr_option = opt, cr_probability = p, cr_confidence = conf,
      cr_evidence = [], cr_provider = default_provider, cr_provider_error = None\<rparr>"

definition check_kind :: "check_result \<Rightarrow> check option" where
  "check_kind r =
     (if cr_check r = ''tool_call_argument_risk'' then Some ToolCallArgumentRisk
      else if cr_check r = ''sensitive_data_exposure'' then Some SensitiveDataExposure
      else if cr_check r = ''agent_output_risk'' then Some AgentOutputRisk
      else None)"

definition with_evidence :: "check_result \<Rightarrow> string \<Rightarrow> check_result" where
  "with_evidence r e = r\<lparr>cr_evidence := cr_evidence r @ [e]\<rparr>"

definition is_flag :: "check_result \<Rightarrow> bool" where
  "is_flag r = (\<not> (cr_option r = ''benign'' \<or> cr_option r = ''none''))"

section \<open>Library functions the scorers call\<close>

text \<open>
  \<open>re_is_match pattern text\<close> and \<open>re_group1 pattern text\<close> (group 1 of the leftmost match) are the
  regex crate, \<open>json_text\<close> is \<open>Value::to_string\<close>, \<open>to_lowercase\<close> is \<open>str::to_lowercase\<close>.
\<close>

record libs =
  re_is_match :: "string \<Rightarrow> string \<Rightarrow> bool"
  re_group1 :: "string \<Rightarrow> string \<Rightarrow> string option"
  json_text :: "json \<Rightarrow> string"
  to_lowercase :: "string \<Rightarrow> string"

abbreviation backslash :: string where
  "backslash \<equiv> [CHR 0x5C]"

abbreviation quoted :: "string \<Rightarrow> string" where
  "quoted s \<equiv> [CHR 0x22] @ s @ [CHR 0x22]"

section \<open>Check 3: tool-call argument risk\<close>

definition SENSITIVE_PATHS :: "string list" where
  "SENSITIVE_PATHS =
     [''.aws/credentials'', ''.aws/config'', ''.ssh/id_rsa'', ''.ssh/id_ed25519'', ''.ssh/id_ecdsa'',
      ''.ssh/authorized_keys'', ''.kube/config'', ''.docker/config.json'', ''.npmrc'', ''.pypirc'',
      ''.netrc'', ''.gnupg/'', ''/etc/shadow'', ''/etc/ld.so.preload'', ''.env'']"

definition URL_RE :: string where
  "URL_RE = ''https?://([A-Za-z0-9._-]+)(?::'' @ backslash @ ''d+)?''"

text \<open>The path a write names: the first of three keys that is present, if it is a string.\<close>

definition write_target :: "json \<Rightarrow> string option" where
  "write_target args =
     Option.bind
       (case json_get args ''file_path'' of
          Some v \<Rightarrow> Some v
        | None \<Rightarrow> (case json_get args ''path'' of
            Some v \<Rightarrow> Some v
          | None \<Rightarrow> json_get args ''notebook_path''))
       as_str"

definition escapes_workspace :: "json \<Rightarrow> string option \<Rightarrow> (string \<times> string) option" where
  "escapes_workspace args workspace =
     (case (write_target args, workspace) of
        (Some target, Some ws) \<Rightarrow>
          if starts_with target ''/'' \<and> \<not> starts_with target ws then Some (target, ws) else None
      | _ \<Rightarrow> None)"

definition loopback_name :: "string \<Rightarrow> bool" where
  "loopback_name host = (host = ''localhost'' \<or> starts_with host ''127.'' \<or> host = ''::1'')"

definition unapproved_host :: "libs \<Rightarrow> string \<Rightarrow> string list \<Rightarrow> string option" where
  "unapproved_host L blob approved_hosts =
     (case re_group1 L URL_RE blob of
        None \<Rightarrow> None
      | Some host \<Rightarrow>
          if \<not> list_ex (\<lambda>h. h = host) approved_hosts \<and> \<not> loopback_name host \<and> host \<noteq> []
          then Some host else None)"

definition tool_call_argument_risk ::
  "libs \<Rightarrow> thresholds \<Rightarrow> string \<Rightarrow> json \<Rightarrow> string option \<Rightarrow> string list \<Rightarrow> check_result" where
  "tool_call_argument_risk L t tool args workspace approved_hosts =
     (let blob = json_text L args in
      case List.find (contains blob) SENSITIVE_PATHS of
        Some needle \<Rightarrow>
          with_evidence (with_evidence
            (check_result_new ToolCallArgumentRisk ''reads_sensitive_path''
               (band_probability (strong_match t)) (Some (band_confidence (strong_match t))))
            (''argument references '' @ needle)) (''tool='' @ tool)
      | None \<Rightarrow>
      case escapes_workspace args workspace of
        Some (target, ws) \<Rightarrow>
          with_evidence
            (check_result_new ToolCallArgumentRisk ''writes_outside_workspace''
               (band_probability (partial_match t)) (Some (band_confidence (partial_match t))))
            (''target '' @ target @ '' is outside '' @ ws)
      | None \<Rightarrow>
      case unapproved_host L blob approved_hosts of
        Some host \<Rightarrow>
          with_evidence
            (check_result_new ToolCallArgumentRisk ''unapproved_network_host''
               (band_probability (weak_match t))
               (Some (if approved_hosts = [] then band_confidence (weak_match t)
                      else band_confidence (partial_match t))))
            (''host '' @ host @ '' is not on the approved list'')
      | None \<Rightarrow>
          check_result_new ToolCallArgumentRisk ''benign'' (band_probability (benign_band t))
            (Some (band_confidence (benign_band t))))"

section \<open>Check 5: sensitive-data exposure\<close>

definition SECRET_PATTERNS :: "(string \<times> string) list" where
  "SECRET_PATTERNS =
     [(''aws_access_key_id'', backslash @ ''b(?:AKIA|ASIA)[0-9A-Z]{16}'' @ backslash @ ''b''),
      (''private_key_block'', ''-----BEGIN (?:RSA |EC |OPENSSH |PGP )?PRIVATE KEY-----''),
      (''github_token'', backslash @ ''bgh[pousr]_[A-Za-z0-9]{36,}'' @ backslash @ ''b''),
      (''slack_token'', backslash @ ''bxox[abprs]-[0-9A-Za-z-]{10,}'' @ backslash @ ''b''),
      (''google_api_key'', backslash @ ''bAIza[0-9A-Za-z_-]{35}'' @ backslash @ ''b''),
      (''jwt'', backslash @ ''beyJ[A-Za-z0-9_-]{10,}'' @ backslash @ ''.[A-Za-z0-9_-]{10,}''
               @ backslash @ ''.[A-Za-z0-9_-]{10,}'' @ backslash @ ''b'')]"

definition WEAK_HINTS :: "string list" where
  "WEAK_HINTS =
     [''password='', ''passwd='', ''secret_key'', ''client_secret'', ''api_key='',
      ''authorization: bearer '']"

definition sensitive_data_exposure :: "libs \<Rightarrow> thresholds \<Rightarrow> string \<Rightarrow> check_result" where
  "sensitive_data_exposure L t txt =
     (case List.find (\<lambda>(label, re). re_is_match L re txt) SECRET_PATTERNS of
        Some (label, re) \<Rightarrow>
          with_evidence
            (check_result_new SensitiveDataExposure ''secret_pattern_matched''
               (band_probability (secret_pattern t)) (Some (band_confidence (secret_pattern t))))
            (''matched '' @ label)
      | None \<Rightarrow>
      case List.find (contains (to_ascii_lowercase txt)) WEAK_HINTS of
        Some hint \<Rightarrow>
          with_evidence
            (check_result_new SensitiveDataExposure ''possible_secret''
               (band_probability (weak_match t)) (Some (band_confidence (weak_match t))))
            (''contains '' @ quoted hint)
      | None \<Rightarrow>
          check_result_new SensitiveDataExposure ''none'' (band_probability (benign_band t))
            (Some (band_confidence (benign_band t))))"

section \<open>Check 7: agent output risk\<close>

definition OUTPUT_CREDENTIAL_PHRASES :: "string list" where
  "OUTPUT_CREDENTIAL_PHRASES =
     [''aws_secret_access_key'', ''aws_access_key_id'', ''.aws/credentials'', ''.ssh/id_rsa'',
      ''.ssh/id_ed25519'', ''private key'', ''api key'', ''bearer token'', ''reading credentials'',
      ''/etc/shadow'', ''.netrc'', ''.npmrc'']"

definition OUTPUT_EXFIL_PHRASES :: "string list" where
  "OUTPUT_EXFIL_PHRASES =
     [''curl -d'', ''curl --data'', ''uploading to'', ''posting to http'', ''sending to http'',
      ''base64 | curl'', ''exfiltrat'', ''webhook.site'', ''pastebin.com'', ''transfer.sh'']"

definition OUTPUT_EVASION_PHRASES :: "string list" where
  "OUTPUT_EVASION_PHRASES =
     [''ignore previous instructions'', ''ignore all previous'', ''disable the security'',
      ''disable enforcement'', ''bypass the policy'', ''without triggering'', ''avoid detection'',
      ''turn off ringzero'', ''systemctl stop ringzero'']"

definition output_finding :: "string \<Rightarrow> band \<Rightarrow> string \<Rightarrow> check_result" where
  "output_finding opt b p =
     with_evidence
       (check_result_new AgentOutputRisk opt (band_probability b) (Some (band_confidence b)))
       (''output mentions '' @ quoted p)"

definition agent_output_risk :: "libs \<Rightarrow> thresholds \<Rightarrow> string \<Rightarrow> check_result" where
  "agent_output_risk L t txt =
     (let hay = to_lowercase L txt in
      case List.find (contains hay) OUTPUT_EXFIL_PHRASES of
        Some p \<Rightarrow> output_finding ''states_exfiltration'' (strong_match t) p
      | None \<Rightarrow>
      case List.find (contains hay) OUTPUT_CREDENTIAL_PHRASES of
        Some p \<Rightarrow> output_finding ''states_credential_access'' (partial_match t) p
      | None \<Rightarrow>
      case List.find (contains hay) OUTPUT_EVASION_PHRASES of
        Some p \<Rightarrow> output_finding ''states_policy_evasion'' (weak_match t) p
      | None \<Rightarrow>
          check_result_new AgentOutputRisk ''benign'' (band_probability (benign_band t))
            (Some (band_confidence (benign_band t))))"


section \<open>Well-formed results\<close>

definition wf_result :: "check \<Rightarrow> check_result \<Rightarrow> bool" where
  "wf_result c r = (cr_check r = wire_name c \<and> cr_option r \<in> set (options c))"

lemma check_kind_wire [simp]: "cr_check r = wire_name c \<Longrightarrow> check_kind r = Some c"
  by (cases c) (simp_all add: check_kind_def)

lemma check_kind_Some: "check_kind r = Some c \<Longrightarrow> cr_check r = wire_name c"
  by (cases c) (auto simp: check_kind_def split: if_splits)

lemma with_evidence_simps [simp]:
  "cr_check (with_evidence r e) = cr_check r"
  "cr_option (with_evidence r e) = cr_option r"
  "cr_probability (with_evidence r e) = cr_probability r"
  "cr_confidence (with_evidence r e) = cr_confidence r"
  "cr_provider (with_evidence r e) = cr_provider r"
  "cr_evidence (with_evidence r e) = cr_evidence r @ [e]"
  "is_flag (with_evidence r e) = is_flag r"
  by (simp_all add: with_evidence_def is_flag_def)

lemma check_result_new_simps [simp]:
  "cr_check (check_result_new c opt p q) = wire_name c"
  "cr_option (check_result_new c opt p q) = opt"
  "cr_probability (check_result_new c opt p q) = p"
  "cr_confidence (check_result_new c opt p q) = q"
  "cr_evidence (check_result_new c opt p q) = []"
  "cr_provider (check_result_new c opt p q) = ''deterministic''"
  "cr_provider_error (check_result_new c opt p q) = None"
  by (simp_all add: check_result_new_def default_provider_def)

lemma is_flag_new [simp]:
  "is_flag (check_result_new c opt p q) \<longleftrightarrow> opt \<noteq> ''benign'' \<and> opt \<noteq> ''none''"
  by (simp add: is_flag_def)

text \<open>The severities of the fixed options, as rewrite rules.\<close>

lemma severity_rank_values [simp]:
  "severity_rank ToolCallArgumentRisk ''benign'' = 0"
  "severity_rank ToolCallArgumentRisk ''unapproved_network_host'' = 1"
  "severity_rank ToolCallArgumentRisk ''writes_outside_workspace'' = 2"
  "severity_rank ToolCallArgumentRisk ''reads_sensitive_path'' = 3"
  "severity_rank SensitiveDataExposure ''none'' = 0"
  "severity_rank SensitiveDataExposure ''possible_secret'' = 1"
  "severity_rank SensitiveDataExposure ''secret_pattern_matched'' = 2"
  "severity_rank AgentOutputRisk ''benign'' = 0"
  "severity_rank AgentOutputRisk ''states_policy_evasion'' = 1"
  "severity_rank AgentOutputRisk ''states_credential_access'' = 2"
  "severity_rank AgentOutputRisk ''states_exfiltration'' = 3"
  by simp_all

declare severity_rank.simps [simp del]

text \<open>No two options of one check have the same severity.\<close>

lemma severity_rank_distinct: "distinct (map (severity_rank c) (options c))"
  by (cases c) simp_all

lemma severity_rank_inj:
  "a \<in> set (options c) \<Longrightarrow> b \<in> set (options c) \<Longrightarrow> severity_rank c a = severity_rank c b \<Longrightarrow> a = b"
  using severity_rank_distinct[of c] by (auto simp: distinct_map dest: inj_onD)

text \<open>On its fixed options a check's flag is exactly a positive severity.\<close>

lemma is_flag_iff_rank:
  "wf_result c r \<Longrightarrow> is_flag r \<longleftrightarrow> 0 < severity_rank c (cr_option r)"
  unfolding wf_result_def is_flag_def by (cases c) (simp_all, elim disjE conjE; simp)+

lemma tool_risk_wf: "wf_result ToolCallArgumentRisk (tool_call_argument_risk L t tool args ws hosts)"
  by (simp add: tool_call_argument_risk_def wf_result_def Let_def split: option.split)

lemma exposure_wf: "wf_result SensitiveDataExposure (sensitive_data_exposure L t txt)"
  by (simp add: sensitive_data_exposure_def wf_result_def split: option.split)

lemma output_wf: "wf_result AgentOutputRisk (agent_output_risk L t txt)"
  by (simp add: agent_output_risk_def output_finding_def wf_result_def Let_def split: option.split)

lemmas scorers_wf = tool_risk_wf exposure_wf output_wf

section \<open>Properties\<close>

text \<open>Every signal a scorer looks for, by the severity it stands for.\<close>

definition signal :: "bool \<Rightarrow> nat \<Rightarrow> nat list" where
  "signal b n = (if b then [n] else [])"

definition tool_call_signals :: "libs \<Rightarrow> json \<Rightarrow> string option \<Rightarrow> string list \<Rightarrow> nat list" where
  "tool_call_signals L args ws hosts =
     signal (list_ex (contains (json_text L args)) SENSITIVE_PATHS) 3
     @ signal (escapes_workspace args ws \<noteq> None) 2
     @ signal (unapproved_host L (json_text L args) hosts \<noteq> None) 1"

definition exposure_signals :: "libs \<Rightarrow> string \<Rightarrow> nat list" where
  "exposure_signals L txt =
     signal (list_ex (\<lambda>(label, re). re_is_match L re txt) SECRET_PATTERNS) 2
     @ signal (list_ex (contains (to_ascii_lowercase txt)) WEAK_HINTS) 1"

definition output_signals :: "libs \<Rightarrow> string \<Rightarrow> nat list" where
  "output_signals L txt =
     signal (list_ex (contains (to_lowercase L txt)) OUTPUT_EVASION_PHRASES) 1
     @ signal (list_ex (contains (to_lowercase L txt)) OUTPUT_CREDENTIAL_PHRASES) 2
     @ signal (list_ex (contains (to_lowercase L txt)) OUTPUT_EXFIL_PHRASES) 3"

fun worst :: "nat list \<Rightarrow> nat" where
  "worst [] = 0"
| "worst (x # xs) = max x (worst xs)"

lemma list_ex_find: "list_ex P xs \<longleftrightarrow> List.find P xs \<noteq> None"
  by (induction xs) auto

lemma worst_append: "worst (xs @ ys) = max (worst xs) (worst ys)"
  by (induction xs) (simp_all add: max.assoc)

lemma worst_signal [simp]: "worst (signal b n) = (if b then n else 0)"
  by (simp add: signal_def)

text \<open>
  The most severe reading of the evidence wins in all three scorers: the option a scorer
  reports has the largest severity among all the signals present in its input, whatever other
  signals are present too, and it is benign (or none) only when no signal is present.
\<close>

theorem most_severe_signal_wins:
  "severity_rank ToolCallArgumentRisk (cr_option (tool_call_argument_risk L t tool args ws hosts))
     = worst (tool_call_signals L args ws hosts)
   \<and> severity_rank SensitiveDataExposure (cr_option (sensitive_data_exposure L t txt))
     = worst (exposure_signals L txt)
   \<and> severity_rank AgentOutputRisk (cr_option (agent_output_risk L t out))
     = worst (output_signals L out)"
proof (intro conjI)
  show "severity_rank ToolCallArgumentRisk (cr_option (tool_call_argument_risk L t tool args ws hosts))
     = worst (tool_call_signals L args ws hosts)"
    by (simp add: tool_call_argument_risk_def tool_call_signals_def worst_append list_ex_find
        Let_def split: option.split)
  show "severity_rank SensitiveDataExposure (cr_option (sensitive_data_exposure L t txt))
     = worst (exposure_signals L txt)"
    by (simp add: sensitive_data_exposure_def exposure_signals_def worst_append list_ex_find
        split: option.split)
  show "severity_rank AgentOutputRisk (cr_option (agent_output_risk L t out))
     = worst (output_signals L out)"
    by (simp add: agent_output_risk_def output_finding_def output_signals_def worst_append
        list_ex_find Let_def split: option.split)
qed

text \<open>
  No scored text reaches the evidence of the two text scorers: whatever the input, every
  evidence line is one of finitely many lines built from the source's own labels and phrases, so
  a matched secret can never be copied into a trace through them.
\<close>

theorem evidence_is_input_free:
  "set (cr_evidence (sensitive_data_exposure L t txt))
     \<subseteq> (\<lambda>(label, re). ''matched '' @ label) ` set SECRET_PATTERNS
        \<union> (\<lambda>hint. ''contains '' @ quoted hint) ` set WEAK_HINTS
   \<and> set (cr_evidence (agent_output_risk L t out))
     \<subseteq> (\<lambda>p. ''output mentions '' @ quoted p)
        ` set (OUTPUT_EXFIL_PHRASES @ OUTPUT_CREDENTIAL_PHRASES @ OUTPUT_EVASION_PHRASES)"
proof
  show "set (cr_evidence (sensitive_data_exposure L t txt))
     \<subseteq> (\<lambda>(label, re). ''matched '' @ label) ` set SECRET_PATTERNS
        \<union> (\<lambda>hint. ''contains '' @ quoted hint) ` set WEAK_HINTS"
    by (auto simp: sensitive_data_exposure_def split: option.splits dest!: find_SomeD
        intro!: image_eqI rev_image_eqI)
  show "set (cr_evidence (agent_output_risk L t out))
     \<subseteq> (\<lambda>p. ''output mentions '' @ quoted p)
        ` set (OUTPUT_EXFIL_PHRASES @ OUTPUT_CREDENTIAL_PHRASES @ OUTPUT_EVASION_PHRASES)"
    by (auto simp: agent_output_risk_def output_finding_def Let_def split: option.splits
        dest!: find_SomeD)
qed

text \<open>
  The band a bare probability falls into is monotone: under a validated set a larger
  probability never names a less severe exposure option, the option is always one of the check's
  three, and each of the three is reached (at the two band edges, inclusively, and below them).
\<close>

theorem exposure_option_monotone:
  assumes "validate_thresholds t = Inr ()" and "f32_le p q"
  shows "severity_rank SensitiveDataExposure (exposure_option t p)
           \<le> severity_rank SensitiveDataExposure (exposure_option t q)
         \<and> exposure_option t p \<in> set (options SensitiveDataExposure)
         \<and> exposure_option t (secret_pattern_matched_at t) = ''secret_pattern_matched''
         \<and> (f32_lt q (possible_secret_at t) \<longleftrightarrow> exposure_option t q = ''none'')"
proof -
  have ord: "f32_le (possible_secret_at t) (secret_pattern_matched_at t)"
    using assms(1) by (simp add: validate_ok_iff ordered_bands_def)
  have nn: "possible_secret_at t \<noteq> NaN" "secret_pattern_matched_at t \<noteq> NaN" "q \<noteq> NaN"
    using assms by (auto simp: validate_ok_iff unit_thresholds_def in_unit_def elim: f32_le.elims)
  have lt: "f32_lt q (possible_secret_at t) \<longleftrightarrow> \<not> f32_le (possible_secret_at t) q"
    using nn by (simp add: f32_lt_iff)
  show ?thesis
    using ord nn lt f32_le_trans[OF _ assms(2), of "secret_pattern_matched_at t"]
      f32_le_trans[OF _ assms(2), of "possible_secret_at t"] f32_le_trans[OF ord, of q]
    by (auto simp: exposure_option_def f32_le_refl)
qed

theorem exposure_option_monotone_witness:
  "severity_rank SensitiveDataExposure (exposure_option default_thresholds (Fin (1 / 4)))
     \<le> severity_rank SensitiveDataExposure (exposure_option default_thresholds (Fin (1 / 2)))"
  using exposure_option_monotone[OF default_valid, of "Fin (1 / 4)" "Fin (1 / 2)"] by simp

end
