(* ===== verification/Events.thy ===== *)
theory Events
  imports Values
begin

text \<open>
  agent/src/common/event.rs and common/policy.rs: the security event every component consumes, its
  kinds, and the two policy modes. A timestamp is a count (nanoseconds since the epoch), a pid or
  uid a 32-bit number.
\<close>

type_synonym pid = "32 word"
type_synonym timestamp = int

datatype event_kind =
    FileOpen | FileCreate | FileDelete | FileRename | FileWrite
  | ProcessExec | ProcessFork | ProcessExit
  | NetworkConnect | NetworkSend | NetworkRecv | DnsQuery
  | McpToolCall
  | LlmRequest | LlmResponse | LlmToolCall
  | ProxyBlock | ProxyDetection | DlpPii
  | TamperPtrace | TamperSignal | TamperMount | TamperUmount
  | ContainedExecBlocked | ContainedFileBlocked
  | OffensivePrompt | PromptInjection | MprotectWx | AttackChain
  | SkillFileChange | SkillGitRepoDrop | TranscriptWrite
  | AgentStdout | AgentStdin

record token_usage =
  input_tokens :: "64 word option"
  output_tokens :: "64 word option"

record llm_context =
  lc_provider :: string
  lc_model :: "string option"
  lc_response_text :: "string option"
  lc_tool_call :: "string option"
  lc_usage :: "token_usage option"
  lc_response_ts :: timestamp

record security_event =
  ev_id :: string
  ev_kind :: event_kind
  ev_pid :: pid
  ev_uid :: "32 word"
  ev_process :: string
  ev_target :: string
  ev_allowed :: bool
  ev_reason :: "string option"
  ev_timestamp :: timestamp
  ev_ppid :: "pid option"
  ev_parent_process :: "string option"
  ev_llm_context :: "llm_context option"
  ev_extra :: "json option"

text \<open>
  The clock's nanosecond count is optional (it is out of range after 2262) and defaults to zero;
  \<open>show_peer\<close> prints a socket address.
\<close>

definition show_int :: "int \<Rightarrow> string" where
  "show_int i = (if i < 0 then ''-'' @ show_nat (nat (- i)) else show_nat (nat i))"

definition proxy_kind_label :: "event_kind \<Rightarrow> string" where
  "proxy_kind_label k =
     (case k of
        ProxyBlock \<Rightarrow> ''block'' | ProxyDetection \<Rightarrow> ''detect'' | LlmRequest \<Rightarrow> ''req''
      | LlmResponse \<Rightarrow> ''resp'' | LlmToolCall \<Rightarrow> ''tool'' | _ \<Rightarrow> ''evt'')"

definition proxy_event ::
  "int option \<Rightarrow> timestamp \<Rightarrow> string \<Rightarrow> event_kind \<Rightarrow> string \<Rightarrow> bool \<Rightarrow> string option
     \<Rightarrow> llm_context option \<Rightarrow> security_event" where
  "proxy_event nanos now peer kind sni allowed reason ctx =
     \<lparr>ev_id = ''proxy-'' @ proxy_kind_label kind @ ''-''
                @ show_int (case nanos of Some n \<Rightarrow> n | None \<Rightarrow> 0),
      ev_kind = kind, ev_pid = 0, ev_uid = 0, ev_process = ''proxy:'' @ peer, ev_target = sni,
      ev_allowed = allowed, ev_reason = reason, ev_timestamp = now, ev_ppid = None,
      ev_parent_process = None, ev_llm_context = ctx, ev_extra = None\<rparr>"

datatype network_mode = Low | Medium | High

datatype enforce_mode = Enforce | Observe

definition default_network_mode :: network_mode where
  "default_network_mode = Low"

definition default_enforce_mode :: enforce_mode where
  "default_enforce_mode = Enforce"

text \<open>An event with nothing in it, to be updated field by field in examples.\<close>

definition blank_event :: security_event where
  "blank_event =
     \<lparr>ev_id = [], ev_kind = ProcessExit, ev_pid = 0, ev_uid = 0, ev_process = [], ev_target = [],
      ev_allowed = True, ev_reason = None, ev_timestamp = 0, ev_ppid = None,
      ev_parent_process = None, ev_llm_context = None, ev_extra = None\<rparr>"

end
