(* ===== verification/Enforcement.thy ===== *)
theory Enforcement
  imports Events
begin

text \<open>
  agent/src/enforcement.rs: the rule-based labels of recorded events and the action configured for
  a label (\<open>EnforcementSection\<close> and its categories are from agent/src/config.rs).
\<close>

section \<open>Configuration\<close>

datatype enforcement_action = ActObserve | ActAlert | ActBlock

record enforcement_categories =
  cat_credential_access :: string
  cat_data_exfiltration :: string
  cat_privilege_escalation :: string
  cat_prompt_injection :: string
  cat_supply_chain :: string
  cat_excessive_agency :: string
  cat_output_handling :: string
  cat_memory_poisoning :: string
  cat_tool_misuse :: string
  cat_rogue_agent :: string
  cat_system_prompt_leakage :: string
  cat_mcp_tool_poisoning :: string
  cat_harmful_content :: string

record enforcement_section =
  default_action :: string
  categories :: enforcement_categories

definition default_categories :: enforcement_categories where
  "default_categories =
     (let o' = ''observe''
      in \<lparr>cat_credential_access = o', cat_data_exfiltration = o', cat_privilege_escalation = o',
          cat_prompt_injection = o', cat_supply_chain = o', cat_excessive_agency = o',
          cat_output_handling = o', cat_memory_poisoning = o', cat_tool_misuse = o',
          cat_rogue_agent = o', cat_system_prompt_leakage = o', cat_mcp_tool_poisoning = o',
          cat_harmful_content = o'\<rparr>)"

definition default_enforcement :: enforcement_section where
  "default_enforcement = \<lparr>default_action = ''observe'', categories = default_categories\<rparr>"

definition parse_action :: "string \<Rightarrow> enforcement_action" where
  "parse_action s =
     (let w = to_ascii_lowercase (trim s)
      in if w = ''alert'' then ActAlert else if w = ''block'' then ActBlock else ActObserve)"

definition action_for_category :: "string \<Rightarrow> enforcement_section \<Rightarrow> enforcement_action" where
  "action_for_category category config =
     (let cat = categories config;
          override_str =
            (if category = ''credential_access'' then cat_credential_access cat
             else if category = ''data_exfiltration'' then cat_data_exfiltration cat
             else if category = ''privilege_escalation'' then cat_privilege_escalation cat
             else if category = ''prompt_injection'' then cat_prompt_injection cat
             else if category = ''supply_chain'' then cat_supply_chain cat
             else if category = ''excessive_agency'' then cat_excessive_agency cat
             else if category = ''output_handling'' then cat_output_handling cat
             else if category = ''memory_poisoning'' then cat_memory_poisoning cat
             else if category = ''tool_misuse'' then cat_tool_misuse cat
             else if category = ''rogue_agent'' then cat_rogue_agent cat
             else if category = ''system_prompt_leakage'' then cat_system_prompt_leakage cat
             else if category = ''mcp_tool_poisoning'' then cat_mcp_tool_poisoning cat
             else if category = ''harmful_content'' then cat_harmful_content cat
             else default_action config)
      in if override_str = [] then parse_action (default_action config)
         else parse_action override_str)"

section \<open>What a target looks like\<close>

definition CREDENTIAL_PREFIXES :: "string list" where
  "CREDENTIAL_PREFIXES =
     [''/.ssh/'', ''/.aws/'', ''/.kube/'', ''/.gnupg/'', ''/.config/gcloud/'', ''/.azure/'',
      ''/.docker/config.json'', ''/.npmrc'', ''/.pypirc'', ''/.netrc'', ''/.git-credentials'']"

definition is_credential_path :: "string \<Rightarrow> bool" where
  "is_credential_path path = list_ex (contains path) CREDENTIAL_PREFIXES"

definition SKILL_CONFIG_FILES :: "string list" where
  "SKILL_CONFIG_FILES =
     [''CLAUDE.md'', ''AGENTS.md'', ''GEMINI.md'', ''.cursorrules'', ''.windsurfrules'',
      ''SKILL.md'', ''.mcp.json'', ''copilot-instructions.md'', ''.claude/'', ''.cursor/'']"

definition is_skill_config_path :: "string \<Rightarrow> bool" where
  "is_skill_config_path path = list_ex (contains path) SKILL_CONFIG_FILES"

definition PRIV_ESC_BINS :: "string list" where
  "PRIV_ESC_BINS = [''sudo'', ''su'', ''pkexec'', ''doas'', ''run0'']"

definition ESCAPE_BINS :: "string list" where
  "ESCAPE_BINS = [''systemd-run'', ''at'', ''batch'', ''crontab'']"

definition is_escape_exec :: "string \<Rightarrow> bool" where
  "is_escape_exec process =
     (let name = last_segment process;
          name = (case first_word name of Some w \<Rightarrow> w | None \<Rightarrow> name)
      in name \<in> set ESCAPE_BINS)"

definition is_credential_name :: "string \<Rightarrow> bool" where
  "is_credential_name path =
     (let name = last_segment path
      in starts_with name ''id_'' \<or> name = ''credentials'' \<or> starts_with name ''.env''
         \<or> name = ''.netrc'' \<or> name = ''.npmrc'' \<or> name = ''.pypirc''
         \<or> name = ''.git-credentials'')"

definition is_privilege_escalation_exec :: "string \<Rightarrow> bool" where
  "is_privilege_escalation_exec process =
     list_ex (\<lambda>bin. process = bin \<or> ends_with process (''/'' @ bin)) PRIV_ESC_BINS"

definition is_curl_pipe_exec :: "string \<Rightarrow> bool" where
  "is_curl_pipe_exec target =
     (let lower = to_ascii_lowercase target
      in (contains lower ''curl'' \<or> contains lower ''wget'')
         \<and> (contains lower ''| bash'' \<or> contains lower ''| sh'' \<or> contains lower ''|bash''
             \<or> contains lower ''|sh'' \<or> contains lower ''| /bin/bash''
             \<or> contains lower ''| /bin/sh''))"

definition INJECTION_PATTERNS :: "string list" where
  "INJECTION_PATTERNS =
     [''ignore previous instructions'', ''ignore all prior'', ''disregard above'',
      ''forget your instructions'', ''new instructions:'', ''system prompt:'', ''you are now'',
      ''act as if'', ''pretend you are'', ''override:'', ''[system]'', ''```system'']"

definition has_injection_pattern :: "string \<Rightarrow> bool" where
  "has_injection_pattern t = list_ex (contains (to_ascii_lowercase t)) INJECTION_PATTERNS"

section \<open>The classifier\<close>

text \<open>The arms of the match, in their order.\<close>

definition classify :: "security_event \<Rightarrow> string option" where
  "classify ev =
     (let k = ev_kind ev; t = ev_target ev; refused = (\<not> ev_allowed ev)
      in if k \<in> {FileOpen, FileCreate, FileWrite} \<and> is_credential_path t
           then Some ''credential_access''
         else if k \<in> {FileOpen, FileCreate, FileWrite} \<and> refused \<and> is_credential_name t
           then Some ''credential_access''
         else if k \<in> {FileWrite, FileCreate, FileDelete, FileRename} \<and> is_skill_config_path t
           then Some ''memory_poisoning''
         else if k = FileOpen \<and> refused \<and> is_skill_config_path t then Some ''memory_poisoning''
         else if k \<in> {NetworkConnect, NetworkSend} \<and> refused then Some ''data_exfiltration''
         else if k = ProcessExec \<and> is_privilege_escalation_exec t
           then Some ''privilege_escalation''
         else if k = ProcessExec \<and> is_escape_exec t then Some ''rogue_agent''
         else if k = ProcessExec \<and> is_curl_pipe_exec t then Some ''supply_chain''
         else if k = LlmRequest \<and> has_injection_pattern t then Some ''prompt_injection''
         else if k = DlpPii then Some ''data_exfiltration''
         else if k = OffensivePrompt then Some ''harmful_content''
         else if k = ProxyDetection then Some ''prompt_injection''
         else None)"

definition evaluate_event ::
  "security_event \<Rightarrow> enforcement_section \<Rightarrow> (string \<times> enforcement_action) option" where
  "evaluate_event ev config =
     map_option (\<lambda>category. (category, action_for_category category config)) (classify ev)"

section \<open>Properties\<close>

text \<open>
  The classifier is a first-match list; what makes it usable as evidence is that each label has an
  order-free meaning.
\<close>

definition touches_credential :: "security_event \<Rightarrow> bool" where
  "touches_credential ev =
     (ev_kind ev \<in> {FileOpen, FileCreate, FileWrite}
      \<and> (is_credential_path (ev_target ev)
          \<or> \<not> ev_allowed ev \<and> is_credential_name (ev_target ev)))"

definition changes_instructions :: "security_event \<Rightarrow> bool" where
  "changes_instructions ev =
     (is_skill_config_path (ev_target ev)
      \<and> (ev_kind ev \<in> {FileWrite, FileCreate, FileDelete, FileRename}
          \<or> ev_kind ev = FileOpen \<and> \<not> ev_allowed ev))"

text \<open>
  Each label of the classifier has an exact meaning that does not depend on the order of its
  arms: credential access is a file operation on a credential path, or a refused one on a
  credential name; memory poisoning is a change (or a refused read) of an instruction file that is
  not credential access; data exfiltration is a refused connection or a DLP hit; the three exec
  labels are exclusive with privilege escalation first. In particular permitted network use and
  permitted reads of instruction files carry no label.
\<close>
theorem labels_have_exact_meaning:
  "(classify ev = Some ''credential_access'' \<longleftrightarrow> touches_credential ev)
   \<and> (classify ev = Some ''memory_poisoning'' \<longleftrightarrow>
        changes_instructions ev \<and> \<not> touches_credential ev)
   \<and> (classify ev = Some ''data_exfiltration'' \<longleftrightarrow>
        ev_kind ev = DlpPii \<or> ev_kind ev \<in> {NetworkConnect, NetworkSend} \<and> \<not> ev_allowed ev)
   \<and> (classify ev = Some ''privilege_escalation'' \<longleftrightarrow>
        ev_kind ev = ProcessExec \<and> is_privilege_escalation_exec (ev_target ev))
   \<and> (classify ev = Some ''rogue_agent'' \<longleftrightarrow>
        ev_kind ev = ProcessExec \<and> is_escape_exec (ev_target ev)
        \<and> \<not> is_privilege_escalation_exec (ev_target ev))
   \<and> (classify ev = Some ''supply_chain'' \<longleftrightarrow>
        ev_kind ev = ProcessExec \<and> is_curl_pipe_exec (ev_target ev)
        \<and> \<not> is_privilege_escalation_exec (ev_target ev) \<and> \<not> is_escape_exec (ev_target ev))
   \<and> (classify ev = Some ''prompt_injection'' \<longleftrightarrow>
        ev_kind ev = ProxyDetection
        \<or> ev_kind ev = LlmRequest \<and> has_injection_pattern (ev_target ev))
   \<and> (classify ev = Some ''harmful_content'' \<longleftrightarrow> ev_kind ev = OffensivePrompt)
   \<and> set_option (classify ev) \<subseteq>
        {''credential_access'', ''memory_poisoning'', ''data_exfiltration'',
         ''privilege_escalation'', ''rogue_agent'', ''supply_chain'', ''prompt_injection'',
         ''harmful_content''}"
  unfolding classify_def Let_def touches_credential_def changes_instructions_def
  by (cases "ev_kind ev"; cases "ev_allowed ev") simp_all

lemma parse_observe: "parse_action ''observe'' = ActObserve"
  by code_simp

lemma action_of_defaults:
  "c \<in> {''credential_access'', ''memory_poisoning'', ''data_exfiltration'',
         ''privilege_escalation'', ''rogue_agent'', ''supply_chain'', ''prompt_injection'',
         ''harmful_content''}
   \<Longrightarrow> action_for_category c \<lparr>default_action = d, categories = default_categories\<rparr> = ActObserve"
  by (elim insertE emptyE)
    (simp_all add: action_for_category_def default_categories_def Let_def parse_observe)

lemma classify_range:
  "classify ev = Some c \<Longrightarrow>
   c \<in> {''credential_access'', ''memory_poisoning'', ''data_exfiltration'',
         ''privilege_escalation'', ''rogue_agent'', ''supply_chain'', ''prompt_injection'',
         ''harmful_content''}"
  unfolding classify_def Let_def
  by (cases "ev_kind ev"; cases "ev_allowed ev") (simp_all split: if_splits)

lemmas action_of_label = action_of_defaults[OF classify_range]

text \<open>
  With the category overrides a configuration file gets when it does not list them (each
  defaults to the word observe, not to the empty string), the configured default action is never
  used: whatever \<open>default_action\<close> says, every labelled event is only observed.
\<close>
theorem default_action_is_inert:
  "evaluate_event ev \<lparr>default_action = d, categories = default_categories\<rparr>
   = map_option (\<lambda>c. (c, ActObserve)) (classify ev)"
  by (cases "classify ev") (simp_all add: evaluate_event_def action_of_label)

text \<open>
  A helper that starts work outside the agent's process tree is looked for after the last slash
  of the whole command line. What precedes that slash does not matter: the command word is never
  examined when an argument contains a slash, and the argument's last component is examined in its
  place.
\<close>
theorem escape_label_reads_last_component:
  "CHR ''/'' \<notin> set b \<Longrightarrow> is_escape_exec (a @ ''/'' @ b) = is_escape_exec b"
  by (simp add: is_escape_exec_def last_segment_app last_segment_plain)

theorem escape_label_reads_last_component_witness:
  "is_escape_exec ''crontab'' \<and> \<not> is_escape_exec ''crontab /tmp/jobs''
   \<and> is_escape_exec ''vim /tmp/batch''"
proof -
  have "is_escape_exec ''crontab''" by code_simp
  moreover have "\<not> is_escape_exec ''jobs''" and "is_escape_exec ''batch''" by code_simp+
  ultimately show ?thesis
    using escape_label_reads_last_component[of "''jobs''" "''crontab /tmp''"]
      escape_label_reads_last_component[of "''batch''" "''vim /tmp''"]
    by simp
qed

end
