(* ===== verification/Acl.thy ===== *)
theory Acl
  imports Events
begin

text \<open>
  agent/src/policy/acl.rs: per-skill access lists, their glob matcher, the operator's block and
  unblock operations, and the decision on an event.
\<close>

section \<open>Policies and state\<close>

record file_rules =
  files_read :: "string list"
  files_write :: "string list"
  files_deny :: "string list"

record network_rules =
  net_allow :: "string list"
  net_deny :: "string list"

record process_rules =
  proc_spawn :: "string list"
  proc_deny :: "string list"

record skill_policy =
  skill :: string
  author :: "string option"
  files :: file_rules
  network :: network_rules
  proc :: process_rules

datatype decision = Allow | Block string

record acl_engine =
  policies :: "string \<rightharpoonup> skill_policy"
  default_deny :: bool

definition acl_new :: "bool \<Rightarrow> acl_engine" where
  "acl_new d = \<lparr>policies = Map.empty, default_deny = d\<rparr>"

text \<open>One \<open>.toml\<close> file of the walk: it cannot be read, does not parse, or holds a policy.\<close>

datatype policy_file = Unreadable string | BadToml | PolicyFile skill_policy

definition add_policy :: "skill_policy \<Rightarrow> acl_engine \<Rightarrow> acl_engine" where
  "add_policy p A = A\<lparr>policies := (policies A)(skill p \<mapsto> p)\<rparr>"

fun load_files :: "policy_file list \<Rightarrow> acl_engine \<Rightarrow> (string + unit) \<times> acl_engine" where
  "load_files [] A = (Inr (), A)"
| "load_files (f # fs) A =
     (case f of
        Unreadable e \<Rightarrow> (Inl e, A)
      | BadToml \<Rightarrow> load_files fs A
      | PolicyFile p \<Rightarrow> load_files fs (add_policy p A))"

definition load_dir :: "policy_file list \<Rightarrow> acl_engine \<Rightarrow> (string + unit) \<times> acl_engine" where
  "load_dir fs A =
     (case load_files fs A of
        (Inl e, A') \<Rightarrow> (Inl e, A')
      | (Inr _, A') \<Rightarrow>
          (Inr (), if default_deny A' \<and> policies A' = Map.empty
                   then A'\<lparr>default_deny := False\<rparr> else A'))"

definition set_default_deny :: "bool \<Rightarrow> acl_engine \<Rightarrow> acl_engine" where
  "set_default_deny d A = A\<lparr>default_deny := d\<rparr>"

section \<open>Operator lists\<close>

text \<open>\<open>values_mut\<close>: the same change to the policy of every skill.\<close>

definition each_policy :: "(skill_policy \<Rightarrow> skill_policy) \<Rightarrow> acl_engine \<Rightarrow> acl_engine" where
  "each_policy f A = A\<lparr>policies := (\<lambda>k. map_option f (policies A k))\<rparr>"

definition push_new :: "string \<Rightarrow> string list \<Rightarrow> string list" where
  "push_new n xs = (if n \<in> set xs then xs else xs @ [n])"

definition retain_not :: "string \<Rightarrow> string list \<Rightarrow> string list" where
  "retain_not n xs = filter (\<lambda>x. x \<noteq> n) xs"

definition block_file :: "string \<Rightarrow> acl_engine \<Rightarrow> acl_engine" where
  "block_file n = each_policy (files_update (files_deny_update (push_new n)))"

definition unblock_file :: "string \<Rightarrow> acl_engine \<Rightarrow> acl_engine" where
  "unblock_file n = each_policy (files_update (files_deny_update (retain_not n)))"

definition block_domain :: "string \<Rightarrow> acl_engine \<Rightarrow> acl_engine" where
  "block_domain n = each_policy (network_update (net_deny_update (push_new n)))"

definition unblock_domain :: "string \<Rightarrow> acl_engine \<Rightarrow> acl_engine" where
  "unblock_domain n = each_policy (network_update (net_deny_update (retain_not n)))"

definition block_process :: "string \<Rightarrow> acl_engine \<Rightarrow> acl_engine" where
  "block_process n = each_policy (proc_update (proc_deny_update (push_new n)))"

definition unblock_process :: "string \<Rightarrow> acl_engine \<Rightarrow> acl_engine" where
  "unblock_process n = each_policy (proc_update (proc_deny_update (retain_not n)))"

section \<open>Glob matching\<close>

text \<open>
  The byte offsets \<open>0 ..= len\<close> at which the double star tries the rest of the pattern, as slices
  (\<open>None\<close> where the offset splits a character), and the character offsets before the first slash
  for the single star.
\<close>

definition all_tails :: "string \<Rightarrow> string option list" where
  "all_tails s = map (slice_from s) [0..<Suc (length s)]"

fun segment_tails :: "string \<Rightarrow> string list" where
  "segment_tails [] = []"
| "segment_tails (c # cs) =
     (if c = CHR ''/'' then []
      else if is_cont c then segment_tails cs
      else (c # cs) # segment_tails cs)"

function glob_match_inner :: "string \<Rightarrow> string \<Rightarrow> bool option" where
  "glob_match_inner [] s = Some (s = [])"
| "glob_match_inner (p # ps) s =
     (if p = CHR ''*'' then
        (case ps of
           [] \<Rightarrow> any_opt (map (glob_match_inner []) (segment_tails s) @ [glob_match_inner [] []])
         | q # rest \<Rightarrow>
             if q = CHR ''*'' then
               if rest = [] then Some True
               else any_opt (map (\<lambda>t. case t of None \<Rightarrow> None
                                    | Some u \<Rightarrow> glob_match_inner rest u) (all_tails s))
             else any_opt (map (glob_match_inner (q # rest)) (segment_tails s)
                           @ [glob_match_inner (q # rest) []]))
      else if p = CHR ''?'' then glob_match_inner ps (drop_char s)
      else if first_char s \<noteq> first_char (p # ps) then Some False
      else glob_match_inner (drop_char (p # ps)) (drop_char s))"
  by pat_completeness auto
termination
  by (relation "measure (\<lambda>(p, s). length p)") (auto simp: le_imp_less_Suc length_dropWhile_le)

declare glob_match_inner.simps(2) [simp del]

lemma glob_star0:
  "glob_match_inner ''*'' s
   = any_opt (map (glob_match_inner []) (segment_tails s) @ [glob_match_inner [] []])"
  by (simp add: glob_match_inner.simps(2)[of "CHR ''*''" "[]" s])

lemma glob_star2:
  "glob_match_inner (CHR ''*'' # CHR ''*'' # rest) s
   = (if rest = [] then Some True
      else any_opt (map (\<lambda>t. case t of None \<Rightarrow> None
                           | Some u \<Rightarrow> glob_match_inner rest u) (all_tails s)))"
  by (simp add: glob_match_inner.simps(2)[of "CHR ''*''" "CHR ''*'' # rest" s])

lemma glob_star1:
  "q \<noteq> CHR ''*'' \<Longrightarrow> glob_match_inner (CHR ''*'' # q # rest) s
   = any_opt (map (glob_match_inner (q # rest)) (segment_tails s)
              @ [glob_match_inner (q # rest) []])"
  by (simp add: glob_match_inner.simps(2)[of "CHR ''*''" "q # rest" s])

lemma glob_any1: "glob_match_inner (CHR ''?'' # ps) s = glob_match_inner ps (drop_char s)"
  by (simp add: glob_match_inner.simps(2)[of "CHR ''?''" ps s])

lemma glob_lit:
  "p \<noteq> CHR ''*'' \<Longrightarrow> p \<noteq> CHR ''?'' \<Longrightarrow> glob_match_inner (p # ps) s
   = (if first_char s \<noteq> first_char (p # ps) then Some False
      else glob_match_inner (drop_char (p # ps)) (drop_char s))"
  by (simp only: glob_match_inner.simps(2)[of p ps s] if_False)

lemmas glob_eqs = glob_star0 glob_star2 glob_star1 glob_any1 glob_lit

text \<open>A leading tilde stands for the home directory, when the environment names one.\<close>

definition expand_home :: "string option \<Rightarrow> string \<Rightarrow> string" where
  "expand_home home s =
     (case (home, s) of (Some h, c # cs) \<Rightarrow> if c = CHR ''~'' then h @ cs else s | _ \<Rightarrow> s)"

definition glob_match :: "string option \<Rightarrow> string \<Rightarrow> string \<Rightarrow> bool option" where
  "glob_match home pattern path =
     glob_match_inner (expand_home home pattern) (expand_home home path)"

definition glob_match_any :: "string option \<Rightarrow> string list \<Rightarrow> string \<Rightarrow> bool option" where
  "glob_match_any home pats path = any_opt (map (\<lambda>p. glob_match home p path) pats)"

section \<open>Decisions\<close>

text \<open>Each decision is \<open>None\<close> when a pattern makes the matcher panic.\<close>

definition deny_then_allow ::
  "string option \<Rightarrow> string list \<Rightarrow> string \<Rightarrow> string list option \<Rightarrow> string \<Rightarrow> string
     \<Rightarrow> decision option" where
  "deny_then_allow home deny deny_reason allow allow_reason target =
     (case glob_match_any home deny target of
        None \<Rightarrow> None
      | Some True \<Rightarrow> Some (Block deny_reason)
      | Some False \<Rightarrow>
         (case allow of
            None \<Rightarrow> Some Allow
          | Some pats \<Rightarrow>
             if pats = [] then Some Allow
             else (case glob_match_any home pats target of
                     None \<Rightarrow> None
                   | Some True \<Rightarrow> Some Allow
                   | Some False \<Rightarrow> Some (Block allow_reason))))"

definition evaluate_file :: "string option \<Rightarrow> skill_policy \<Rightarrow> security_event \<Rightarrow> decision option" where
  "evaluate_file home p ev =
     (let t = ev_target ev; q = CHR 0x27
      in deny_then_allow home (files_deny (files p))
           (''[ACL-101] File '' @ q # t @ q # '' is in deny list for skill '' @ q # skill p @ [q])
           (if ev_kind ev \<in> {FileWrite, FileCreate, FileDelete, FileRename}
            then Some (files_write (files p)) else None)
           (''[ACL-102] File write to '' @ q # t @ q # '' not in write allowlist for skill ''
              @ q # skill p @ [q]) t)"

definition evaluate_network ::
  "string option \<Rightarrow> skill_policy \<Rightarrow> security_event \<Rightarrow> decision option" where
  "evaluate_network home p ev =
     (let t = ev_target ev; q = CHR 0x27
      in deny_then_allow home (net_deny (network p))
           (''[ACL-201] Network target '' @ q # t @ q # '' is denied for skill '' @ q # skill p @ [q])
           (Some (net_allow (network p)))
           (''[ACL-202] Network target '' @ q # t @ q # '' not in allowlist for skill ''
              @ q # skill p @ [q]) t)"

definition evaluate_process ::
  "string option \<Rightarrow> skill_policy \<Rightarrow> security_event \<Rightarrow> decision option" where
  "evaluate_process home p ev =
     (let t = ev_target ev; q = CHR 0x27
      in deny_then_allow home (proc_deny (proc p))
           (''[ACL-301] Process '' @ q # t @ q # '' is denied for skill '' @ q # skill p @ [q])
           (Some (proc_spawn (proc p)))
           (''[ACL-302] Process spawn '' @ q # t @ q # '' not in allowlist for skill ''
              @ q # skill p @ [q]) t)"

definition evaluate :: "string option \<Rightarrow> acl_engine \<Rightarrow> security_event \<Rightarrow> decision option" where
  "evaluate home A ev =
     (case policies A (ev_process ev) of
        None \<Rightarrow> Some Allow
      | Some p \<Rightarrow>
          if ev_kind ev \<in> {FileOpen, FileCreate, FileWrite, FileDelete, FileRename}
            then evaluate_file home p ev
          else if ev_kind ev \<in> {NetworkConnect, NetworkSend, NetworkRecv, DnsQuery}
            then evaluate_network home p ev
          else if ev_kind ev \<in> {ProcessExec, ProcessFork} then evaluate_process home p ev
          else Some Allow)"

section \<open>Operator histories\<close>

datatype acl_op =
    BlockFile string | UnblockFile string | BlockDomain string | UnblockDomain string
  | BlockProcess string | UnblockProcess string | SetDefaultDeny bool

fun acl_step :: "acl_engine \<Rightarrow> acl_op \<Rightarrow> acl_engine" where
  "acl_step A (BlockFile n) = block_file n A"
| "acl_step A (UnblockFile n) = unblock_file n A"
| "acl_step A (BlockDomain n) = block_domain n A"
| "acl_step A (UnblockDomain n) = unblock_domain n A"
| "acl_step A (BlockProcess n) = block_process n A"
| "acl_step A (UnblockProcess n) = unblock_process n A"
| "acl_step A (SetDefaultDeny d) = set_default_deny d A"

fun file_word :: "acl_op \<Rightarrow> (string \<times> bool) option" where
  "file_word (BlockFile n) = Some (n, True)"
| "file_word (UnblockFile n) = Some (n, False)"
| "file_word _ = None"

fun domain_word :: "acl_op \<Rightarrow> (string \<times> bool) option" where
  "domain_word (BlockDomain n) = Some (n, True)"
| "domain_word (UnblockDomain n) = Some (n, False)"
| "domain_word _ = None"

fun process_word :: "acl_op \<Rightarrow> (string \<times> bool) option" where
  "process_word (BlockProcess n) = Some (n, True)"
| "process_word (UnblockProcess n) = Some (n, False)"
| "process_word _ = None"

abbreviation file_deny :: "skill_policy \<Rightarrow> string list" where
  "file_deny p \<equiv> files_deny (files p)"

abbreviation domain_deny :: "skill_policy \<Rightarrow> string list" where
  "domain_deny p \<equiv> net_deny (network p)"

abbreviation process_deny :: "skill_policy \<Rightarrow> string list" where
  "process_deny p \<equiv> proc_deny (proc p)"

definition deny_set :: "(skill_policy \<Rightarrow> string list) \<Rightarrow> acl_engine \<Rightarrow> string \<Rightarrow> string set" where
  "deny_set f A k = (case policies A k of None \<Rightarrow> {} | Some p \<Rightarrow> set (f p))"

lemmas acl_ops = block_file_def unblock_file_def block_domain_def unblock_domain_def
  block_process_def unblock_process_def set_default_deny_def

lemma set_push_new [simp]: "set (push_new n xs) = insert n (set xs)"
  by (auto simp: push_new_def)

lemma set_retain_not [simp]: "set (retain_not n xs) = set xs - {n}"
  by (auto simp: retain_not_def)

lemma dom_each [simp]: "dom (policies (each_policy f A)) = dom (policies A)"
  by (auto simp: each_policy_def dom_def)

lemma policies_each [simp]: "policies (each_policy f A) k = map_option f (policies A k)"
  by (simp add: each_policy_def)

lemma dom_acl_step: "dom (policies (acl_step A op)) = dom (policies A)"
  by (cases op) (simp_all add: acl_ops)

interpretation file_list: deny_list acl_step file_word "\<lambda>A. dom (policies A)"
  "deny_set file_deny"
proof unfold_locales
  fix A :: acl_engine and op
  show "dom (policies (acl_step A op)) = dom (policies A)" by (rule dom_acl_step)
next
  fix A :: acl_engine and op k
  assume "file_word op = None"
  then show "deny_set file_deny (acl_step A op) k = deny_set file_deny A k"
    by (cases op; cases "policies A k") (simp_all add: acl_ops deny_set_def)
next
  fix A :: acl_engine and op k n
  assume "file_word op = Some (n, True)" and k: "k \<in> dom (policies A)"
  then show "deny_set file_deny (acl_step A op) k = insert n (deny_set file_deny A k)"
    by (cases op; cases "policies A k") (auto simp: acl_ops deny_set_def)
next
  fix A :: acl_engine and op k n
  assume "file_word op = Some (n, False)" and k: "k \<in> dom (policies A)"
  then show "deny_set file_deny (acl_step A op) k = deny_set file_deny A k - {n}"
    by (cases op; cases "policies A k") (auto simp: acl_ops deny_set_def)
qed

interpretation domain_list: deny_list acl_step domain_word "\<lambda>A. dom (policies A)"
  "deny_set domain_deny"
proof unfold_locales
  fix A :: acl_engine and op
  show "dom (policies (acl_step A op)) = dom (policies A)" by (rule dom_acl_step)
next
  fix A :: acl_engine and op k
  assume "domain_word op = None"
  then show "deny_set domain_deny (acl_step A op) k = deny_set domain_deny A k"
    by (cases op; cases "policies A k") (simp_all add: acl_ops deny_set_def)
next
  fix A :: acl_engine and op k n
  assume "domain_word op = Some (n, True)" and k: "k \<in> dom (policies A)"
  then show "deny_set domain_deny (acl_step A op) k = insert n (deny_set domain_deny A k)"
    by (cases op; cases "policies A k") (auto simp: acl_ops deny_set_def)
next
  fix A :: acl_engine and op k n
  assume "domain_word op = Some (n, False)" and k: "k \<in> dom (policies A)"
  then show "deny_set domain_deny (acl_step A op) k = deny_set domain_deny A k - {n}"
    by (cases op; cases "policies A k") (auto simp: acl_ops deny_set_def)
qed

interpretation process_list: deny_list acl_step process_word "\<lambda>A. dom (policies A)"
  "deny_set process_deny"
proof unfold_locales
  fix A :: acl_engine and op
  show "dom (policies (acl_step A op)) = dom (policies A)" by (rule dom_acl_step)
next
  fix A :: acl_engine and op k
  assume "process_word op = None"
  then show "deny_set process_deny (acl_step A op) k = deny_set process_deny A k"
    by (cases op; cases "policies A k") (simp_all add: acl_ops deny_set_def)
next
  fix A :: acl_engine and op k n
  assume "process_word op = Some (n, True)" and k: "k \<in> dom (policies A)"
  then show "deny_set process_deny (acl_step A op) k = insert n (deny_set process_deny A k)"
    by (cases op; cases "policies A k") (auto simp: acl_ops deny_set_def)
next
  fix A :: acl_engine and op k n
  assume "process_word op = Some (n, False)" and k: "k \<in> dom (policies A)"
  then show "deny_set process_deny (acl_step A op) k = deny_set process_deny A k - {n}"
    by (cases op; cases "policies A k") (auto simp: acl_ops deny_set_def)
qed

section \<open>Facts about the matcher\<close>

definition literal :: "string \<Rightarrow> bool" where
  "literal p = list_all (\<lambda>c. c \<noteq> CHR ''*'' \<and> c \<noteq> CHR ''?'') p"

lemma literal_drop_char: "literal p \<Longrightarrow> literal (drop_char p)"
proof -
  assume "literal p"
  then have "literal (first_char p @ drop_char p)" by (simp only: first_drop_char)
  then show ?thesis by (simp add: literal_def)
qed

lemma eq_by_chars: "s = t \<longleftrightarrow> first_char s = first_char t \<and> drop_char s = drop_char t"
  (is "?L = ?R")
proof
  assume ?R
  then have "first_char s @ drop_char s = first_char t @ drop_char t" by simp
  then show ?L by (simp only: first_drop_char)
qed simp

lemma glob_literal: "literal p \<Longrightarrow> glob_match_inner p s = Some (p = s)"
proof (induction p s rule: glob_match_inner.induct)
  case (1 s)
  then show ?case by auto
next
  case (2 p ps s)
  have p: "p \<noteq> CHR ''*''" "p \<noteq> CHR ''?''" using "2.prems" by (simp_all add: literal_def)
  show ?case
  proof (cases "first_char s = first_char (p # ps)")
    case True
    then have "glob_match_inner (drop_char (p # ps)) (drop_char s)
                 = Some (drop_char (p # ps) = drop_char s)"
      using "2.IH"(7)[OF p] literal_drop_char[OF "2.prems"] by blast
    then show ?thesis
      using p True eq_by_chars[of "p # ps" s]
      by (simp add: glob_eqs)
  next
    case False
    then have "p # ps \<noteq> s" by metis
    then show ?thesis using p False by (simp add: glob_eqs)
  qed
qed

lemma segment_tails_ascii: "is_ascii s \<Longrightarrow> u \<in> set (segment_tails s) \<Longrightarrow> is_ascii u"
  by (induction s) (auto split: if_splits)

lemma segment_tails_head: "u \<in> set (segment_tails s) \<Longrightarrow> \<exists>c cs. u = c # cs \<and> c \<noteq> CHR ''/''"
  by (induction s) (auto split: if_splits)

lemma glob_ascii_total: "is_ascii s \<Longrightarrow> glob_match_inner p s \<noteq> None"
proof (induction p s rule: glob_match_inner.induct)
  case (1 s)
  then show ?case by simp
next
  case (2 p ps s)
  have segs: "is_ascii u" if "u \<in> set (segment_tails s)" for u
    using segment_tails_ascii[OF "2.prems" that] .
  have tails: "\<exists>u. r = Some u \<and> is_ascii u" if "r \<in> set (all_tails s)" for r
    using that "2.prems" by (auto simp: all_tails_def slice_from_ascii is_ascii_drop)
  note IH = "2.IH"
  consider (star0) "p = CHR ''*''" "ps = []"
    | (star2) rest where "p = CHR ''*''" "ps = CHR ''*'' # rest"
    | (star1) q rest where "p = CHR ''*''" "ps = q # rest" "q \<noteq> CHR ''*''"
    | (any1) "p \<noteq> CHR ''*''" "p = CHR ''?''"
    | (lit) "p \<noteq> CHR ''*''" "p \<noteq> CHR ''?''"
    by (cases ps) auto
  then show ?case
  proof cases
    case star0
    have "None \<notin> set (map (glob_match_inner []) (segment_tails s) @ [glob_match_inner [] []])"
      by auto
    from any_opt_total[OF this] show ?thesis
      using star0 by (simp add: glob_eqs)
  next
    case star2
    show ?thesis
    proof (cases "rest = []")
      case True
      then show ?thesis using star2 by (simp add: glob_eqs)
    next
      case False
      have "glob_match_inner rest u \<noteq> None" if "Some u \<in> set (all_tails s)" for u
        using IH(3)[OF star2(1) star2(2) refl False that refl] tails[OF that] by auto
      then have "None \<notin> set (map (\<lambda>t. case t of None \<Rightarrow> None
                                    | Some u \<Rightarrow> glob_match_inner rest u) (all_tails s))"
        using tails by (auto split: option.splits) (metis option.distinct(1))+
      from any_opt_total[OF this] show ?thesis
        using star2 False by (simp add: glob_eqs)
    qed
  next
    case star1
    have "None \<notin> set (map (glob_match_inner (q # rest)) (segment_tails s)
                        @ [glob_match_inner (q # rest) []])"
      using IH(4)[OF star1] IH(5)[OF star1] segs by force
    from any_opt_total[OF this] show ?thesis
      using star1 by (simp add: glob_eqs)
  next
    case any1
    then show ?thesis
      using IH(6)[OF any1] is_ascii_drop_char[OF "2.prems"]
      by (simp add: glob_eqs)
  next
    case lit
    then show ?thesis
      using IH(7)[OF lit] is_ascii_drop_char[OF "2.prems"]
      by (cases "first_char s = first_char (p # ps)") (simp_all add: glob_eqs)
  qed
qed

lemma char_append:
  assumes "u = [] \<or> \<not> is_cont (hd u)"
  shows "drop_char (c # cs @ u) = drop_char (c # cs) @ u"
    and "first_char (c # cs @ u) = first_char (c # cs)"
proof -
  show "drop_char (c # cs @ u) = drop_char (c # cs) @ u"
    using assms by (cases u) (induction cs; simp)+
  then have "first_char (c # cs @ u) @ drop_char (c # cs) @ u
               = first_char (c # cs) @ drop_char (c # cs) @ u"
    by (metis append_Cons append_assoc first_drop_char)
  then show "first_char (c # cs @ u) = first_char (c # cs)" by (simp only: append_same_eq)
qed

lemma glob_prefix_fails:
  "CHR ''*'' \<notin> set p \<Longrightarrow> q \<noteq> [] \<Longrightarrow> \<not> is_cont (hd q)
   \<Longrightarrow> (\<And>s. glob_match_inner q s = Some False) \<Longrightarrow> glob_match_inner (p @ q) s = Some False"
proof (induction "length p" arbitrary: p s rule: less_induct)
  case less
  show ?case
  proof (cases p)
    case Nil
    then show ?thesis using less.prems by simp
  next
    case (Cons c cs)
    have c: "c \<noteq> CHR ''*''" using Cons less.prems by auto
    have split: "drop_char (c # cs @ q) = drop_char (c # cs) @ q"
      using less.prems(3) by (intro char_append) simp
    have shorter: "length (drop_char (c # cs)) < length p"
      using Cons length_dropWhile_le[of is_cont cs] by simp
    have nostar: "CHR ''*'' \<notin> set (drop_char (c # cs))"
      using Cons less.prems(1) by (auto dest: set_dropWhileD)
    show ?thesis
    proof (cases "c = CHR ''?''")
      case True
      then show ?thesis
        using Cons less.hyps[of cs "drop_char s"] less.prems by (simp add: glob_any1)
    next
      case False
      have "glob_match_inner (drop_char (c # cs @ q)) (drop_char s) = Some False"
        unfolding split using less.hyps[OF shorter nostar less.prems(2-4)] .
      then show ?thesis using Cons c False by (simp add: glob_lit)
    qed
  qed
qed

lemma glob_slash_fails:
  "s = [] \<or> hd s \<noteq> CHR ''/'' \<Longrightarrow> glob_match_inner (CHR ''/'' # rest) s = Some False"
  by (cases s) (simp_all add: glob_lit)

lemma glob_star_slash: "glob_match_inner (CHR ''*'' # CHR ''/'' # rest) s = Some False"
proof -
  have "list_all (\<lambda>r. r = Some False)
     (map (glob_match_inner (CHR ''/'' # rest)) (segment_tails s)
      @ [glob_match_inner (CHR ''/'' # rest) []])"
    using segment_tails_head[of _ s] by (fastforce simp: list_all_iff glob_slash_fails)
  moreover have q: "CHR ''/'' \<noteq> CHR ''*''" by simp
  ultimately show ?thesis unfolding glob_star1[OF q] any_opt_False by blast
qed

lemma glob_literal_prefix:
  "literal p \<Longrightarrow> q = [] \<or> \<not> is_cont (hd q) \<Longrightarrow> t = [] \<or> \<not> is_cont (hd t)
   \<Longrightarrow> glob_match_inner (p @ q) (p @ t) = glob_match_inner q t"
proof (induction "length p" arbitrary: p rule: less_induct)
  case less
  show ?case
  proof (cases p)
    case (Cons c cs)
    have c: "c \<noteq> CHR ''*''" "c \<noteq> CHR ''?''" using Cons less.prems by (auto simp: literal_def)
    note split = char_append
    have shorter: "length (drop_char (c # cs)) < length p"
      using Cons length_dropWhile_le[of is_cont cs] by simp
    have "glob_match_inner (drop_char (c # cs) @ q) (drop_char (c # cs) @ t) = glob_match_inner q t"
      using Cons less.prems by (intro less.hyps[OF shorter] literal_drop_char) auto
    then show ?thesis
      using Cons c split[OF less.prems(2)] split[OF less.prems(3)]
      by (simp only: append_Cons glob_lit[OF c]) simp
  qed simp
qed

lemma trailing_star_any: "glob_match_inner ''*'' t = Some True"
proof -
  have "None \<notin> set (map (glob_match_inner []) (segment_tails t) @ [glob_match_inner [] []])"
    by auto
  from any_opt_total[OF this] show ?thesis by (simp add: glob_star0)
qed

section \<open>Properties\<close>

text \<open>
  A single star directly in front of a slash matches nothing at all: a pattern of the form
  \<open>p*/rest\<close>, with no other star in \<open>p\<close>, rejects every path, so a deny rule such as
  \<open>/home/*/.ssh/id_rsa\<close> never denies and an allow rule of that form never allows.
\<close>
theorem star_before_slash_matches_nothing:
  "CHR ''*'' \<notin> set p \<Longrightarrow> glob_match_inner (p @ ''*/'' @ rest) path = Some False"
  by (rule glob_prefix_fails) (simp_all add: is_cont_def byte_def glob_star_slash)

theorem star_before_slash_matches_nothing_witness:
  "glob_match_inner ''/home/*/.ssh/id_rsa'' ''/home/u/.ssh/id_rsa'' = Some False"
  using star_before_slash_matches_nothing[of "''/home/''" "''.ssh/id_rsa''" "''/home/u/.ssh/id_rsa''"]
  by simp

text \<open>
  A single star at the end of a literal prefix matches everything below the prefix, slashes
  included (the comment says it stays within a path segment).
\<close>
theorem trailing_star_crosses_segments:
  "literal p \<Longrightarrow> t = [] \<or> \<not> is_cont (hd t) \<Longrightarrow> glob_match_inner (p @ ''*'') (p @ t) = Some True"
  by (simp add: glob_literal_prefix is_cont_def byte_def trailing_star_any)

theorem trailing_star_crosses_segments_witness:
  "glob_match_inner ''/tmp/*'' ''/tmp/a/b'' = Some True"
  using trailing_star_crosses_segments[of "''/tmp/''" "''a/b''"]
  by (simp add: literal_def is_cont_def byte_def)

text \<open>
  Matching an ASCII path never panics, whatever the pattern; with a character of two bytes in
  the path the double star slices inside it and panics.
\<close>
theorem glob_panics_only_off_ascii:
  "(is_ascii path \<longrightarrow> glob_match_inner pat path \<noteq> None)
   \<and> glob_match_inner ''**/key'' [CHR ''a'', CHR 0xC3, CHR 0xA9] = None"
proof -
  have "glob_match_inner ''**/key'' [CHR ''a'', CHR 0xC3, CHR 0xA9] = None"
    by code_simp
  then show ?thesis using glob_ascii_total by blast
qed

theorem glob_panics_only_off_ascii_witness:
  "is_ascii ''/etc/passwd'' \<and> glob_match_inner ''**/key'' ''/etc/passwd'' \<noteq> None"
  using glob_panics_only_off_ascii[of "''/etc/passwd''" "''**/key''"]
  by (simp add: byte_def)

text \<open>
  The default-deny switch has no influence on any decision: turning enforcement on or off
  changes no answer, and an event of a skill without a policy is allowed in both modes.
\<close>
theorem default_deny_changes_no_decision:
  "evaluate home (set_default_deny d A) ev = evaluate home A ev
   \<and> evaluate home (acl_new d) ev = Some Allow"
  by (simp add: evaluate_def set_default_deny_def acl_new_def)

definition word_for :: "event_kind \<Rightarrow> acl_op \<Rightarrow> (string \<times> bool) option" where
  "word_for k =
     (if k \<in> {FileOpen, FileCreate, FileWrite, FileDelete, FileRename} then file_word
      else if k \<in> {NetworkConnect, NetworkSend, NetworkRecv, DnsQuery} then domain_word
      else if k \<in> {ProcessExec, ProcessFork} then process_word
      else (\<lambda>_. None))"

lemma last_word_silent: "last_word (\<lambda>_. None) ops n = None"
  by (simp add: last_word_def) (induction ops; simp)

lemma expand_home_plain: "s = [] \<or> hd s \<noteq> CHR ''~'' \<Longrightarrow> expand_home home s = s"
  by (cases s) (auto simp: expand_home_def split: option.splits)

lemma deny_hit:
  assumes "literal t" "is_ascii t" "t = [] \<or> hd t \<noteq> CHR ''~''" "t \<in> set deny"
  shows "deny_then_allow home deny r allow r' t = Some (Block r)"
proof -
  let ?rs = "map (\<lambda>p. glob_match home p t) deny"
  have "glob_match home p t \<noteq> None" for p
    unfolding glob_match_def expand_home_plain[OF assms(3)] by (rule glob_ascii_total[OF assms(2)])
  then have "None \<notin> set ?rs" by (metis ex_map_conv)
  moreover have "glob_match home t t = Some True"
    using assms by (simp add: glob_match_def expand_home_plain glob_literal)
  then have "Some True \<in> set ?rs" using assms(4) by (metis image_eqI set_map)
  ultimately have "glob_match_any home deny t = Some True"
    using any_opt_total[of ?rs] by (simp add: glob_match_any_def)
  then show ?thesis by (simp add: deny_then_allow_def)
qed

text \<open>
  C13. After any history of operator operations on all three lists, in any order, the last word said
  about a plain name decides: if it was a block of the kind the event is judged by, every event of
  a loaded skill with that target is refused, whatever else its policy allows.
\<close>
theorem last_operator_word_refuses:
  assumes "policies A (ev_process ev) \<noteq> None"
    and "literal (ev_target ev)" "is_ascii (ev_target ev)"
    and "ev_target ev = [] \<or> hd (ev_target ev) \<noteq> CHR ''~''"
    and "last_word (word_for (ev_kind ev)) ops (ev_target ev) = Some True"
  shows "\<exists>r. evaluate home (foldl acl_step A ops) ev = Some (Block r)"
proof -
  let ?A = "foldl acl_step A ops" and ?k = "ev_process ev" and ?t = "ev_target ev"
  have k: "?k \<in> dom (policies A)" using assms(1) by auto
  then obtain p where p: "policies ?A ?k = Some p"
    using file_list.owners_run[of A ops] by auto
  note hit = deny_hit[OF assms(2) assms(3) assms(4)]
  consider "ev_kind ev \<in> {FileOpen, FileCreate, FileWrite, FileDelete, FileRename}"
    | "ev_kind ev \<in> {NetworkConnect, NetworkSend, NetworkRecv, DnsQuery}"
    | "ev_kind ev \<in> {ProcessExec, ProcessFork}"
    using assms(5) by (auto simp: word_for_def last_word_silent split: if_splits)
  then show ?thesis
  proof cases
    case 1
    then have "?t \<in> deny_set file_deny ?A ?k"
      using file_list.last_word_decides[OF k, of ?t ops] assms(5) by (auto simp: word_for_def)
    then show ?thesis
      using 1 p hit by (auto simp: deny_set_def evaluate_def evaluate_file_def Let_def)
  next
    case 2
    then have "?t \<in> deny_set domain_deny ?A ?k"
      using domain_list.last_word_decides[OF k, of ?t ops] assms(5) by (auto simp: word_for_def)
    then show ?thesis
      using 2 p hit by (auto simp: deny_set_def evaluate_def evaluate_network_def Let_def)
  next
    case 3
    then have "?t \<in> deny_set process_deny ?A ?k"
      using process_list.last_word_decides[OF k, of ?t ops] assms(5) by (auto simp: word_for_def)
    then show ?thesis
      using 3 p hit by (auto simp: deny_set_def evaluate_def evaluate_process_def Let_def)
  qed
qed

definition one_skill :: acl_engine where
  "one_skill = add_policy \<lparr>skill = ''claude'', author = None,
     files = \<lparr>files_read = [], files_write = [], files_deny = []\<rparr>,
     network = \<lparr>net_allow = [], net_deny = []\<rparr>,
     proc = \<lparr>proc_spawn = [], proc_deny = []\<rparr>\<rparr> (acl_new True)"

theorem last_operator_word_refuses_witness:
  "\<exists>r. evaluate None (foldl acl_step one_skill
        [BlockProcess ''nc'', UnblockFile ''/etc/shadow'', UnblockProcess ''nc'',
         BlockProcess ''nc'', BlockFile ''/etc/shadow''])
      (blank_event\<lparr>ev_kind := ProcessExec, ev_process := ''claude'', ev_target := ''nc''\<rparr>)
    = Some (Block r)"
  by (rule last_operator_word_refuses)
    (simp_all add: one_skill_def add_policy_def acl_new_def blank_event_def literal_def byte_def
      word_for_def last_word_def)

text \<open>
  A successful load never leaves default-deny on with no policy, and a failing one reports the
  first file that could not be read.
\<close>
lemma load_keeps_failsafe:
  "case load_dir fs A of
     (Inr _, A') \<Rightarrow> \<not> (default_deny A' \<and> policies A' = Map.empty)
       \<and> list_all (\<lambda>f. \<forall>e. f \<noteq> Unreadable e) fs
   | (Inl e, A') \<Rightarrow> default_deny A' = default_deny A \<and> Unreadable e \<in> set fs"
proof -
  have inv: "case load_files fs A of
     (Inr _, A') \<Rightarrow> list_all (\<lambda>f. \<forall>e. f \<noteq> Unreadable e) fs
   | (Inl e, A') \<Rightarrow> default_deny A' = default_deny A \<and> Unreadable e \<in> set fs"
    by (induction fs A rule: load_files.induct)
      (auto simp: add_policy_def split: policy_file.split sum.splits prod.splits)
  show ?thesis
    using inv by (auto simp: load_dir_def split: sum.splits prod.splits)
qed

end
