(* ===== verification/Sled.thy ===== *)
theory Sled
  imports Values "HOL-Library.List_Lexorder" "HOL-Library.Char_ord"
begin

text \<open>
  The embedded store (sled) as the components use it: a tree is a list of key-value pairs in key
  order. Byte-string keys order lexicographically by byte, as the strings of the model do. Beside
  the tree's own laws the theory states the contract the stores rest on, a map under writes and
  removals, and proves once that the last operation on a key decides what is read from it.
\<close>

section \<open>Operations\<close>

text \<open>Insertion in key order; an existing key is overwritten, as in sled.\<close>

fun db_insert :: "'k::linorder \<Rightarrow> 'v \<Rightarrow> ('k \<times> 'v) list \<Rightarrow> ('k \<times> 'v) list" where
  "db_insert k v [] = [(k, v)]"
| "db_insert k v ((k', v') # d) =
     (if k < k' then (k, v) # (k', v') # d
      else if k = k' then (k, v) # d
      else (k', v') # db_insert k v d)"

definition db_remove :: "'k \<Rightarrow> ('k \<times> 'v) list \<Rightarrow> ('k \<times> 'v) list" where
  "db_remove k d = filter (\<lambda>(k', _). k' \<noteq> k) d"

section \<open>The tree as an ordered map\<close>

definition keys :: "('k \<times> 'v) list \<Rightarrow> 'k set" where
  "keys d = fst ` set d"

definition key_ordered :: "('k::linorder \<times> 'v) list \<Rightarrow> bool" where
  "key_ordered d = sorted_wrt (<) (map fst d)"

lemma keys_Nil [simp]: "keys [] = {}"
  by (simp add: keys_def)

lemma keys_Cons [simp]: "keys (x # d) = insert (fst x) (keys d)"
  by (simp add: keys_def)

lemma keys_append [simp]: "keys (d @ d') = keys d \<union> keys d'"
  by (auto simp: keys_def)

lemma keys_map_of: "k \<in> keys d \<longleftrightarrow> map_of d k \<noteq> None"
  by (simp add: keys_def map_of_eq_None_iff)

lemma key_ordered_simps [simp]:
  "key_ordered []"
  "key_ordered (x # d) \<longleftrightarrow> (\<forall>k \<in> keys d. fst x < k) \<and> key_ordered d"
  by (auto simp: key_ordered_def keys_def)

lemma key_ordered_append:
  "key_ordered (d @ d') \<longleftrightarrow> key_ordered d \<and> key_ordered d' \<and> (\<forall>k \<in> keys d. \<forall>k' \<in> keys d'. k < k')"
  by (induction d) auto

lemma key_ordered_distinct: "key_ordered d \<Longrightarrow> distinct (map fst d)"
  unfolding key_ordered_def by (induction "map fst d" arbitrary: d) (auto simp: sorted_wrt_append)

lemma keys_insert [simp]: "keys (db_insert k v d) = insert k (keys d)"
  by (induction k v d rule: db_insert.induct) auto

lemma set_insert_subset: "set (db_insert k v d) \<subseteq> insert (k, v) (set d)"
  by (induction k v d rule: db_insert.induct) auto

lemma key_ordered_insert: "key_ordered d \<Longrightarrow> key_ordered (db_insert k v d)"
  by (induction k v d rule: db_insert.induct) auto

lemma map_of_insert: "key_ordered d \<Longrightarrow> map_of (db_insert k v d) = (map_of d)(k \<mapsto> v)"
  by (induction k v d rule: db_insert.induct)
    (auto simp: fun_eq_iff map_of_eq_None_iff keys_def)

lemma insert_at_end: "\<forall>k' \<in> keys d. k' < k \<Longrightarrow> db_insert k v d = d @ [(k, v)]"
  by (induction k v d rule: db_insert.induct) auto

lemma insert_at_front: "\<forall>k' \<in> keys d. k < k' \<Longrightarrow> db_insert k v d = (k, v) # d"
  by (cases d) auto

lemma keys_remove [simp]: "keys (db_remove k d) = keys d - {k}"
  by (force simp: keys_def db_remove_def)

lemma key_ordered_remove: "key_ordered d \<Longrightarrow> key_ordered (db_remove k d)"
  by (induction d) (auto simp: db_remove_def keys_def)

lemma map_of_remove: "map_of (db_remove k d) = (map_of d)(k := None)"
  by (induction d) (auto simp: db_remove_def fun_eq_iff)

section \<open>The contract of a store\<close>

datatype ('k, 'v) store_op = Put 'k 'v | Del 'k

text \<open>What the last write to a key says about it.\<close>

fun written :: "'k \<Rightarrow> ('k, 'v) store_op \<Rightarrow> 'v option \<Rightarrow> 'v option" where
  "written k (Put k' v) x = (if k' = k then Some v else x)"
| "written k (Del k') x = (if k' = k then None else x)"

fun apply_op ::
  "('k \<Rightarrow> 'v \<Rightarrow> 's \<Rightarrow> 's) \<Rightarrow> ('k \<Rightarrow> 's \<Rightarrow> 's) \<Rightarrow> 's \<Rightarrow> ('k, 'v) store_op \<Rightarrow> 's" where
  "apply_op put del s (Put k v) = put k v s"
| "apply_op put del s (Del k) = del k s"

locale store =
  fixes put :: "'k \<Rightarrow> 'v \<Rightarrow> 's \<Rightarrow> 's"
    and del :: "'k \<Rightarrow> 's \<Rightarrow> 's"
    and look :: "'s \<Rightarrow> 'k \<Rightarrow> 'v option"
    and good :: "'s \<Rightarrow> bool"
  assumes good_put: "good s \<Longrightarrow> good (put k v s)"
    and good_del: "good s \<Longrightarrow> good (del k s)"
    and look_put: "good s \<Longrightarrow> look (put k v s) k' = (if k' = k then Some v else look s k')"
    and look_del: "good s \<Longrightarrow> look (del k s) k' = (if k' = k then None else look s k')"
begin

lemma good_run: "good s \<Longrightarrow> good (foldl (apply_op put del) s ws)"
proof (induction ws arbitrary: s)
  case (Cons w ws)
  then show ?case by (cases w) (simp_all add: good_put good_del)
qed simp

lemma last_write_read:
  "good s \<Longrightarrow> look (foldl (apply_op put del) s ws) k = fold (written k) ws (look s k)"
proof (induction ws arbitrary: s)
  case (Cons w ws)
  then show ?case by (cases w) (simp_all add: good_put good_del look_put look_del)
qed simp

end

interpretation sled: store db_insert db_remove map_of key_ordered
  by unfold_locales (auto simp: key_ordered_insert key_ordered_remove map_of_insert map_of_remove)

end
