(* ===== verification/AuditLog.thy ===== *)
theory AuditLog
  imports Sled
begin

text \<open>
  agent/src/audit/log.rs: the append-only, hash-chained audit log. SHA-256 (with its hex printing),
  the RFC 3339 printer and the JSON printer are arguments (record \<open>audit_libs\<close>). The sled tree is a
  list of records ordered by its big-endian key, which orders as the sequence number does; a
  record is either a readable entry or bytes that do not decode, and a read may fail.
\<close>

section \<open>Entries and their hash\<close>

datatype audit_entry_type =
    SecurityEvent | ThreatDetected | PolicyChange | ConfigChange | DaemonStart | DaemonStop
  | AccessGranted | AccessDenied | EscalationRequested | EscalationResolved

fun entry_type_str :: "audit_entry_type \<Rightarrow> string" where
  "entry_type_str SecurityEvent = ''security_event''"
| "entry_type_str ThreatDetected = ''threat_detected''"
| "entry_type_str PolicyChange = ''policy_change''"
| "entry_type_str ConfigChange = ''config_change''"
| "entry_type_str DaemonStart = ''daemon_start''"
| "entry_type_str DaemonStop = ''daemon_stop''"
| "entry_type_str AccessGranted = ''access_granted''"
| "entry_type_str AccessDenied = ''access_denied''"
| "entry_type_str EscalationRequested = ''escalation_requested''"
| "entry_type_str EscalationResolved = ''escalation_resolved''"

record audit_entry =
  ae_seq :: nat
  ae_timestamp :: int
  ae_type :: audit_entry_type
  ae_payload :: json
  ae_prev_hash :: string
  ae_hash :: string

record audit_libs =
  sha256_hex :: "string \<Rightarrow> string"
  rfc3339 :: "int \<Rightarrow> string"
  payload_text :: "json \<Rightarrow> string"

definition hash_input :: "nat \<Rightarrow> string \<Rightarrow> string \<Rightarrow> string \<Rightarrow> string \<Rightarrow> string" where
  "hash_input seq ts ty pay prev =
     show_nat seq @ ''|'' @ ts @ ''|'' @ ty @ ''|'' @ pay @ ''|'' @ prev"

definition compute_hash :: "audit_libs \<Rightarrow> nat \<Rightarrow> string \<Rightarrow> string \<Rightarrow> string \<Rightarrow> string \<Rightarrow> string" where
  "compute_hash A seq ts ty pay prev = sha256_hex A (hash_input seq ts ty pay prev)"

definition entry_digest :: "audit_libs \<Rightarrow> audit_entry \<Rightarrow> string" where
  "entry_digest A e =
     compute_hash A (ae_seq e) (rfc3339 A (ae_timestamp e)) (entry_type_str (ae_type e))
       (payload_text A (ae_payload e)) (ae_prev_hash e)"

section \<open>The store\<close>

text \<open>A stored value: an entry, bytes that do not decode, or a key that cannot be read.\<close>

datatype raw = Entry audit_entry | Garbage | ReadError

type_synonym db = "(nat \<times> raw) list"

record audit_log =
  al_db :: db
  al_seq :: nat
  al_last_hash :: string

datatype audit_error = DbError | BadLastEntry | MutexPoisoned | WriteFailed

section \<open>Opening\<close>

definition recover_state :: "db \<Rightarrow> audit_error + nat \<times> string" where
  "recover_state d =
     (if d = [] then Inr (0, [])
      else case snd (last d) of
             ReadError \<Rightarrow> Inl DbError
           | Garbage \<Rightarrow> Inl BadLastEntry
           | Entry e \<Rightarrow> Inr (ae_seq e + 1, ae_hash e))"

definition open_log :: "db \<Rightarrow> audit_error + audit_log" where
  "open_log d =
     (case recover_state d of
        Inl e \<Rightarrow> Inl e
      | Inr (n, h) \<Rightarrow> Inr \<lparr>al_db = d, al_seq = n, al_last_hash = h\<rparr>)"

section \<open>Appending\<close>

text \<open>
  The append takes no lock over its whole body. Its steps, as another thread can see them: claim
  a sequence number, snapshot the last hash, then hash and write the record, then publish the hash.
  What an append has read so far is its own local state.
\<close>

definition claim_seq :: "audit_log \<Rightarrow> nat \<times> audit_log" where
  "claim_seq s = (al_seq s, s\<lparr>al_seq := al_seq s + 1\<rparr>)"

definition snapshot_hash :: "audit_log \<Rightarrow> string" where
  "snapshot_hash s = al_last_hash s"

definition build_entry ::
  "audit_libs \<Rightarrow> nat \<Rightarrow> int \<Rightarrow> audit_entry_type \<Rightarrow> json \<Rightarrow> string \<Rightarrow> audit_entry" where
  "build_entry A seq ts ty pay prev =
     \<lparr>ae_seq = seq, ae_timestamp = ts, ae_type = ty, ae_payload = pay, ae_prev_hash = prev,
      ae_hash = compute_hash A seq (rfc3339 A ts) (entry_type_str ty) (payload_text A pay) prev\<rparr>"

definition write_entry :: "audit_entry \<Rightarrow> audit_log \<Rightarrow> audit_log" where
  "write_entry e s = s\<lparr>al_db := db_insert (ae_seq e) (Entry e) (al_db s)\<rparr>"

definition publish_hash :: "audit_entry \<Rightarrow> audit_log \<Rightarrow> audit_log" where
  "publish_hash e s = s\<lparr>al_last_hash := ae_hash e\<rparr>"

text \<open>
  One append run to its end by a single thread. \<open>write_ok\<close> says whether sled accepted the write;
  when it did not, the sequence number stays claimed and nothing else has changed.
\<close>

definition append_entry ::
  "audit_libs \<Rightarrow> bool \<Rightarrow> int \<Rightarrow> audit_entry_type \<Rightarrow> json \<Rightarrow> audit_log
     \<Rightarrow> (audit_error + audit_entry) \<times> audit_log" where
  "append_entry A write_ok now ty pay s =
     (let (seq, s1) = claim_seq s;
          prev = snapshot_hash s1;
          e = build_entry A seq now ty pay prev
      in if write_ok then (Inr e, publish_hash e (write_entry e s1)) else (Inl WriteFailed, s1))"

definition try_append ::
  "audit_libs \<Rightarrow> bool \<Rightarrow> int \<Rightarrow> audit_entry_type \<Rightarrow> json \<Rightarrow> audit_log \<Rightarrow> audit_log" where
  "try_append A write_ok now ty pay s = snd (append_entry A write_ok now ty pay s)"

section \<open>Reading\<close>

fun verify_from :: "audit_libs \<Rightarrow> string \<Rightarrow> db \<Rightarrow> bool \<times> nat option" where
  "verify_from A prev [] = (True, None)"
| "verify_from A prev ((k, r) # d) =
     (case r of
        ReadError \<Rightarrow> (False, None)
      | Garbage \<Rightarrow> (False, None)
      | Entry e \<Rightarrow>
          if ae_prev_hash e \<noteq> prev then (False, Some (ae_seq e))
          else if entry_digest A e \<noteq> ae_hash e then (False, Some (ae_seq e))
          else verify_from A (ae_hash e) d)"

definition verify_chain :: "audit_libs \<Rightarrow> audit_log \<Rightarrow> bool \<times> nat option" where
  "verify_chain A s = verify_from A [] (al_db s)"

definition raw_entry :: "raw \<Rightarrow> audit_entry option" where
  "raw_entry r = (case r of Entry e \<Rightarrow> Some e | _ \<Rightarrow> None)"

definition recent :: "nat \<Rightarrow> audit_log \<Rightarrow> audit_entry list" where
  "recent limit s = List.map_filter raw_entry (map snd (take limit (rev (al_db s))))"

definition get_entry :: "nat \<Rightarrow> audit_log \<Rightarrow> audit_entry option" where
  "get_entry seq s = Option.bind (map_of (al_db s) seq) raw_entry"


section \<open>The chain\<close>

fun linked :: "audit_libs \<Rightarrow> string \<Rightarrow> db \<Rightarrow> string \<Rightarrow> bool" where
  "linked A prev [] h = (prev = h)"
| "linked A prev ((k, r) # d) h =
     (case r of
        Entry e \<Rightarrow> k = ae_seq e \<and> ae_prev_hash e = prev \<and> entry_digest A e = ae_hash e
                   \<and> linked A (ae_hash e) d h
      | _ \<Rightarrow> False)"

lemma linked_verify: "linked A prev d h \<Longrightarrow> verify_from A prev d = (True, None)"
  by (induction A prev d arbitrary: h rule: verify_from.induct) (auto split: raw.splits)

lemma linked_append:
  "linked A prev (d @ d') h \<longleftrightarrow> (\<exists>m. linked A prev d m \<and> linked A m d' h)"
  by (induction A prev d h rule: linked.induct) (auto split: raw.splits)

lemma linked_last:
  "linked A prev d h \<Longrightarrow> d \<noteq> [] \<Longrightarrow> \<exists>e. last d = (ae_seq e, Entry e) \<and> ae_hash e = h"
proof (induction d rule: rev_induct)
  case (snoc x d)
  then show ?case by (cases x; cases "snd x") (auto simp: linked_append)
qed simp

lemma build_entry_simps [simp]:
  "ae_seq (build_entry A n ts ty pay prev) = n"
  "ae_prev_hash (build_entry A n ts ty pay prev) = prev"
  "entry_digest A (build_entry A n ts ty pay prev) = ae_hash (build_entry A n ts ty pay prev)"
  by (simp_all add: build_entry_def entry_digest_def)

text \<open>What holds of a log between appends of a single thread.\<close>

definition chain_ok :: "audit_libs \<Rightarrow> audit_log \<Rightarrow> bool" where
  "chain_ok A s =
     (linked A [] (al_db s) (al_last_hash s) \<and> key_ordered (al_db s)
      \<and> (\<forall>k \<in> keys (al_db s). k < al_seq s))"

lemma chain_ok_append:
  assumes "chain_ok A s"
  shows "chain_ok A (try_append A ok now ty pay s)"
proof (cases ok)
  case True
  let ?e = "build_entry A (al_seq s) now ty pay (al_last_hash s)"
  have "db_insert (al_seq s) (Entry ?e) (al_db s) = al_db s @ [(al_seq s, Entry ?e)]"
    using assms by (intro insert_at_end) (auto simp: chain_ok_def)
  then have "try_append A ok now ty pay s
      = s\<lparr>al_seq := al_seq s + 1, al_db := al_db s @ [(al_seq s, Entry ?e)], al_last_hash := ae_hash ?e\<rparr>"
    using True by (simp add: try_append_def append_entry_def claim_seq_def snapshot_hash_def
        write_entry_def publish_hash_def Let_def)
  with assms show ?thesis
    by (auto simp: chain_ok_def linked_append key_ordered_append less_Suc_eq)
next
  case False
  with assms show ?thesis
    by (auto simp: chain_ok_def try_append_def append_entry_def claim_seq_def Let_def less_Suc_eq)
qed

lemma key_ordered_last_max:
  "key_ordered d \<Longrightarrow> d \<noteq> [] \<Longrightarrow> k \<in> keys d \<Longrightarrow> k \<le> fst (last d)"
proof (induction d)
  case (Cons x d)
  show ?case
  proof (cases "d = []")
    case True
    with Cons.prems show ?thesis by simp
  next
    case False
    then have "fst (last d) \<in> keys d" by (simp add: keys_def)
    with Cons False show ?thesis by (auto intro: less_imp_le)
  qed
qed simp

lemma chain_ok_reopen:
  assumes "chain_ok A s"
  shows "\<exists>s'. open_log (al_db s) = Inr s' \<and> chain_ok A s' \<and> al_db s' = al_db s
           \<and> al_last_hash s' = al_last_hash s \<and> al_seq s' \<le> al_seq s"
proof (cases "al_db s = []")
  case True
  with assms show ?thesis
    by (simp add: open_log_def recover_state_def chain_ok_def)
next
  case False
  with assms obtain e where e: "last (al_db s) = (ae_seq e, Entry e)" "ae_hash e = al_last_hash s"
    using linked_last[of A "[]" "al_db s"] by (auto simp: chain_ok_def)
  have "\<forall>k \<in> keys (al_db s). k \<le> ae_seq e"
    using key_ordered_last_max[of "al_db s"] assms False e by (auto simp: chain_ok_def)
  moreover have "ae_seq e \<in> keys (al_db s)"
    using last_in_set[OF False] e by (force simp: keys_def)
  ultimately show ?thesis
    using assms False e by (force simp: open_log_def recover_state_def chain_ok_def)
qed

text \<open>The operations of a single-threaded life of the log: appends that may fail, and restarts.\<close>

datatype audit_op = Append bool int audit_entry_type json | Restart

fun audit_step :: "audit_libs \<Rightarrow> audit_log \<Rightarrow> audit_op \<Rightarrow> audit_log" where
  "audit_step A s (Append ok now ty pay) = try_append A ok now ty pay s"
| "audit_step A s Restart = (case open_log (al_db s) of Inr s' \<Rightarrow> s' | Inl _ \<Rightarrow> s)"

interpretation audit: invariant_system "audit_step A" "chain_ok A"
proof
  fix s e
  assume "chain_ok A s"
  then show "chain_ok A (audit_step A s e)"
    using chain_ok_append[of A s] chain_ok_reopen[of A s] by (cases e) auto
qed

definition empty_log :: audit_log where
  "empty_log = \<lparr>al_db = [], al_seq = 0, al_last_hash = []\<rparr>"

lemma empty_log_ok: "open_log [] = Inr empty_log \<and> chain_ok A empty_log"
  by (simp add: open_log_def recover_state_def empty_log_def chain_ok_def)

section \<open>Properties\<close>



section \<open>Concurrent appends\<close>

text \<open>
  The append holds its mutex only while it copies the last hash and again while it stores the new
  one, so two threads can interleave between its steps. A thread's local state is what it has
  computed so far.
\<close>

datatype local_state =
    Idle
  | Claimed nat
  | Built audit_entry
  | Stored audit_entry

record conc =
  shared :: audit_log
  locals :: "nat \<Rightarrow> local_state"

inductive astep :: "audit_libs \<Rightarrow> conc \<Rightarrow> conc \<Rightarrow> bool" for A where
  claim: "locals c t = Idle \<Longrightarrow>
    astep A c (c\<lparr>shared := snd (claim_seq (shared c)),
                locals := (locals c)(t := Claimed (fst (claim_seq (shared c))))\<rparr>)"
| build: "locals c t = Claimed n \<Longrightarrow>
    astep A c (c\<lparr>locals := (locals c)(t := Built (build_entry A n now ty pay (snapshot_hash (shared c))))\<rparr>)"
| store: "locals c t = Built e \<Longrightarrow>
    astep A c (c\<lparr>shared := write_entry e (shared c), locals := (locals c)(t := Stored e)\<rparr>)"
| store_fails: "locals c t = Built e \<Longrightarrow> astep A c (c\<lparr>locals := (locals c)(t := Idle)\<rparr>)"
| publish: "locals c t = Stored e \<Longrightarrow>
    astep A c (c\<lparr>shared := publish_hash e (shared c), locals := (locals c)(t := Idle)\<rparr>)"

inductive areach :: "audit_libs \<Rightarrow> conc \<Rightarrow> conc \<Rightarrow> bool" for A c where
  start: "areach A c c"
| more: "areach A c c' \<Longrightarrow> astep A c' c'' \<Longrightarrow> areach A c c''"

inductive_cases astepE: "astep A c c'"

text \<open>The sequence number a thread owns and has not stored under yet.\<close>

fun pending :: "local_state \<Rightarrow> nat option" where
  "pending (Claimed n) = Some n"
| "pending (Built e) = Some (ae_seq e)"
| "pending _ = None"

definition own_hash_ok :: "audit_libs \<Rightarrow> audit_entry \<Rightarrow> bool" where
  "own_hash_ok A e = (entry_digest A e = ae_hash e)"

definition stored_ok :: "audit_libs \<Rightarrow> audit_log \<Rightarrow> bool" where
  "stored_ok A s =
     (key_ordered (al_db s)
      \<and> (\<forall>(k, r) \<in> set (al_db s). k < al_seq s \<and> (\<exists>e. r = Entry e \<and> ae_seq e = k \<and> own_hash_ok A e)))"

definition threads_ok :: "audit_libs \<Rightarrow> conc \<Rightarrow> bool" where
  "threads_ok A c =
     (\<forall>t. (\<forall>n. pending (locals c t) = Some n \<longrightarrow>
             n < al_seq (shared c) \<and> n \<notin> keys (al_db (shared c))
             \<and> (\<forall>u. u \<noteq> t \<longrightarrow> pending (locals c u) \<noteq> Some n))
          \<and> (\<forall>e. locals c t = Built e \<longrightarrow> own_hash_ok A e))"

definition conc_ok :: "audit_libs \<Rightarrow> conc \<Rightarrow> bool" where
  "conc_ok A c = (stored_ok A (shared c) \<and> threads_ok A c)"

lemma threads_ok_pending:
  "threads_ok A c \<Longrightarrow> pending (locals c t) = Some n \<Longrightarrow>
     n < al_seq (shared c) \<and> n \<notin> keys (al_db (shared c))
     \<and> (\<forall>u. u \<noteq> t \<longrightarrow> pending (locals c u) \<noteq> Some n)"
  unfolding threads_ok_def by blast

lemma threads_ok_built: "threads_ok A c \<Longrightarrow> locals c t = Built e \<Longrightarrow> own_hash_ok A e"
  unfolding threads_ok_def by blast

lemma threads_ok_local:
  assumes "threads_ok A c"
    and "pending l = None \<or> pending l = pending (locals c t)"
    and "\<And>e. l = Built e \<Longrightarrow> own_hash_ok A e"
  shows "threads_ok A (c\<lparr>locals := (locals c)(t := l)\<rparr>)"
  unfolding threads_ok_def
proof (intro allI conjI impI)
  fix u n
  assume p: "pending (locals (c\<lparr>locals := (locals c)(t := l)\<rparr>) u) = Some n"
  then have p': "pending (locals c u) = Some n"
    using assms(2) by (cases "u = t") auto
  note * = threads_ok_pending[OF assms(1) p']
  show "n < al_seq (shared (c\<lparr>locals := (locals c)(t := l)\<rparr>))" using * by simp
  show "n \<notin> keys (al_db (shared (c\<lparr>locals := (locals c)(t := l)\<rparr>)))" using * by simp
  fix v
  assume "v \<noteq> u"
  with * have "pending (locals c v) \<noteq> Some n" by blast
  then show "pending (locals (c\<lparr>locals := (locals c)(t := l)\<rparr>) v) \<noteq> Some n"
    using assms(2) by (cases "v = t") auto
next
  fix u e
  assume "locals (c\<lparr>locals := (locals c)(t := l)\<rparr>) u = Built e"
  then show "own_hash_ok A e"
    using assms(3) threads_ok_built[OF assms(1)] by (cases "u = t") auto
qed

lemma stored_ok_keys: "stored_ok A s \<Longrightarrow> k \<in> keys (al_db s) \<Longrightarrow> k < al_seq s"
  by (auto simp: stored_ok_def keys_def)

lemma stored_ok_write:
  assumes "stored_ok A s" and "ae_seq e < al_seq s" and "own_hash_ok A e"
  shows "stored_ok A (write_entry e s)"
  using assms set_insert_subset[of "ae_seq e" "Entry e" "al_db s"]
  by (auto simp: stored_ok_def write_entry_def key_ordered_insert)

lemma astep_conc_ok:
  assumes "astep A c c'" and "conc_ok A c"
  shows "conc_ok A c'"
  using assms
proof (cases rule: astep.cases)
  case (claim t)
  with assms(2) show ?thesis
    using stored_ok_keys[of A "shared c"]
    by (force simp: conc_ok_def claim_seq_def stored_ok_def threads_ok_def)
next
  case (build t n now ty pay)
  have "threads_ok A c'"
    unfolding build(1) using assms(2) build(2)
    by (intro threads_ok_local) (auto simp: conc_ok_def own_hash_ok_def)
  with build assms(2) show ?thesis by (simp add: conc_ok_def)
next
  case (store t e)
  then have "stored_ok A (write_entry e (shared c))"
    using assms(2) threads_ok_pending[of A c t "ae_seq e"] threads_ok_built[of A c t e]
    by (intro stored_ok_write) (simp_all add: conc_ok_def)
  moreover have "\<forall>u. u \<noteq> t \<longrightarrow> pending (locals c u) \<noteq> Some (ae_seq e)"
    using assms(2) store threads_ok_pending[of A c t "ae_seq e"] by (simp add: conc_ok_def)
  then have "threads_ok A c'"
    using store assms(2) by (auto simp: conc_ok_def threads_ok_def write_entry_def)
  ultimately show ?thesis using store by (simp add: conc_ok_def)
next
  case (store_fails t e)
  with assms(2) show ?thesis by (auto simp: conc_ok_def threads_ok_def)
next
  case (publish t e)
  with assms(2) show ?thesis
    by (auto simp: conc_ok_def threads_ok_def stored_ok_def publish_hash_def)
qed

lemma areach_conc_ok: "areach A c c' \<Longrightarrow> conc_ok A c \<Longrightarrow> conc_ok A c'"
  by (induction rule: areach.induct) (auto intro: astep_conc_ok)

text \<open>A record once stored is never overwritten or removed.\<close>

lemma astep_keeps_records:
  assumes "astep A c c'" and "conc_ok A c" and "map_of (al_db (shared c)) k = Some r"
  shows "map_of (al_db (shared c')) k = Some r"
  using assms
proof (cases rule: astep.cases)
  case (store t e)
  have "k \<in> keys (al_db (shared c))"
    using assms(3) by (force simp: keys_def dest: map_of_SomeD)
  moreover have "ae_seq e \<notin> keys (al_db (shared c))"
    using store assms(2) threads_ok_pending[of A c t "ae_seq e"] by (simp add: conc_ok_def)
  ultimately have "k \<noteq> ae_seq e" by blast
  with store assms(2,3) show ?thesis
    by (auto simp: write_entry_def map_of_insert conc_ok_def stored_ok_def)
qed (auto simp: claim_seq_def publish_hash_def)

lemma areach_keeps_records:
  "areach A c c' \<Longrightarrow> conc_ok A c \<Longrightarrow> map_of (al_db (shared c)) k = Some r \<Longrightarrow>
     map_of (al_db (shared c')) k = Some r"
  by (induction rule: areach.induct) (auto intro: astep_keeps_records areach_conc_ok)

definition resting :: "audit_log \<Rightarrow> conc" where
  "resting s = \<lparr>shared = s, locals = \<lambda>_. Idle\<rparr>"

lemma resting_simps [simp]: "shared (resting s) = s" "locals (resting s) t = Idle"
  by (simp_all add: resting_def)

lemma chain_ok_stored: "linked A prev d h \<Longrightarrow> (k, r) \<in> set d \<Longrightarrow>
    \<exists>e. r = Entry e \<and> ae_seq e = k \<and> own_hash_ok A e"
  by (induction A prev d h rule: linked.induct) (auto simp: own_hash_ok_def split: raw.splits)

lemma resting_conc_ok: "chain_ok A s \<Longrightarrow> conc_ok A (resting s)"
  by (auto simp: conc_ok_def threads_ok_def stored_ok_def chain_ok_def keys_def
      dest: chain_ok_stored)

text \<open>
  What concurrency cannot spoil. However the appends of any number of threads interleave, from
  any log a single thread could have written: stored sequence numbers are distinct and were all
  claimed, every stored record decodes and carries the hash of its own content, and no record,
  once stored, is ever overwritten, changed or dropped.
\<close>

theorem concurrent_records_are_safe:
  assumes "chain_ok A s" and "areach A (resting s) c"
  shows "distinct (map fst (al_db (shared c)))
         \<and> list_all (\<lambda>(k, r). k < al_seq (shared c)
              \<and> (\<exists>e. r = Entry e \<and> ae_seq e = k \<and> entry_digest A e = ae_hash e)) (al_db (shared c))
         \<and> list_all (\<lambda>(k, r). map_of (al_db (shared c)) k = Some r) (al_db s)"
proof -
  have ok: "stored_ok A (shared c)"
    using areach_conc_ok[OF assms(2) resting_conc_ok[OF assms(1)]] by (simp add: conc_ok_def)
  have dist: "distinct (map fst (al_db s))"
    using assms(1) by (auto simp: chain_ok_def key_ordered_def strict_sorted_iff)
  have kept: "map_of (al_db (shared c)) k = Some r" if "(k, r) \<in> set (al_db s)" for k r
    using areach_keeps_records[OF assms(2) resting_conc_ok[OF assms(1)], of k r] that dist by simp
  have "distinct (map fst (al_db (shared c)))"
    using ok by (auto simp: stored_ok_def key_ordered_def strict_sorted_iff)
  with ok kept show ?thesis
    by (auto simp: list_all_iff stored_ok_def own_hash_ok_def)
qed


lemma linked_verify_append:
  "linked A prev d h \<Longrightarrow> verify_from A prev (d @ d') = verify_from A h d'"
  by (induction A prev d arbitrary: h rule: verify_from.induct) (auto split: raw.splits)

text \<open>
  What concurrency does spoil. Take any log one thread could have written and any two appends.
  If the second thread copies the last hash before the first has published its own, both appends
  succeed, both records are stored, no thread is left inside an append, and the chain no longer
  verifies: the second record is reported as the first invalid one, with no tampering at all. The
  only assumption is that the first record's hash is not the one before it.
\<close>

theorem racing_appends_break_chain:
  assumes "chain_ok A s"
    and "e1 = build_entry A (al_seq s) now1 ty1 pay1 (al_last_hash s)"
    and "e2 = build_entry A (al_seq s + 1) now2 ty2 pay2 (al_last_hash s)"
    and "ae_hash e1 \<noteq> al_last_hash s"
  shows "\<exists>c. areach A (resting s) c \<and> (\<forall>t. locals c t = Idle)
           \<and> get_entry (al_seq s) (shared c) = Some e1
           \<and> get_entry (al_seq s + 1) (shared c) = Some e2
           \<and> verify_chain A (shared c) = (False, Some (al_seq s + 1))"
proof -
  let ?d = "al_db s" and ?n = "al_seq s"
  define c1 where "c1 = \<lparr>shared = s\<lparr>al_seq := ?n + 1\<rparr>, locals = (\<lambda>_. Idle)(0 := Claimed ?n)\<rparr>"
  define c2 where "c2 = c1\<lparr>shared := s\<lparr>al_seq := ?n + 2\<rparr>, locals := (locals c1)(1 := Claimed (?n + 1))\<rparr>"
  define c3 where "c3 = c2\<lparr>locals := (locals c2)(0 := Built e1)\<rparr>"
  define c4 where "c4 = c3\<lparr>locals := (locals c3)(1 := Built e2)\<rparr>"
  define c5 where "c5 = c4\<lparr>shared := write_entry e1 (shared c4), locals := (locals c4)(0 := Stored e1)\<rparr>"
  define c6 where "c6 = c5\<lparr>shared := publish_hash e1 (shared c5), locals := (locals c5)(0 := Idle)\<rparr>"
  define c7 where "c7 = c6\<lparr>shared := write_entry e2 (shared c6), locals := (locals c6)(1 := Stored e2)\<rparr>"
  define c8 where "c8 = c7\<lparr>shared := publish_hash e2 (shared c7), locals := (locals c7)(1 := Idle)\<rparr>"
  have "astep A (resting s) c1"
    using astep.claim[of "resting s" 0 A] by (simp add: c1_def resting_def claim_seq_def)
  moreover have "astep A c1 c2"
    using astep.claim[of c1 1 A] by (simp add: c1_def c2_def claim_seq_def)
  moreover have "astep A c2 c3"
    using astep.build[of c2 0 ?n A now1 ty1 pay1] assms(2)
    by (simp add: c1_def c2_def c3_def snapshot_hash_def)
  moreover have "astep A c3 c4"
    using astep.build[of c3 1 "?n + 1" A now2 ty2 pay2] assms(3)
    by (simp add: c1_def c2_def c3_def c4_def snapshot_hash_def)
  moreover have "astep A c4 c5"
    unfolding c5_def by (rule astep.store) (simp add: c1_def c2_def c3_def c4_def)
  moreover have "astep A c5 c6"
    unfolding c6_def by (rule astep.publish) (simp add: c5_def)
  moreover have "astep A c6 c7"
    unfolding c7_def by (rule astep.store) (simp add: c4_def c5_def c6_def)
  moreover have "astep A c7 c8"
    unfolding c8_def by (rule astep.publish) (simp add: c7_def)
  ultimately have reach: "areach A (resting s) c8"
    by (meson areach.start areach.more)
  have idle: "\<forall>t. locals c8 t = Idle"
    by (simp add: c1_def c2_def c3_def c4_def c5_def c6_def c7_def c8_def)
  have seqs: "ae_seq e1 = ?n" "ae_seq e2 = ?n + 1"
    using assms(2,3) by simp_all
  have ins1: "db_insert ?n (Entry e1) ?d = ?d @ [(?n, Entry e1)]"
    using assms(1) by (intro insert_at_end) (auto simp: chain_ok_def)
  moreover have "db_insert (?n + 1) (Entry e2) (?d @ [(?n, Entry e1)])
      = (?d @ [(?n, Entry e1)]) @ [(?n + 1, Entry e2)]"
    using assms(1) by (intro insert_at_end) (auto simp: chain_ok_def less_Suc_eq)
  ultimately have db: "al_db (shared c8) = ?d @ [(?n, Entry e1), (?n + 1, Entry e2)]"
    by (simp add: c1_def c2_def c3_def c4_def c5_def c6_def c7_def c8_def write_entry_def
        publish_hash_def seqs)
  have "?n \<notin> keys ?d" "?n + 1 \<notin> keys ?d"
    using assms(1) by (auto simp: chain_ok_def)
  then have "map_of ?d ?n = None" "map_of ?d (?n + 1) = None"
    by (simp_all add: map_of_eq_None_iff keys_def)
  then have "get_entry ?n (shared c8) = Some e1" "get_entry (?n + 1) (shared c8) = Some e2"
    by (simp_all add: get_entry_def db map_add_def raw_entry_def)
  moreover have "verify_chain A (shared c8) = (False, Some (?n + 1))"
    using linked_verify_append[of A "[]" ?d "al_last_hash s"] assms
    by (simp add: verify_chain_def db chain_ok_def)
  ultimately show ?thesis using reach idle by blast
qed


section \<open>What the chain detects, and what it cannot\<close>

text \<open>The hash a reader of the log ends with.\<close>

definition raw_hash :: "raw \<Rightarrow> string" where
  "raw_hash r = (case r of Entry e \<Rightarrow> ae_hash e | _ \<Rightarrow> [])"

definition tail_hash :: "string \<Rightarrow> db \<Rightarrow> string" where
  "tail_hash prev d = foldl (\<lambda>_ (k, r). raw_hash r) prev d"

lemma verify_from_append:
  "fst (verify_from A prev (d @ d')) \<longleftrightarrow>
     fst (verify_from A prev d) \<and> fst (verify_from A (tail_hash prev d) d')"
  by (induction A prev d rule: verify_from.induct)
    (auto simp: tail_hash_def raw_hash_def split: raw.splits)

lemma verify_from_result: "fst (verify_from A prev d) \<Longrightarrow> snd (verify_from A prev d) = None"
  by (induction A prev d rule: verify_from.induct) (auto split: raw.splits if_splits)

lemma tail_hash_snoc [simp]: "tail_hash prev (d @ [x]) = raw_hash (snd x)"
  by (simp add: tail_hash_def case_prod_beta)

text \<open>
  The module promises that any tampering is detectable by verifying the chain. Removing the
  newest records is not: every prefix of a log that verifies verifies too, and re-opening the
  shortened log succeeds and continues from it.
\<close>

theorem truncation_is_undetected:
  assumes "verify_chain A s = (True, None)"
  shows "verify_chain A (s\<lparr>al_db := take n (al_db s)\<rparr>) = (True, None)
         \<and> (\<exists>s'. open_log (take n (al_db s)) = Inr s' \<and> verify_chain A s' = (True, None))"
proof -
  have "fst (verify_from A [] (take n (al_db s) @ drop n (al_db s)))"
    using assms by (simp add: verify_chain_def)
  then have ok: "fst (verify_from A [] (take n (al_db s)))"
    by (simp only: verify_from_append)
  then have v: "verify_from A [] (take n (al_db s)) = (True, None)"
    using verify_from_result[OF ok] by (metis prod.collapse)
  have "\<exists>m h. recover_state (take n (al_db s)) = Inr (m, h)"
  proof (cases "take n (al_db s)" rule: rev_cases)
    case (snoc d x)
    with ok show ?thesis
      by (cases x) (auto simp: verify_from_append recover_state_def split: raw.splits)
  qed (auto simp: recover_state_def)
  with v show ?thesis by (auto simp: verify_chain_def open_log_def)
qed

text \<open>
  What the reading below assumes of SHA-256 and the time printer: no collisions, digests that are
  not empty, and no separator character inside a digest or a time stamp.
\<close>

definition collision_free :: "audit_libs \<Rightarrow> bool" where
  "collision_free A \<longleftrightarrow>
     inj (sha256_hex A) \<and> (\<forall>x. sha256_hex A x \<noteq> [] \<and> CHR ''|'' \<notin> set (sha256_hex A x))
     \<and> (\<forall>t. CHR ''|'' \<notin> set (rfc3339 A t))"

text \<open>What the hash of an entry covers, and the digest itself.\<close>

definition rendered :: "audit_libs \<Rightarrow> audit_entry \<Rightarrow> nat \<times> string \<times> audit_entry_type \<times> string \<times> string \<times> string" where
  "rendered A e = (ae_seq e, rfc3339 A (ae_timestamp e), ae_type e,
                   payload_text A (ae_payload e), ae_prev_hash e, ae_hash e)"

lemma entry_type_str_inj: "entry_type_str a = entry_type_str b \<Longrightarrow> a = b"
  by (cases a; cases b) simp_all

lemma sep_not_digit: "CHR ''|'' \<notin> set (show_nat n)"
proof
  assume "CHR ''|'' \<in> set (show_nat n)"
  then have "is_ascii_digit CHR ''|''"
    using show_nat_digits[of n] by (simp add: list_all_iff)
  then show False by (simp add: is_ascii_digit_def byte_def)
qed

lemma sep_not_type: "CHR ''|'' \<notin> set (entry_type_str t)"
  by (cases t) simp_all

lemma split_sep:
  fixes a b :: string
  assumes "a @ [d] @ b = a' @ [d] @ b'" and "d \<notin> set a" and "d \<notin> set a'"
  shows "a = a'" and "b = b'"
proof -
  have "split_once d (a @ d # b) = split_once d (a' @ d # b')"
    using assms(1) by (simp only: append_Cons append_Nil)
  then have "Some (a, b) = Some (a', b')"
    by (simp only: split_once_app[OF assms(2)] split_once_app[OF assms(3)])
  then show "a = a'" "b = b'" by simp_all
qed

lemma split_sep_right:
  fixes a b :: string
  assumes "a @ [d] @ b = a' @ [d] @ b'" and "d \<notin> set b" and "d \<notin> set b'"
  shows "a = a'" and "b = b'"
proof -
  have "rev b @ [d] @ rev a = rev b' @ [d] @ rev a'"
    using arg_cong[OF assms(1), of rev] by simp
  from split_sep[OF this] assms(2,3) show "a = a'" "b = b'" by simp_all
qed

lemma hash_input_inj:
  assumes "hash_input n ts (entry_type_str ty) pay prev = hash_input n' ts' (entry_type_str ty') pay' prev'"
    and "CHR ''|'' \<notin> set ts" "CHR ''|'' \<notin> set ts'" "CHR ''|'' \<notin> set prev" "CHR ''|'' \<notin> set prev'"
  shows "n = n' \<and> ts = ts' \<and> ty = ty' \<and> pay = pay' \<and> prev = prev'"
proof -
  note s1 = split_sep[OF _ sep_not_digit sep_not_digit]
  note e = assms(1)[unfolded hash_input_def]
  from s1(1)[OF e] have n: "n = n'" by (rule show_nat_inj)
  note e1 = s1(2)[OF e]
  from split_sep(1)[OF e1 assms(2,3)] have ts: "ts = ts'" .
  note e2 = split_sep(2)[OF e1 assms(2,3)]
  from split_sep(1)[OF e2 sep_not_type sep_not_type] have ty: "ty = ty'" by (rule entry_type_str_inj)
  note e3 = split_sep(2)[OF e2 sep_not_type sep_not_type]
  from split_sep_right[OF e3 assms(4,5)] n ts ty show ?thesis by blast
qed

lemma verified_last:
  "fst (verify_from A [] (d @ [(k, r)])) \<Longrightarrow>
     \<exists>e. r = Entry e \<and> fst (verify_from A [] d) \<and> ae_prev_hash e = tail_hash [] d
       \<and> entry_digest A e = ae_hash e"
  by (auto simp: verify_from_append split: raw.splits if_splits)

lemma verified_tail_clean:
  assumes "collision_free A" and "fst (verify_from A [] d)"
  shows "CHR ''|'' \<notin> set (tail_hash [] d)" and "d \<noteq> [] \<Longrightarrow> tail_hash [] d \<noteq> []"
proof -
  have "tail_hash [] d = [] \<and> d = [] \<or> (\<exists>x. tail_hash [] d = sha256_hex A x)"
  proof (cases d rule: rev_cases)
    case (snoc d' x)
    then obtain e where "snd x = Entry e" "entry_digest A e = ae_hash e"
      using assms(2) verified_last[of A d' "fst x" "snd x"] by auto
    then have "tail_hash [] d = sha256_hex A (hash_input (ae_seq e) (rfc3339 A (ae_timestamp e))
        (entry_type_str (ae_type e)) (payload_text A (ae_payload e)) (ae_prev_hash e))"
      by (simp add: snoc raw_hash_def entry_digest_def compute_hash_def)
    then show ?thesis by blast
  qed (simp add: tail_hash_def)
  then consider "tail_hash [] d = []" "d = []" | x where "tail_hash [] d = sha256_hex A x" by blast
  note * = this
  have digest: "sha256_hex A x \<noteq> []" "CHR ''|'' \<notin> set (sha256_hex A x)" for x
    using assms(1) by (simp_all add: collision_free_def)
  show "CHR ''|'' \<notin> set (tail_hash [] d)" by (cases rule: *) (simp_all add: digest)
  show "d \<noteq> [] \<Longrightarrow> tail_hash [] d \<noteq> []" by (cases rule: *) (simp_all add: digest)
qed

text \<open>
  C17. What the chain does detect. If SHA-256 has no collisions, two logs that verify and end in the
  same hash are the same log: the same number of records, in the same order, with equal sequence
  numbers, time stamps, types, payload texts and hashes. So no record before the newest hash can
  be edited, inserted, removed or reordered without the chain or that hash changing.
\<close>

theorem tail_hash_fixes_history:
  assumes "collision_free A"
    and "fst (verify_from A [] d)" and "fst (verify_from A [] d')"
    and "tail_hash [] d = tail_hash [] d'"
  shows "map (map_option (rendered A) \<circ> raw_entry \<circ> snd) d
       = map (map_option (rendered A) \<circ> raw_entry \<circ> snd) d'"
  using assms(2-4)
proof (induction d arbitrary: d' rule: rev_induct)
  case Nil
  then have "d' = []"
    using verified_tail_clean(2)[OF assms(1) Nil(2)] by (auto simp: tail_hash_def)
  then show ?case by simp
next
  case (snoc x d)
  have "d' \<noteq> []"
    using verified_tail_clean(2)[OF assms(1) snoc.prems(1)] snoc.prems(3) by (auto simp: tail_hash_def)
  then obtain y d0 where d': "d' = d0 @ [y]" by (cases d' rule: rev_cases) auto
  obtain e where e: "snd x = Entry e" "fst (verify_from A [] d)" "ae_prev_hash e = tail_hash [] d"
      "entry_digest A e = ae_hash e"
    using verified_last[of A d "fst x" "snd x"] snoc.prems(1) by auto
  obtain f where f: "snd y = Entry f" "fst (verify_from A [] d0)" "ae_prev_hash f = tail_hash [] d0"
      "entry_digest A f = ae_hash f"
    using verified_last[of A d0 "fst y" "snd y"] snoc.prems(2) d' by auto
  have h: "ae_hash e = ae_hash f"
    using snoc.prems(3) d' e(1) f(1) by (simp add: raw_hash_def)
  then have "entry_digest A e = entry_digest A f" using e(4) f(4) by simp
  then have "hash_input (ae_seq e) (rfc3339 A (ae_timestamp e)) (entry_type_str (ae_type e))
        (payload_text A (ae_payload e)) (ae_prev_hash e)
      = hash_input (ae_seq f) (rfc3339 A (ae_timestamp f)) (entry_type_str (ae_type f))
        (payload_text A (ae_payload f)) (ae_prev_hash f)"
    using assms(1) unfolding entry_digest_def compute_hash_def collision_free_def inj_def by blast
  from hash_input_inj[OF this] have eq: "rendered A e = rendered A f"
    using assms(1) h e(3) f(3) verified_tail_clean(1)[OF assms(1) e(2)]
      verified_tail_clean(1)[OF assms(1) f(2)]
    by (simp add: collision_free_def rendered_def)
  have "tail_hash [] d = tail_hash [] d0" using eq e(3) f(3) by (simp add: rendered_def)
  from snoc.IH[OF e(2) f(2) this] eq e(1) f(1) show ?case
    by (simp add: d' raw_entry_def)
qed


section \<open>Witnesses\<close>

text \<open>
  A collision-free stand-in for the digest: each byte in unary. With it the hypotheses above hold
  on concrete logs.
\<close>

fun unary :: "string \<Rightarrow> string" where
  "unary [] = ''h''"
| "unary (c # cs) = replicate (byte c) CHR ''a'' @ ''b'' @ unary cs"

definition unary_libs :: audit_libs where
  "unary_libs = \<lparr>sha256_hex = unary, rfc3339 = \<lambda>_. ''t'', payload_text = \<lambda>_. ''p''\<rparr>"

lemma unary_nonempty: "unary s \<noteq> []"
  by (cases s) auto

lemma unary_set: "set (unary s) \<subseteq> {CHR ''a'', CHR ''b'', CHR ''h''}"
  by (induction s) auto

lemma byte_inj: "byte c = byte d \<Longrightarrow> c = d"
  by (simp add: byte_def)

lemma replicate_sep:
  "replicate m x @ y # r = replicate n x @ y # r' \<Longrightarrow> x \<noteq> y \<Longrightarrow> m = n \<and> r = r'"
proof (induction m arbitrary: n)
  case 0
  then show ?case by (cases n) auto
next
  case (Suc m)
  then show ?case by (cases n) auto
qed

lemma unary_inj: "unary s = unary t \<Longrightarrow> s = t"
proof (induction s arbitrary: t)
  case Nil
  then show ?case by (cases t) (auto simp: replicate_app_Cons_same Cons_eq_append_conv)
next
  case (Cons c cs)
  show ?case
  proof (cases t)
    case Nil
    with Cons.prems show ?thesis by (auto simp: append_eq_Cons_conv)
  next
    case (Cons d ds)
    with Cons.prems have "replicate (byte c) CHR ''a'' @ CHR ''b'' # unary cs
        = replicate (byte d) CHR ''a'' @ CHR ''b'' # unary ds" by simp
    from replicate_sep[OF this] have "byte c = byte d" "unary cs = unary ds" by simp_all
    with Cons.IH Cons show ?thesis by (auto dest: byte_inj)
  qed
qed

lemma unary_collision_free: "collision_free unary_libs"
proof -
  have "CHR ''|'' \<notin> set (unary x)" for x using unary_set[of x] by auto
  then show ?thesis
    by (auto simp: collision_free_def unary_libs_def inj_def unary_nonempty dest: unary_inj)
qed

definition two_records :: audit_log where
  "two_records = foldl (audit_step unary_libs) empty_log
     [Append True 1 DaemonStart JNull, Append False 2 PolicyChange JNull,
      Append True 3 ConfigChange JNull]"

lemma two_records_ok: "chain_ok unary_libs two_records"
  unfolding two_records_def using empty_log_ok by (intro audit.run_inv) blast

lemma two_records_verify: "fst (verify_from unary_libs [] (al_db two_records))"
  using two_records_ok linked_verify by (auto simp: chain_ok_def)

theorem concurrent_records_are_safe_witness:
  "distinct (map fst (al_db (shared (resting two_records\<lparr>
      shared := snd (claim_seq two_records),
      locals := (locals (resting two_records))(0 := Claimed (al_seq two_records))\<rparr>))))"
proof -
  have "areach unary_libs (resting two_records)
      (resting two_records\<lparr>shared := snd (claim_seq two_records),
         locals := (locals (resting two_records))(0 := Claimed (al_seq two_records))\<rparr>)"
    using areach.more[OF areach.start astep.claim[of "resting two_records" 0]]
    by (simp add: claim_seq_def)
  from concurrent_records_are_safe[OF two_records_ok this] show ?thesis by blast
qed

theorem racing_appends_break_chain_witness:
  "\<exists>c. areach unary_libs (resting empty_log) c \<and> (\<forall>t. locals c t = Idle)
     \<and> verify_chain unary_libs (shared c) = (False, Some 1)"
proof -
  have ok: "chain_ok unary_libs empty_log" using empty_log_ok by blast
  have "ae_hash (build_entry unary_libs (al_seq empty_log) 0 DaemonStart JNull (al_last_hash empty_log))
      \<noteq> al_last_hash empty_log"
    by (simp add: build_entry_def compute_hash_def unary_libs_def empty_log_def unary_nonempty)
  from racing_appends_break_chain[OF ok refl refl this, of 0 PolicyChange JNull]
  have "\<exists>c. areach unary_libs (resting empty_log) c \<and> (\<forall>t. locals c t = Idle)
     \<and> verify_chain unary_libs (shared c) = (False, Some (al_seq empty_log + 1))" by blast
  then show ?thesis by (simp add: empty_log_def)
qed

theorem truncation_is_undetected_witness:
  "verify_chain unary_libs (two_records\<lparr>al_db := take 1 (al_db two_records)\<rparr>) = (True, None)"
proof -
  have "verify_chain unary_libs two_records = (True, None)"
    using two_records_ok linked_verify by (auto simp: chain_ok_def verify_chain_def)
  from truncation_is_undetected[OF this] show ?thesis by blast
qed

theorem tail_hash_fixes_history_witness:
  "map (map_option (rendered unary_libs) \<circ> raw_entry \<circ> snd) (al_db two_records)
   = map (map_option (rendered unary_libs) \<circ> raw_entry \<circ> snd) (al_db two_records)"
  by (rule tail_hash_fixes_history[OF unary_collision_free two_records_verify two_records_verify refl])

end
