(* ===== verification/NetAddr.thy ===== *)
theory NetAddr
  imports Values
begin

text \<open>
  Internet addresses as the network policies use them: Rust's \<open>IpAddr\<close> with its standard parser
  and printer, loopback tests, and CIDR ranges on 32- and 128-bit words. The parser follows
  \<open>core::net::parser\<close>: a dotted quad has four decimal numbers of at most three digits without
  leading zeros; an IPv6 address has eight groups, a double colon for a run of zero groups, and may
  end in a dotted quad.
\<close>

type_synonym ipv4 = "32 word"
type_synonym ipv6 = "128 word"

datatype ip_addr = V4 ipv4 | V6 ipv6

definition ipv4_of :: "nat \<Rightarrow> nat \<Rightarrow> nat \<Rightarrow> nat \<Rightarrow> ipv4" where
  "ipv4_of a b c d = word_of_nat (((a * 256 + b) * 256 + c) * 256 + d)"

definition octets :: "ipv4 \<Rightarrow> nat list" where
  "octets w = (let n = unat w in [n div 16777216, n div 65536 mod 256, n div 256 mod 256, n mod 256])"

definition segments :: "ipv6 \<Rightarrow> nat list" where
  "segments w = map (\<lambda>i. unat w div 2 ^ (16 * (7 - i)) mod 65536) [0..<8]"

definition ipv6_of :: "nat list \<Rightarrow> ipv6" where
  "ipv6_of gs = foldl (\<lambda>a g. a * 65536 + word_of_nat g) 0 gs"

fun is_loopback :: "ip_addr \<Rightarrow> bool" where
  "is_loopback (V4 w) = (hd (octets w) = 127)"
| "is_loopback (V6 w) = (w = 1)"

fun is_ipv4 :: "ip_addr \<Rightarrow> bool" where
  "is_ipv4 (V4 _) = True"
| "is_ipv4 (V6 _) = False"

section \<open>Printing\<close>

definition show_ipv4 :: "ipv4 \<Rightarrow> string" where
  "show_ipv4 w = join ''.'' (map show_nat (octets w))"

definition hex_char :: "nat \<Rightarrow> char" where
  "hex_char d = (if d < 10 then char_of (48 + d) else char_of (87 + d))"

fun show_hex :: "nat \<Rightarrow> string" where
  "show_hex n = (if n < 16 then [hex_char n] else show_hex (n div 16) @ [hex_char (n mod 16)])"

declare show_hex.simps [simp del]

text \<open>The first longest run of zero groups: scan with the current and the longest span.\<close>

fun zero_span :: "nat \<Rightarrow> nat \<times> nat \<Rightarrow> nat \<times> nat \<Rightarrow> nat list \<Rightarrow> nat \<times> nat" where
  "zero_span i cur best [] = best"
| "zero_span i cur best (g # gs) =
     (if g = 0
      then let cur = (if snd cur = 0 then i else fst cur, snd cur + 1)
           in zero_span (i + 1) cur (if snd cur > snd best then cur else best) gs
      else zero_span (i + 1) (0, 0) best gs)"

definition show_ipv6 :: "ipv6 \<Rightarrow> string" where
  "show_ipv6 w =
     (let gs = segments w
      in if take 6 gs = [0, 0, 0, 0, 0, 65535]
         then ''::ffff:'' @ show_ipv4 (word_of_nat (unat w mod 4294967296))
         else let (s, l) = zero_span 0 (0, 0) (0, 0) gs
              in if l > 1
                 then join '':'' (map show_hex (take s gs)) @ ''::''
                      @ join '':'' (map show_hex (drop (s + l) gs))
                 else join '':'' (map show_hex gs))"

fun show_ip :: "ip_addr \<Rightarrow> string" where
  "show_ip (V4 w) = show_ipv4 w"
| "show_ip (V6 w) = show_ipv6 w"

section \<open>Parsing\<close>

definition hex_val :: "char \<Rightarrow> nat option" where
  "hex_val c =
     (if is_ascii_digit c then Some (byte c - 48)
      else if 97 \<le> byte c \<and> byte c \<le> 102 then Some (byte c - 87)
      else if 65 \<le> byte c \<and> byte c \<le> 70 then Some (byte c - 55)
      else None)"

definition to_digit :: "nat \<Rightarrow> char \<Rightarrow> nat option" where
  "to_digit radix c =
     (case hex_val c of Some d \<Rightarrow> if d < radix then Some d else None | None \<Rightarrow> None)"

definition read_number ::
  "nat \<Rightarrow> nat \<Rightarrow> bool \<Rightarrow> nat \<Rightarrow> string \<Rightarrow> (nat \<times> string) option" where
  "read_number radix max_digits allow_zero_prefix hi s =
     (let p = (\<lambda>c. to_digit radix c \<noteq> None);
          ds = takeWhile p s;
          v = foldl (\<lambda>a c. a * radix + the (to_digit radix c)) 0 ds
      in if ds = [] \<or> length ds > max_digits \<or> v > hi then None
         else if \<not> allow_zero_prefix \<and> hd ds = CHR ''0'' \<and> length ds > 1 then None
         else Some (v, dropWhile p s))"

fun read_char :: "char \<Rightarrow> string \<Rightarrow> string option" where
  "read_char c [] = None"
| "read_char c (d # ds) = (if d = c then Some ds else None)"

definition read_octet :: "string \<Rightarrow> (nat \<times> string) option" where
  "read_octet s = read_number 10 3 False 255 s"

definition read_dot_octet :: "string \<Rightarrow> (nat \<times> string) option" where
  "read_dot_octet s = Option.bind (read_char (CHR ''.'') s) read_octet"

definition read_ipv4_addr :: "string \<Rightarrow> (ipv4 \<times> string) option" where
  "read_ipv4_addr s =
     Option.bind (read_octet s) (\<lambda>(a, s1).
     Option.bind (read_dot_octet s1) (\<lambda>(b, s2).
     Option.bind (read_dot_octet s2) (\<lambda>(c, s3).
     Option.bind (read_dot_octet s3) (\<lambda>(d, s4). Some (ipv4_of a b c d, s4)))))"

text \<open>\<open>read_separator(':', i, \<dots>)\<close>: a colon first, except before the first group.\<close>

definition after_sep :: "nat \<Rightarrow> string \<Rightarrow> string option" where
  "after_sep i s = (if i > 0 then read_char (CHR '':'') s else Some s)"

function read_groups :: "nat \<Rightarrow> nat \<Rightarrow> string \<Rightarrow> nat list \<times> bool \<times> string" where
  "read_groups limit i s =
     (if i \<ge> limit then ([], False, s)
      else case (if i < limit - 1 then Option.bind (after_sep i s) read_ipv4_addr else None) of
        Some (w, rest) \<Rightarrow> ([unat w div 65536, unat w mod 65536], True, rest)
      | None \<Rightarrow>
         (case Option.bind (after_sep i s) (read_number 16 4 True 65535) of
            None \<Rightarrow> ([], False, s)
          | Some (g, rest) \<Rightarrow>
              let (gs, v4, r) = read_groups limit (Suc i) rest in (g # gs, v4, r)))"
  by pat_completeness auto
termination
  by (relation "measure (\<lambda>(l, i, s). l - i)") auto

declare read_groups.simps [simp del]

definition read_ipv6_addr :: "string \<Rightarrow> (ipv6 \<times> string) option" where
  "read_ipv6_addr s =
     (let (head, v4, rest) = read_groups 8 0 s
      in if length head = 8 then Some (ipv6_of head, rest)
         else if v4 then None
         else Option.bind (Option.bind (read_char (CHR '':'') rest) (read_char (CHR '':'')))
           (\<lambda>r. let (tail, _, r') = read_groups (8 - (length head + 1)) 0 r
                in Some (ipv6_of (head @ replicate (8 - length head - length tail) 0 @ tail), r')))"

text \<open>\<open>IpAddr::from_str\<close>: either form, with nothing left over.\<close>

definition parse_ip :: "string \<Rightarrow> ip_addr option" where
  "parse_ip s =
     (case read_ipv4_addr s of
        Some (w, rest) \<Rightarrow> if rest = [] then Some (V4 w) else None
      | None \<Rightarrow> (case read_ipv6_addr s of
                  Some (w, rest) \<Rightarrow> if rest = [] then Some (V6 w) else None
                | None \<Rightarrow> None))"

section \<open>Ranges\<close>

text \<open>\<open>"10.0.0.0/24"\<close> is a network and a prefix length.\<close>

definition parse_cidr :: "string \<Rightarrow> (ip_addr \<times> nat) option" where
  "parse_cidr s =
     (case split_once (CHR ''/'') s of
        None \<Rightarrow> None
      | Some (n, l) \<Rightarrow>
         (case (parse_ip n, parse_u8 l) of
            (Some net, Some len) \<Rightarrow>
              if len \<le> (if is_ipv4 net then 32 else 128) then Some (net, len) else None
          | _ \<Rightarrow> None))"

fun in_cidr :: "ip_addr \<Rightarrow> ip_addr \<Rightarrow> nat \<Rightarrow> bool" where
  "in_cidr (V4 a) (V4 b) len =
     (let mask = (if len = 0 then 0 else push_bit (32 - len) (- 1)) in and a mask = and b mask)"
| "in_cidr (V6 a) (V6 b) len =
     (let mask = (if len = 0 then 0 else push_bit (128 - len) (- 1)) in and a mask = and b mask)"
| "in_cidr _ _ _ = False"

section \<open>Facts\<close>

lemma and_high_mask_iff:
  fixes a b :: "'a::len word"
  shows "and a (push_bit n (- 1)) = and b (push_bit n (- 1)) \<longleftrightarrow> drop_bit n a = drop_bit n b"
proof
  assume eq: "and a (push_bit n (- 1)) = and b (push_bit n (- 1))"
  show "drop_bit n a = drop_bit n b"
  proof (rule bit_word_eqI)
    fix i assume i: "i < LENGTH('a)"
    show "bit (drop_bit n a) i = bit (drop_bit n b) i"
    proof (cases "n + i < LENGTH('a)")
      case True
      have "bit (and a (push_bit n (- 1))) (n + i) = bit (and b (push_bit n (- 1))) (n + i)"
        using eq by simp
      then show ?thesis using True by (simp add: bit_simps)
    next
      case False
      then show ?thesis by (auto simp: bit_simps dest: bit_imp_le_length)
    qed
  qed
next
  assume eq: "drop_bit n a = drop_bit n b"
  show "and a (push_bit n (- 1)) = and b (push_bit n (- 1))"
  proof (rule bit_word_eqI)
    fix i assume i: "i < LENGTH('a)"
    show "bit (and a (push_bit n (- 1))) i = bit (and b (push_bit n (- 1))) i"
    proof (cases "n \<le> i")
      case True
      then obtain j where j: "i = n + j" using le_Suc_ex by blast
      have "bit (drop_bit n a) j = bit (drop_bit n b) j" using eq by simp
      then show ?thesis using i j by (simp add: bit_simps)
    next
      case False
      then show ?thesis using i by (simp add: bit_simps)
    qed
  qed
qed

lemma drop_bit_word_beyond: "LENGTH('a) \<le> n \<Longrightarrow> drop_bit n (w :: 'a::len word) = 0"
  by (rule bit_word_eqI) (auto simp: bit_simps dest: bit_imp_le_length)

lemma in_cidr_v4: "len \<le> 32 \<Longrightarrow>
    in_cidr (V4 a) (V4 b) len \<longleftrightarrow> drop_bit (32 - len) a = drop_bit (32 - len) b"
proof (cases "len = 0")
  case False
  then show ?thesis by (simp only: in_cidr.simps Let_def if_False and_high_mask_iff)
qed (simp add: drop_bit_word_beyond)

lemma in_cidr_v6: "len \<le> 128 \<Longrightarrow>
    in_cidr (V6 a) (V6 b) len \<longleftrightarrow> drop_bit (128 - len) a = drop_bit (128 - len) b"
proof (cases "len = 0")
  case False
  then show ?thesis by (simp only: in_cidr.simps Let_def if_False and_high_mask_iff)
qed (simp add: drop_bit_word_beyond)

lemma in_cidr_host: "in_cidr (V4 a) (V4 b) 32 \<longleftrightarrow> a = b"
  by (simp add: in_cidr_v4)

lemma octets_of: "a < 256 \<Longrightarrow> b < 256 \<Longrightarrow> c < 256 \<Longrightarrow> d < 256 \<Longrightarrow>
    octets (ipv4_of a b c d) = [a, b, c, d]"
proof -
  assume lt: "a < 256" "b < 256" "c < 256" "d < 256"
  let ?n = "((a * 256 + b) * 256 + c) * 256 + d"
  have "?n < 2 ^ 32" using lt by simp
  then have u: "unat (ipv4_of a b c d) = ?n"
    unfolding ipv4_of_def unsigned_of_nat of_nat_id by (intro take_bit_nat_eq_self) simp
  have step: "(x * 256 + y) div 256 = x" "(x * 256 + y) mod 256 = y" if "y < 256" for x y :: nat
    using that by simp_all
  have "?n div 16777216 = ?n div 256 div 256 div 256" "?n div 65536 = ?n div 256 div 256"
    by (simp_all add: div_mult2_eq[symmetric])
  then have "?n div 16777216 = a" "?n div 65536 mod 256 = b" "?n div 256 mod 256 = c" "?n mod 256 = d"
    using lt by (simp_all only: step)
  then show ?thesis using u by (simp add: octets_def Let_def)
qed

lemma octets_less: "list_all (\<lambda>d. d < 256) (octets w)"
proof -
  have "unat w < 2 ^ 32" using unsigned_less[of w, where ?'a = nat] by simp
  then show ?thesis by (simp add: octets_def Let_def)
qed

lemma ipv4_of_octets: "octets w = [a, b, c, d] \<Longrightarrow> ipv4_of a b c d = w"
proof -
  assume o: "octets w = [a, b, c, d]"
  let ?n = "unat w"
  have "a = ?n div 16777216" "b = ?n div 65536 mod 256" "c = ?n div 256 mod 256" "d = ?n mod 256"
    using o by (simp_all add: octets_def Let_def)
  moreover have "?n div 16777216 * 256 + ?n div 65536 mod 256 = ?n div 65536"
    using div_mult_mod_eq[of "?n div 65536" 256] by (simp add: div_mult2_eq[symmetric])
  moreover have "?n div 65536 * 256 + ?n div 256 mod 256 = ?n div 256"
    using div_mult_mod_eq[of "?n div 256" 256] by (simp add: div_mult2_eq[symmetric])
  ultimately have "((a * 256 + b) * 256 + c) * 256 + d = ?n" by simp
  then show ?thesis by (simp add: ipv4_of_def)
qed

text \<open>Reading back a printed number.\<close>

lemma show_nat_small:
  "n < 10 \<Longrightarrow> show_nat n = [digit_char n]"
  "10 \<le> n \<Longrightarrow> n < 100 \<Longrightarrow> show_nat n = [digit_char (n div 10), digit_char (n mod 10)]"
  "10 ^ 2 \<le> n \<Longrightarrow> n < 1000 \<Longrightarrow>
     show_nat n = [digit_char (n div 100), digit_char (n div 10 mod 10), digit_char (n mod 10)]"
proof -
  show "n < 10 \<Longrightarrow> show_nat n = [digit_char n]" by (simp add: show_nat.simps[of n])
  show two: "show_nat n = [digit_char (n div 10), digit_char (n mod 10)]"
    if "10 \<le> n" "n < 100" for n
  proof -
    have "n div 10 < 10" using that by simp
    then show ?thesis using that
      by (simp add: show_nat.simps[of n] show_nat.simps[of "n div 10"])
  qed
  assume n: "10 ^ 2 \<le> n" "n < 1000"
  then have "10 \<le> n div 10" "n div 10 < 100" by auto
  from two[OF this] have "show_nat (n div 10) = [digit_char (n div 100), digit_char (n div 10 mod 10)]"
    by (simp add: div_mult2_eq[symmetric])
  then show "show_nat n =
     [digit_char (n div 100), digit_char (n div 10 mod 10), digit_char (n mod 10)]"
    using n by (simp add: show_nat.simps[of n])
qed

lemma to_digit_char: "d < 10 \<Longrightarrow> to_digit 10 (digit_char d) = Some d"
  using digit_char_is_digit[of d] digit_char_val[of d]
  by (simp add: to_digit_def hex_val_def digit_val_def)

lemma digit_char_0: "d < 10 \<Longrightarrow> digit_char d = CHR ''0'' \<longleftrightarrow> d = 0"
proof -
  assume d: "d < 10"
  have "digit_val (CHR ''0'') = 0" and "digit_char 0 = CHR ''0''" by code_simp+
  then show ?thesis using digit_char_val[OF d] by metis
qed

lemma read_octet_show:
  assumes n: "n < 256" and r: "r = [] \<or> to_digit 10 (hd r) = None"
  shows "read_octet (show_nat n @ r) = Some (n, r)"
proof -
  have stop: "takeWhile (\<lambda>c. \<exists>y. to_digit 10 c = Some y) r = []"
    "dropWhile (\<lambda>c. \<exists>y. to_digit 10 c = Some y) r = r"
    using r by (cases r; simp)+
  consider "n < 10" | "10 \<le> n" "n < 100" | "100 \<le> n" "n < 1000" using n by linarith
  then show ?thesis
  proof cases
    case 1
    then show ?thesis using n stop
      by (simp add: read_octet_def read_number_def show_nat_small(1) to_digit_char)
  next
    case 2
    then have "n div 10 < 10" "n div 10 \<noteq> 0" by auto
    then show ?thesis using n stop 2
      by (simp add: read_octet_def read_number_def show_nat_small(2) to_digit_char digit_char_0 Let_def)
  next
    case 3
    then have "n div 100 < 10" "n div 100 \<noteq> 0" by auto
    moreover have "n div 100 * 10 + n div 10 mod 10 = n div 10"
      using div_mult_mod_eq[of "n div 10" 10] by (simp add: div_mult2_eq[symmetric])
    then have "(n div 100 * 10 + n div 10 mod 10) * 10 + n mod 10 = n" by simp
    ultimately show ?thesis using n stop 3
      by (simp add: read_octet_def read_number_def show_nat_small(3) to_digit_char digit_char_0 Let_def)
  qed
qed

lemma read_dot_octet_show:
  "n < 256 \<Longrightarrow> r = [] \<or> to_digit 10 (hd r) = None
   \<Longrightarrow> read_dot_octet (CHR ''.'' # show_nat n @ r) = Some (n, r)"
  by (simp add: read_dot_octet_def read_octet_show)

lemma dot_not_digit: "to_digit 10 (CHR ''.'') = None"
  by (simp add: to_digit_def hex_val_def is_ascii_digit_def byte_def)

lemma parse_show_ipv4: "parse_ip (show_ipv4 w) = Some (V4 w)"
proof -
  obtain a b c d where o: "octets w = [a, b, c, d]" by (simp add: octets_def Let_def)
  then have lt: "a < 256" "b < 256" "c < 256" "d < 256" using octets_less[of w] by simp_all
  have "show_ipv4 w = show_nat a @ CHR ''.'' # show_nat b @ CHR ''.'' # show_nat c
                        @ CHR ''.'' # show_nat d @ []"
    by (simp add: show_ipv4_def o)
  then have "read_ipv4_addr (show_ipv4 w) = Some (ipv4_of a b c d, [])"
    using lt by (simp only: read_ipv4_addr_def read_octet_show read_dot_octet_show dot_not_digit
        list.sel simp_thms Option.bind.simps prod.case)
  then show ?thesis by (simp add: parse_ip_def ipv4_of_octets[OF o])
qed

text \<open>No address contains a slash or starts with a star, so the three kinds of entries are disjoint.\<close>

definition consumed :: "string \<Rightarrow> string \<Rightarrow> bool" where
  "consumed s r = (\<exists>u. s = u @ r \<and> CHR ''/'' \<notin> set u)"

lemma consumed_refl [simp]: "consumed s s"
  by (simp add: consumed_def)

lemma consumed_trans: "consumed s t \<Longrightarrow> consumed t r \<Longrightarrow> consumed s r"
  by (force simp: consumed_def)

lemma slash_no_digit: "to_digit radix (CHR ''/'') = None"
  by (simp add: to_digit_def hex_val_def is_ascii_digit_def byte_def)

lemma read_number_consumed:
  assumes "read_number radix m z hi s = Some (v, r)"
  shows "consumed s r"
proof -
  let ?p = "\<lambda>c. to_digit radix c \<noteq> None"
  have "r = dropWhile ?p s"
    using assms by (auto simp: read_number_def Let_def split: if_splits)
  moreover have "CHR ''/'' \<notin> set (takeWhile ?p s)"
    using slash_no_digit[of radix] by (auto dest: set_takeWhileD)
  ultimately show ?thesis unfolding consumed_def by (metis takeWhile_dropWhile_id)
qed

lemma read_char_consumed: "read_char c s = Some r \<Longrightarrow> c \<noteq> CHR ''/'' \<Longrightarrow> consumed s r"
  by (cases s) (auto simp: consumed_def split: if_splits)

lemma read_ipv4_consumed: "read_ipv4_addr s = Some (w, r) \<Longrightarrow> consumed s r"
  unfolding read_ipv4_addr_def read_octet_def read_dot_octet_def
  by (auto simp: bind_eq_Some_conv dest!: read_number_consumed read_char_consumed)
    (meson consumed_trans)

lemma after_sep_consumed: "after_sep i s = Some r \<Longrightarrow> consumed s r"
  by (auto simp: after_sep_def dest: read_char_consumed split: if_splits)

lemma read_groups_consumed: "read_groups l i s = (gs, b, r) \<Longrightarrow> consumed s r"
proof (induction l i s arbitrary: gs b r rule: read_groups.induct)
  case (1 l i s)
  show ?case
  proof (cases "i \<ge> l")
    case True
    then show ?thesis using "1.prems" by (simp add: read_groups.simps[of l i s])
  next
    case lt: False
    let ?v4 = "if i < l - 1 then Option.bind (after_sep i s) read_ipv4_addr else None"
    show ?thesis
    proof (cases ?v4)
      case (Some wr)
      then obtain w rest where wr: "?v4 = Some (w, rest)" by (cases wr) auto
      then have "consumed s rest"
        by (auto simp: bind_eq_Some_conv split: if_splits
            intro: consumed_trans dest: read_ipv4_consumed after_sep_consumed)
      moreover have "rest = r" using "1.prems" lt wr by (simp add: read_groups.simps[of l i s])
      ultimately show ?thesis by simp
    next
      case v4: None
      show ?thesis
      proof (cases "Option.bind (after_sep i s) (read_number 16 4 True 65535)")
        case None
        then show ?thesis using "1.prems" lt v4 by (simp add: read_groups.simps[of l i s])
      next
        case (Some gr)
        then obtain g rest where gr:
            "Option.bind (after_sep i s) (read_number 16 4 True 65535) = Some (g, rest)"
          by (cases gr) auto
        obtain gs' b' where rec: "read_groups l (Suc i) rest = (gs', b', r)"
          using "1.prems" lt v4 gr
          by (auto simp: read_groups.simps[of l i s] split: prod.splits)
        have "consumed rest r" using "1.IH"[OF lt v4 gr refl rec] .
        moreover have "consumed s rest"
          using gr by (auto simp: bind_eq_Some_conv intro: consumed_trans
              dest: read_number_consumed after_sep_consumed)
        ultimately show ?thesis by (rule consumed_trans[rotated])
      qed
    qed
  qed
qed

lemma read_ipv6_consumed: "read_ipv6_addr s = Some (w, r) \<Longrightarrow> consumed s r"
proof -
  assume a: "read_ipv6_addr s = Some (w, r)"
  obtain head b rest where g: "read_groups 8 0 s = (head, b, rest)" by (metis prod_cases3)
  from read_groups_consumed[OF g] have c: "consumed s rest" .
  show ?thesis
  proof (cases "length head = 8")
    case True
    then show ?thesis using a g c by (simp add: read_ipv6_addr_def)
  next
    case False
    have nb: "\<not> b" using a g False by (auto simp: read_ipv6_addr_def)
    obtain r2 where r2: "Option.bind (read_char (CHR '':'') rest) (read_char (CHR '':'')) = Some r2"
      using a g False nb by (auto simp: read_ipv6_addr_def bind_eq_Some_conv split: if_splits)
    obtain tail v r' where t: "read_groups (8 - (length head + 1)) 0 r2 = (tail, v, r')"
      by (metis prod_cases3)
    obtain r1 where "read_char (CHR '':'') rest = Some r1" "read_char (CHR '':'') r1 = Some r2"
      using r2 by (auto simp: bind_eq_Some_conv)
    then have "r' = r" using a g False nb t by (simp add: read_ipv6_addr_def)
    with read_groups_consumed[OF t] have "consumed r2 r" by simp
    moreover have "consumed rest r2"
      using r2 by (auto simp: bind_eq_Some_conv dest!: read_char_consumed) (meson consumed_trans)
    ultimately show ?thesis using c by (meson consumed_trans)
  qed
qed

lemma parse_ip_no_slash: "parse_ip s = Some ip \<Longrightarrow> CHR ''/'' \<notin> set s"
proof -
  assume "parse_ip s = Some ip"
  then have "consumed s []"
    by (auto simp: parse_ip_def split: option.splits prod.splits if_splits
        dest: read_ipv4_consumed read_ipv6_consumed)
  then show ?thesis by (auto simp: consumed_def)
qed

lemma parse_ip_not_cidr: "parse_ip s = Some ip \<Longrightarrow> parse_cidr s = None"
  using parse_ip_no_slash[of s ip] split_once_None[of "CHR ''/''" s]
  by (simp add: parse_cidr_def)

lemma parse_ip_star: "parse_ip (CHR ''*'' # s) = None"
proof -
  have d: "to_digit r (CHR ''*'') = None" for r
    by (simp add: to_digit_def hex_val_def is_ascii_digit_def byte_def)
  then have n: "read_number r m z hi (CHR ''*'' # s) = None" for r m z hi
    by (simp add: read_number_def)
  then have "read_groups 8 0 (CHR ''*'' # s) = ([], False, CHR ''*'' # s)"
    by (simp add: read_groups.simps[of 8 0] after_sep_def read_ipv4_addr_def read_octet_def)
  then show ?thesis using n
    by (simp add: parse_ip_def read_ipv4_addr_def read_octet_def read_ipv6_addr_def)
qed

lemma parse_cidr_star: "parse_cidr (CHR ''*'' # s) = None"
  by (auto simp: parse_cidr_def parse_ip_star split: option.splits)

end
