(* ===== verification/DnsAllow.thy ===== *)
theory DnsAllow
  imports NetAddr "HOL-Library.AList"
begin

text \<open>
  agent/src/dns_allow.rs: names on the egress allowlist, the addresses learned for them from
  observed DNS answers, the parser of those answers, and the manager that keeps the kernel's set of
  addresses in step. \<open>String::from_utf8_lossy\<close> is the argument \<open>lossy\<close>; a hash map is an
  association list (the order of its iterations is not specified by Rust). Positions in the buffer
  cannot overflow: a slice has at most \<open>isize::MAX\<close> bytes.
\<close>

section \<open>The name allowlist\<close>

type_synonym name_allowlist = "string list"

definition allowlist_new :: "string list \<Rightarrow> name_allowlist" where
  "allowlist_new pats =
     filter (\<lambda>p. p \<noteq> [])
       (map (\<lambda>p. to_ascii_lowercase (trim_end_char (CHR ''.'') (trim p))) pats)"

definition name_hit :: "string \<Rightarrow> string \<Rightarrow> bool" where
  "name_hit a p =
     (case strip_prefix ''.'' p of
        Some sfx \<Rightarrow> a = sfx \<or> ends_with a (''.'' @ sfx)
      | None \<Rightarrow> a = p)"

definition matches :: "name_allowlist \<Rightarrow> string \<Rightarrow> string option" where
  "matches pats answered =
     (let a = to_ascii_lowercase (trim_end_char (CHR ''.'') (trim answered))
      in List.find (name_hit a) pats)"

section \<open>Learned addresses\<close>

record learned =
  ln_name :: string
  ln_addr :: ipv4
  ln_expires :: instant

record a_record =
  ar_name :: string
  ar_addr :: ipv4
  ar_ttl_secs :: nat

record learned_allowlist =
  names :: name_allowlist
  live :: "(ipv4 \<times> learned) list"

definition MIN_TTL :: nat where
  "MIN_TTL = from_secs 30"

definition MAX_TTL :: nat where
  "MAX_TTL = from_secs 3600"

definition learned_new :: "name_allowlist \<Rightarrow> learned_allowlist" where
  "learned_new ns = \<lparr>names = ns, live = []\<rparr>"

text \<open>One record of an answer; the second component lists the address if it is newly admitted.\<close>

definition admit_one :: "learned_allowlist \<Rightarrow> a_record \<Rightarrow> instant \<Rightarrow> learned_allowlist \<times> ipv4 list" where
  "admit_one s r now =
     (case matches (names s) (ar_name r) of
        None \<Rightarrow> (s, [])
      | Some name \<Rightarrow>
         (let ttl = clamp_nat MIN_TTL MAX_TTL (from_secs (ar_ttl_secs r));
              expires = now + ttl
          in case map_of (live s) (ar_addr r) of
               Some existing \<Rightarrow>
                 (if ln_expires existing \<ge> expires then s
                  else s\<lparr>live := AList.update (ar_addr r)
                            (existing\<lparr>ln_expires := expires\<rparr>) (live s)\<rparr>, [])
             | None \<Rightarrow>
                 (s\<lparr>live := AList.update (ar_addr r)
                     \<lparr>ln_name = name, ln_addr = ar_addr r, ln_expires = expires\<rparr> (live s)\<rparr>,
                  [ar_addr r])))"

fun observe :: "learned_allowlist \<Rightarrow> a_record list \<Rightarrow> instant \<Rightarrow> learned_allowlist \<times> ipv4 list" where
  "observe s [] now = (s, [])"
| "observe s (r # rs) now =
     (let (s', a) = admit_one s r now; (s'', b) = observe s' rs now in (s'', a @ b))"

definition expire :: "learned_allowlist \<Rightarrow> instant \<Rightarrow> learned_allowlist \<times> ipv4 list" where
  "expire s now =
     (let gone = map fst (filter (\<lambda>(a, l). ln_expires l \<le> now) (live s))
      in (s\<lparr>live := fold AList.delete gone (live s)\<rparr>, gone))"

definition is_allowed :: "learned_allowlist \<Rightarrow> ipv4 \<Rightarrow> instant \<Rightarrow> bool" where
  "is_allowed s a now =
     (case map_of (live s) a of Some l \<Rightarrow> ln_expires l > now | None \<Rightarrow> False)"

definition learned_len :: "learned_allowlist \<Rightarrow> nat" where
  "learned_len s = length (live s)"

definition learned_is_empty :: "learned_allowlist \<Rightarrow> bool" where
  "learned_is_empty s = (live s = [])"

section \<open>The answer parser\<close>

type_synonym bytes = "8 word list"

text \<open>
  \<open>buf.get(i)\<close> and \<open>buf[i]\<close> read the same byte; out of range the first is \<open>None\<close> and the second
  panics, which is the \<open>None\<close> of the whole parser.
\<close>

definition byte_at :: "bytes \<Rightarrow> nat \<Rightarrow> 8 word option" where
  "byte_at buf i = (if i < length buf then Some (buf ! i) else None)"

definition u16_at :: "bytes \<Rightarrow> nat \<Rightarrow> nat option" where
  "u16_at buf i =
     (case (byte_at buf i, byte_at buf (i + 1)) of
        (Some a, Some b) \<Rightarrow> Some (unat a * 256 + unat b) | _ \<Rightarrow> None)"

definition u32_at :: "bytes \<Rightarrow> nat \<Rightarrow> nat option" where
  "u32_at buf i =
     (case (u16_at buf i, u16_at buf (i + 2)) of
        (Some a, Some b) \<Rightarrow> Some (a * 65536 + b) | _ \<Rightarrow> None)"

definition is_pointer :: "8 word \<Rightarrow> bool" where
  "is_pointer b = (and b 0xC0 = 0xC0)"

function skip_name :: "bytes \<Rightarrow> nat \<Rightarrow> nat option" where
  "skip_name buf pos =
     (case byte_at buf pos of
        None \<Rightarrow> None
      | Some b \<Rightarrow>
          if b = 0 then Some (pos + 1)
          else if is_pointer b then Some (pos + 2)
          else let pos' = pos + (1 + unat b)
               in if pos' > length buf then None else skip_name buf pos')"
  by pat_completeness auto
termination
  by (relation "measure (\<lambda>(buf, pos). length buf - pos)")
    (auto simp: byte_at_def split: if_splits)

declare skip_name.simps [simp del]

definition MAX_JUMPS :: nat where
  "MAX_JUMPS = 16"

function read_name_loop ::
  "(bytes \<Rightarrow> string) \<Rightarrow> bytes \<Rightarrow> nat \<Rightarrow> string list \<Rightarrow> nat option \<Rightarrow> nat \<Rightarrow> (string \<times> nat) option"
where
  "read_name_loop lossy buf pos labels after jumps =
     (case byte_at buf pos of
        None \<Rightarrow> None
      | Some b \<Rightarrow>
          if b = 0 then Some (join ''.'' labels, case after of Some a \<Rightarrow> a | None \<Rightarrow> pos + 1)
          else if is_pointer b then
            (case byte_at buf (pos + 1) of
               None \<Rightarrow> None
             | Some b2 \<Rightarrow>
                 let target = or (push_bit 8 (unat (and b 0x3F))) (unat b2);
                     after' = (case after of None \<Rightarrow> Some (pos + 2) | Some a \<Rightarrow> Some a);
                     jumps' = jumps + 1
                 in if jumps' > MAX_JUMPS \<or> target \<ge> length buf then None
                    else read_name_loop lossy buf target labels after' jumps')
          else
            let s = pos + 1; e = s + unat b
            in if e > length buf \<or> length labels > 127 then None
               else read_name_loop lossy buf e
                      (labels @ [lossy (take (unat b) (drop s buf))]) after jumps)"
  by pat_completeness auto
termination
  by (relation "measures [\<lambda>(lossy, buf, pos, labels, after, jumps). 17 - jumps,
                          \<lambda>(lossy, buf, pos, labels, after, jumps). length buf - pos]")
    (auto simp: byte_at_def MAX_JUMPS_def split: if_splits)

declare read_name_loop.simps [simp del]

definition read_name :: "(bytes \<Rightarrow> string) \<Rightarrow> bytes \<Rightarrow> nat \<Rightarrow> (string \<times> nat) option" where
  "read_name lossy buf start = read_name_loop lossy buf start [] None 0"

fun skip_questions :: "bytes \<Rightarrow> nat \<Rightarrow> nat \<Rightarrow> nat option" where
  "skip_questions buf 0 pos = Some pos"
| "skip_questions buf (Suc n) pos =
     (case skip_name buf pos of
        None \<Rightarrow> None
      | Some after \<Rightarrow> if after + 4 > length buf then None else skip_questions buf n (after + 4))"

definition addr_at :: "bytes \<Rightarrow> nat \<Rightarrow> ipv4 option" where
  "addr_at buf pos = map_option word_of_nat (u32_at buf pos)"

text \<open>The answer section; the outer \<open>None\<close> is an index out of range.\<close>

fun read_answers :: "(bytes \<Rightarrow> string) \<Rightarrow> bytes \<Rightarrow> nat \<Rightarrow> nat \<Rightarrow> a_record list option" where
  "read_answers lossy buf 0 pos = Some []"
| "read_answers lossy buf (Suc n) pos =
     (case read_name lossy buf pos of
        None \<Rightarrow> Some []
      | Some (name, pos1) \<Rightarrow>
          if pos1 + 10 > length buf then Some []
          else
            (case (u16_at buf pos1, u32_at buf (pos1 + 4), u16_at buf (pos1 + 8)) of
               (Some rtype, Some ttl, Some rdlen) \<Rightarrow>
                 let pos2 = pos1 + 10
                 in if pos2 + rdlen > length buf then Some []
                    else
                      (case (if rtype = 1 \<and> rdlen = 4
                             then map_option (\<lambda>a. [\<lparr>ar_name = name, ar_addr = a, ar_ttl_secs = ttl\<rparr>])
                                    (addr_at buf pos2)
                             else Some []) of
                         None \<Rightarrow> None
                       | Some found \<Rightarrow>
                           map_option (\<lambda>rs. found @ rs)
                             (read_answers lossy buf n (pos2 + rdlen)))
             | _ \<Rightarrow> None))"

definition parse_a_records :: "(bytes \<Rightarrow> string) \<Rightarrow> bytes \<Rightarrow> a_record list option" where
  "parse_a_records lossy buf =
     (if length buf < 12 then Some []
      else
        (case (u16_at buf 2, u16_at buf 4, u16_at buf 6) of
           (Some flags, Some qdcount, Some ancount) \<Rightarrow>
             if and flags 0x8000 = 0 \<or> and flags 0x000F \<noteq> 0 then Some []
             else if ancount = 0 \<or> ancount > 64 then Some []
             else (case skip_questions buf qdcount 12 of
                     None \<Rightarrow> Some []
                   | Some pos \<Rightarrow> read_answers lossy buf ancount pos)
         | _ \<Rightarrow> None))"

section \<open>The manager\<close>

datatype ebpf_command = AllowEgressIp string | RevokeEgressIp string

text \<open>
  \<open>tx\<close> tells whether the loader's command channel is there. The commands sent are returned; a
  failed send is ignored by the code.
\<close>

definition observe_response ::
  "(bytes \<Rightarrow> string) \<Rightarrow> bool \<Rightarrow> bytes \<Rightarrow> instant \<Rightarrow> learned_allowlist
     \<Rightarrow> (learned_allowlist \<times> ebpf_command list) option" where
  "observe_response lossy tx buf now s =
     (case parse_a_records lossy buf of
        None \<Rightarrow> None
      | Some records \<Rightarrow>
          if records = [] then Some (s, [])
          else let (s', added) = observe s records now
               in if added = [] \<or> \<not> tx then Some (s', [])
                  else Some (s', map (\<lambda>a. AllowEgressIp (show_ipv4 a)) added))"

definition expire_now ::
  "bool \<Rightarrow> instant \<Rightarrow> learned_allowlist \<Rightarrow> learned_allowlist \<times> ebpf_command list" where
  "expire_now tx now s =
     (let (s', gone) = expire s now
      in if gone = [] \<or> \<not> tx then (s', [])
         else (s', map (\<lambda>a. RevokeEgressIp (show_ipv4 a)) gone))"

definition learned_count :: "learned_allowlist \<Rightarrow> nat" where
  "learned_count s = learned_len s"

section \<open>Names by labels\<close>

definition dns_labels :: "string \<Rightarrow> string list" where
  "dns_labels s = split_on (\<lambda>c. c = CHR ''.'') s"

definition normal_name :: "string \<Rightarrow> string" where
  "normal_name q = to_ascii_lowercase (trim_end_char (CHR ''.'') (trim q))"

text \<open>What a pattern covers, said with whole labels.\<close>

fun covers :: "string \<Rightarrow> string \<Rightarrow> bool" where
  "covers [] a = (a = [])"
| "covers (c # cs) a =
     (if c = CHR ''.'' then Sublist.suffix (dns_labels cs) (dns_labels a) else a = c # cs)"

lemma name_hit_covers: "name_hit a p = covers p a"
proof (cases p)
  case Nil
  then show ?thesis by (simp add: name_hit_def strip_prefix_def)
next
  case (Cons c cs)
  show ?thesis
  proof (cases "c = CHR ''.''")
    case True
    then show ?thesis
      using Cons by (simp add: name_hit_def strip_prefix_def dns_labels_def label_suffix_iff)
  next
    case False
    then show ?thesis using Cons by (simp add: name_hit_def strip_prefix_def)
  qed
qed

text \<open>
  An answered name matches the allowlist exactly when one of its patterns covers it, and the
  pattern reported is one that does: a plain pattern covers only itself, a pattern with a leading
  dot covers the names whose labels end with all of its labels. So neither
  \<open>evil-anthropic.com\<close> nor \<open>anthropic.com.attacker.net\<close> is covered by \<open>.anthropic.com\<close>.
\<close>
theorem name_match_is_label_suffix:
  "case matches pats q of
     Some p \<Rightarrow> p \<in> set pats \<and> covers p (normal_name q)
   | None \<Rightarrow> list_all (\<lambda>p. \<not> covers p (normal_name q)) pats"
  unfolding matches_def normal_name_def[symmetric] Let_def
  using find_SomeD[of "name_hit (normal_name q)" pats] find_NoneD[of "name_hit (normal_name q)" pats]
  by (simp add: list_all_iff name_hit_covers split: option.split)

section \<open>Which addresses are admitted, and for how long\<close>

datatype learn_op = ObserveAt "a_record list" instant | ExpireAt instant

fun learn_step :: "learned_allowlist \<Rightarrow> learn_op \<Rightarrow> learned_allowlist" where
  "learn_step s (ObserveAt rs now) = fst (observe s rs now)"
| "learn_step s (ExpireAt now) = fst (expire s now)"

definition offered :: "name_allowlist \<Rightarrow> a_record list \<Rightarrow> instant \<Rightarrow> ipv4 \<Rightarrow> instant list" where
  "offered ns rs now a =
     map (\<lambda>r. now + clamp_nat (from_secs 30) (from_secs 3600) (from_secs (ar_ttl_secs r)))
       (filter (\<lambda>r. ar_addr r = a \<and> matches ns (ar_name r) \<noteq> None) rs)"

text \<open>The expiries the answers of a history offer for an address.\<close>

fun offers :: "name_allowlist \<Rightarrow> learn_op list \<Rightarrow> ipv4 \<Rightarrow> instant list" where
  "offers ns [] a = []"
| "offers ns (ObserveAt rs now # ops) a = offered ns rs now a @ offers ns ops a"
| "offers ns (ExpireAt now # ops) a = offers ns ops a"

fun expiry_time :: "learn_op \<Rightarrow> instant" where
  "expiry_time (ObserveAt rs now) = 0"
| "expiry_time (ExpireAt now) = now"

definition distinct_keys :: "learned_allowlist \<Rightarrow> bool" where
  "distinct_keys s = distinct (map fst (live s))"

lemma observe_fst_snd [simp]:
  "fst (observe s (r # rs) now) = fst (observe (fst (admit_one s r now)) rs now)"
  "snd (observe s (r # rs) now)
   = snd (admit_one s r now) @ snd (observe (fst (admit_one s r now)) rs now)"
  by (simp_all split: prod.split)

declare observe.simps(2) [simp del]

lemma admit_keeps: "distinct_keys s \<Longrightarrow>
    distinct_keys (fst (admit_one s r now)) \<and> names (fst (admit_one s r now)) = names s"
  by (auto simp: admit_one_def distinct_keys_def Let_def distinct_update split: option.splits)

lemma admit_names: "names (fst (admit_one s r now)) = names s"
  by (auto simp: admit_one_def Let_def split: option.splits)

lemma observe_keeps: "distinct_keys s \<Longrightarrow>
    distinct_keys (fst (observe s rs now)) \<and> names (fst (observe s rs now)) = names s"
  by (induction rs arbitrary: s) (simp_all add: admit_keeps)

lemma observe_names: "names (fst (observe s rs now)) = names s"
  by (induction rs arbitrary: s) (simp_all add: admit_names)

lemma offered_Cons: "offered ns (r # rs) now a = offered ns [r] now a @ offered ns rs now a"
  by (simp add: offered_def)

lemma admit_allowed:
  "is_allowed (fst (admit_one s r now)) a t
   \<longleftrightarrow> is_allowed s a t \<or> (\<exists>e \<in> set (offered (names s) [r] now a). e > t)"
proof (cases "matches (names s) (ar_name r)")
  case None
  then show ?thesis by (simp add: admit_one_def offered_def)
next
  case (Some name)
  show ?thesis
  proof (cases "map_of (live s) (ar_addr r)")
    case None
    then show ?thesis
      using Some by (simp add: admit_one_def offered_def is_allowed_def update_conv' Let_def
          MIN_TTL_def MAX_TTL_def)
  next
    case (Some l)
    then show ?thesis
      using \<open>matches _ _ = Some name\<close>
      by (simp add: admit_one_def offered_def is_allowed_def update_conv' Let_def
          MIN_TTL_def MAX_TTL_def) auto
  qed
qed

lemma observe_allowed:
  "is_allowed (fst (observe s rs now)) a t
   \<longleftrightarrow> is_allowed s a t \<or> (\<exists>e \<in> set (offered (names s) rs now a). e > t)"
proof (induction rs arbitrary: s)
  case Nil
  then show ?case by (simp add: offered_def)
next
  case (Cons r rs)
  then show ?case
    by (simp add: admit_allowed admit_names offered_Cons[of _ r rs] bex_Un disj_assoc)
qed

lemma map_of_fold_delete:
  "map_of (fold AList.delete ks al) a = (if a \<in> set ks then None else map_of al a)"
  by (induction ks arbitrary: al) (auto simp: delete_conv')

lemma distinct_fold_delete:
  "distinct (map fst al) \<Longrightarrow> distinct (map fst (fold AList.delete ks al))"
  by (induction ks arbitrary: al) (auto simp: distinct_delete)

lemma expire_map:
  assumes "distinct_keys s"
  shows "map_of (live (fst (expire s now))) a =
     (case map_of (live s) a of Some l \<Rightarrow> if ln_expires l \<le> now then None else Some l | None \<Rightarrow> None)"
proof (cases "map_of (live s) a")
  case None
  then show ?thesis by (auto simp: expire_def map_of_fold_delete Let_def)
next
  case (Some l)
  let ?gone = "map fst (filter (\<lambda>(a, l). ln_expires l \<le> now) (live s))"
  have d: "distinct (map fst (live s))" using assms by (simp add: distinct_keys_def)
  have "a \<in> set ?gone \<longleftrightarrow> ln_expires l \<le> now"
  proof
    assume "a \<in> set ?gone"
    then obtain l' where l': "(a, l') \<in> set (live s)" "ln_expires l' \<le> now" by auto
    from map_of_is_SomeI[OF d l'(1)] l'(2) Some show "ln_expires l \<le> now" by simp
  next
    assume "ln_expires l \<le> now"
    with map_of_SomeD[OF Some] show "a \<in> set ?gone" by (auto intro!: image_eqI[of _ _ "(a, l)"])
  qed
  then show ?thesis using Some by (simp add: expire_def map_of_fold_delete Let_def)
qed

lemma expire_keeps: "distinct_keys s \<Longrightarrow>
    distinct_keys (fst (expire s now)) \<and> names (fst (expire s now)) = names s"
  by (simp add: expire_def distinct_keys_def distinct_fold_delete Let_def)

lemma expire_allowed:
  "distinct_keys s \<Longrightarrow> now \<le> t \<Longrightarrow> is_allowed (fst (expire s now)) a t = is_allowed s a t"
  by (auto simp: is_allowed_def expire_map split: option.split)

interpretation learned: invariant_system learn_step
  "\<lambda>s. distinct_keys s \<and> names s = ns" for ns
proof unfold_locales
  fix s e
  assume "distinct_keys s \<and> names s = ns"
  then show "distinct_keys (learn_step s e) \<and> names (learn_step s e) = ns"
    using observe_keeps expire_keeps by (cases e) auto
qed

lemma run_allowed:
  "distinct_keys s \<Longrightarrow> list_all (\<lambda>op. expiry_time op \<le> t) ops \<Longrightarrow>
   is_allowed (foldl learn_step s ops) a t
   \<longleftrightarrow> is_allowed s a t \<or> (\<exists>e \<in> set (offers (names s) ops a). e > t)"
proof (induction ops arbitrary: s)
  case (Cons op ops)
  then show ?case
    using learned.step_inv[of s "names s" op]
    by (cases op) (auto simp: observe_allowed expire_allowed observe_names)
qed simp

text \<open>
  C7. After any history of observed answers and expiry sweeps, an address is admitted at time
  \<open>t\<close> (no earlier than the sweeps) exactly when some answer for a matching name offered it until
  after \<open>t\<close>: its TTL counted from the time of the observation, but at least 30 seconds and at most
  an hour. Later answers with shorter TTLs never shorten an admission.
\<close>
theorem admitted_exactly_while_offered:
  assumes "list_all (\<lambda>op. expiry_time op \<le> t) ops"
  shows "is_allowed (foldl learn_step (learned_new ns) ops) a t
         \<longleftrightarrow> list_ex (\<lambda>e. e > t) (offers ns ops a)"
  using run_allowed[of "learned_new ns" t ops a] assms
  by (simp add: learned_new_def distinct_keys_def is_allowed_def list_ex_iff)

theorem admitted_exactly_while_offered_witness:
  "is_allowed (foldl learn_step (learned_new [''a.com''])
      [ObserveAt [\<lparr>ar_name = ''a.com'', ar_addr = 7, ar_ttl_secs = 1\<rparr>] 0, ExpireAt 5]) 7 5"
proof -
  have "matches [''a.com''] ''a.com'' \<noteq> None" by code_simp
  then show ?thesis
    by (subst admitted_exactly_while_offered)
      (simp_all add: offered_def clamp_nat_def from_secs_def)
qed

section \<open>The parser\<close>

lemma u16_at_Some: "i + 1 < length buf \<Longrightarrow> u16_at buf i \<noteq> None"
  by (simp add: u16_at_def byte_at_def)

lemma u32_at_Some: "i + 3 < length buf \<Longrightarrow> u32_at buf i \<noteq> None"
  using u16_at_Some[of i buf] u16_at_Some[of "i + 2" buf]
  by (auto simp: u32_at_def split: option.split)

lemma read_answers_total:
  "\<exists>rs. read_answers lossy buf n pos = Some rs \<and> length rs \<le> n"
proof (induction n arbitrary: pos)
  case (Suc n)
  show ?case
  proof (cases "read_name lossy buf pos")
    case (Some np)
    then obtain name p where np: "read_name lossy buf pos = Some (name, p)" by (cases np) auto
    show ?thesis
    proof (cases "p + 10 > length buf")
      case False
      then obtain rtype ttl rdlen where r: "u16_at buf p = Some rtype"
          "u32_at buf (p + 4) = Some ttl" "u16_at buf (p + 8) = Some rdlen"
        using u16_at_Some[of p buf] u32_at_Some[of "p + 4" buf] u16_at_Some[of "p + 8" buf] by auto
      obtain rs where rs: "read_answers lossy buf n (p + 10 + rdlen) = Some rs" "length rs \<le> n"
        using Suc.IH by blast
      have "length buf < 14 + p \<or> (\<exists>a. addr_at buf (p + 10) = Some a)"
        using u32_at_Some[of "p + 10" buf] by (cases "13 + p < length buf") (auto simp: addr_at_def)
      then show ?thesis
        using np False r rs by (auto simp: Let_def split: option.split)
    qed (simp add: np)
  qed simp
qed simp

lemma dns_total: "\<exists>rs. parse_a_records lossy buf = Some rs \<and> length rs \<le> 64"
proof (cases "length buf < 12")
  case True
  then show ?thesis by (simp add: parse_a_records_def)
next
  case False
  then obtain flags qd an where h: "u16_at buf 2 = Some flags" "u16_at buf 4 = Some qd"
      "u16_at buf 6 = Some an"
    using u16_at_Some[of 2 buf] u16_at_Some[of 4 buf] u16_at_Some[of 6 buf] by auto
  show ?thesis
  proof (cases "skip_questions buf qd 12")
    case None
    then show ?thesis using False h by (simp add: parse_a_records_def)
  next
    case (Some pos)
    then show ?thesis
      using False h read_answers_total[of lossy buf an pos]
      by (auto simp: parse_a_records_def)
  qed
qed


text \<open>A reference encoder, in the wire format of RFC 1035 without compression.\<close>

definition enc16 :: "nat \<Rightarrow> bytes" where
  "enc16 n = [word_of_nat (n div 256), word_of_nat (n mod 256)]"

definition enc32 :: "nat \<Rightarrow> bytes" where
  "enc32 n = enc16 (n div 65536) @ enc16 (n mod 65536)"

definition enc_name :: "bytes list \<Rightarrow> bytes" where
  "enc_name ls = concat (map (\<lambda>l. word_of_nat (length l) # l) ls) @ [0]"

record wire_answer =
  wa_labels :: "bytes list"
  wa_class :: nat
  wa_ttl :: nat
  wa_addr :: ipv4

definition enc_answer :: "wire_answer \<Rightarrow> bytes" where
  "enc_answer w = enc_name (wa_labels w) @ enc16 1 @ enc16 (wa_class w) @ enc32 (wa_ttl w)
                  @ enc16 4 @ enc32 (unat (wa_addr w))"

definition enc_question :: "bytes list \<Rightarrow> bytes" where
  "enc_question ls = enc_name ls @ enc16 1 @ enc16 1"

definition enc_response :: "bytes list list \<Rightarrow> wire_answer list \<Rightarrow> bytes" where
  "enc_response qs ws =
     [0, 0, 0x81, 0x80] @ enc16 (length qs) @ enc16 (length ws) @ [0, 0, 0, 0]
     @ concat (map enc_question qs) @ concat (map enc_answer ws)"

definition valid_labels :: "bytes list \<Rightarrow> bool" where
  "valid_labels ls = (length ls \<le> 128 \<and> list_all (\<lambda>l. 0 < length l \<and> length l < 64) ls)"

definition valid_answer :: "wire_answer \<Rightarrow> bool" where
  "valid_answer w = (valid_labels (wa_labels w) \<and> wa_class w < 65536 \<and> wa_ttl w < 4294967296)"

definition answer_record :: "(bytes \<Rightarrow> string) \<Rightarrow> wire_answer \<Rightarrow> a_record" where
  "answer_record lossy w =
     \<lparr>ar_name = join ''.'' (map lossy (wa_labels w)), ar_addr = wa_addr w, ar_ttl_secs = wa_ttl w\<rparr>"

lemma unat_byte: "n < 256 \<Longrightarrow> unat (word_of_nat n :: 8 word) = n"
  unfolding unsigned_of_nat of_nat_id by (intro take_bit_nat_eq_self) simp

lemma length_enc [simp]: "length (enc16 n) = 2" "length (enc32 n) = 4"
  by (simp_all add: enc16_def enc32_def)

lemma byte_at_app: "byte_at (pre @ b # post) (length pre) = Some b"
  by (simp add: byte_at_def)

lemma u16_at_enc: "n < 65536 \<Longrightarrow> u16_at (pre @ enc16 n @ post) (length pre) = Some n"
proof -
  assume n: "n < 65536"
  then have "n div 256 < 256" by auto
  then show ?thesis
    by (simp add: u16_at_def byte_at_def enc16_def nth_append unat_byte)
qed

lemma u32_at_enc: "n < 4294967296 \<Longrightarrow> u32_at (pre @ enc32 n @ post) (length pre) = Some n"
proof -
  assume n: "n < 4294967296"
  then have hi: "n div 65536 < 65536" by auto
  have "u16_at (pre @ enc32 n @ post) (length pre) = Some (n div 65536)"
    using u16_at_enc[OF hi, of pre "enc16 (n mod 65536) @ post"] by (simp add: enc32_def)
  moreover have "u16_at (pre @ enc32 n @ post) (length pre + 2) = Some (n mod 65536)"
    using u16_at_enc[of "n mod 65536" "pre @ enc16 (n div 65536)" post] by (simp add: enc32_def)
  ultimately show ?thesis by (simp add: u32_at_def)
qed

lemma not_pointer: "n < 64 \<Longrightarrow> \<not> is_pointer (word_of_nat n)"
proof
  assume n: "n < 64" and "is_pointer (word_of_nat n)"
  then have "bit (and (word_of_nat n :: 8 word) 0xC0) 7" by (simp add: is_pointer_def)
  then have "bit (word_of_nat n :: 8 word) 7" by (simp only: bit_and_iff)
  then have "bit (unat (word_of_nat n :: 8 word)) 7" by (simp only: bit_unsigned_iff) simp
  then have "odd (n div 128)" using n by (simp add: unat_byte bit_iff_odd)
  then show False using n by simp
qed

lemma enc_name_Cons: "enc_name (l # ls) = word_of_nat (length l) # l @ enc_name ls"
  by (simp add: enc_name_def)

lemma read_name_enc:
  "length acc + length ls \<le> 128 \<Longrightarrow> list_all (\<lambda>l. 0 < length l \<and> length l < 64) ls \<Longrightarrow>
   read_name_loop lossy (pre @ enc_name ls @ post) (length pre) acc None 0
   = Some (join ''.'' (acc @ map lossy ls), length pre + length (enc_name ls))"
proof (induction ls arbitrary: pre acc)
  case Nil
  then show ?case by (simp add: read_name_loop.simps[of _ _ "length pre"] enc_name_def byte_at_app)
next
  case (Cons l ls)
  let ?b = "word_of_nat (length l) :: 8 word" and ?pre = "pre @ word_of_nat (length l) # l"
  have l: "0 < length l" "length l < 64" using Cons.prems by auto
  then have u: "unat ?b = length l" by (simp add: unat_byte)
  then have nz: "?b \<noteq> 0" using l by auto
  have IH: "read_name_loop lossy (?pre @ enc_name ls @ post) (length ?pre) (acc @ [lossy l]) None 0
     = Some (join ''.'' ((acc @ [lossy l]) @ map lossy ls), length ?pre + length (enc_name ls))"
    using Cons.prems by (intro Cons.IH) auto
  have "byte_at (pre @ enc_name (l # ls) @ post) (length pre) = Some ?b"
    by (simp add: enc_name_Cons byte_at_app)
  moreover have "length pre + 1 + length l \<le> length (pre @ enc_name (l # ls) @ post)"
    by (simp add: enc_name_Cons)
  moreover have "length acc \<le> 127" using Cons.prems by simp
  ultimately show ?case
    using IH nz not_pointer[OF l(2)] u
    by (simp add: read_name_loop.simps[of _ "pre @ enc_name (l # ls) @ post" "length pre"] Let_def)
      (simp add: enc_name_Cons)
qed

lemma skip_name_enc:
  "list_all (\<lambda>l. 0 < length l \<and> length l < 64) ls \<Longrightarrow>
   skip_name (pre @ enc_name ls @ post) (length pre) = Some (length pre + length (enc_name ls))"
proof (induction ls arbitrary: pre)
  case Nil
  then show ?case by (simp add: skip_name.simps[of _ "length pre"] enc_name_def byte_at_app)
next
  case (Cons l ls)
  let ?b = "word_of_nat (length l) :: 8 word" and ?pre = "pre @ word_of_nat (length l) # l"
  have l: "0 < length l" "length l < 64" using Cons.prems by auto
  then have u: "unat ?b = length l" by (simp add: unat_byte)
  then have nz: "?b \<noteq> 0" using l by auto
  have IH: "skip_name (?pre @ enc_name ls @ post) (length ?pre)
     = Some (length ?pre + length (enc_name ls))"
    using Cons.prems by (intro Cons.IH) auto
  have "byte_at (pre @ enc_name (l # ls) @ post) (length pre) = Some ?b"
    by (simp add: enc_name_Cons byte_at_app)
  moreover have "length pre + (1 + length l) \<le> length (pre @ enc_name (l # ls) @ post)"
    by (simp add: enc_name_Cons)
  ultimately show ?case
    using IH nz not_pointer[OF l(2)] u
    by (simp add: skip_name.simps[of "pre @ enc_name (l # ls) @ post" "length pre"] Let_def)
      (simp add: enc_name_Cons)
qed

lemma skip_questions_enc:
  "list_all valid_labels qs \<Longrightarrow>
   skip_questions (pre @ concat (map enc_question qs) @ post) (length qs) (length pre)
   = Some (length pre + length (concat (map enc_question qs)))"
proof (induction qs arbitrary: pre)
  case (Cons q qs)
  let ?buf = "pre @ concat (map enc_question (q # qs)) @ post"
  have "skip_name ?buf (length pre) = Some (length pre + length (enc_name q))"
    using Cons.prems
      skip_name_enc[of q pre "enc16 1 @ enc16 1 @ concat (map enc_question qs) @ post"]
    by (simp add: enc_question_def valid_labels_def)
  moreover have "skip_questions ?buf (length qs) (length (pre @ enc_question q))
     = Some (length (pre @ enc_question q) + length (concat (map enc_question qs)))"
    using Cons.IH[of "pre @ enc_question q"] Cons.prems by simp
  moreover have "length (enc_question q) = length (enc_name q) + 4" by (simp add: enc_question_def)
  moreover have "length (pre @ enc_question q) \<le> length ?buf" by simp
  ultimately show ?case by (simp add: add.assoc)
qed simp

lemma read_answers_enc:
  "list_all valid_answer ws \<Longrightarrow>
   read_answers lossy (pre @ concat (map enc_answer ws)) (length ws) (length pre)
   = Some (map (answer_record lossy) ws)"
proof (induction ws arbitrary: pre)
  case (Cons w ws)
  let ?buf = "pre @ concat (map enc_answer (w # ws))" and ?n = "enc_name (wa_labels w)"
  let ?p = "pre @ ?n" and ?post = "concat (map enc_answer ws)"
  let ?addr = "enc32 (unat (wa_addr w))"
  have buf: "?buf = pre @ ?n @ enc16 1 @ enc16 (wa_class w) @ enc32 (wa_ttl w) @ enc16 4
                    @ ?addr @ ?post"
    by (simp add: enc_answer_def)
  have v: "valid_labels (wa_labels w)" "wa_class w < 65536" "wa_ttl w < 4294967296"
    using Cons.prems by (auto simp: valid_answer_def)
  have name: "read_name lossy ?buf (length pre)
     = Some (join ''.'' (map lossy (wa_labels w)), length ?p)"
    unfolding buf read_name_def using v(1) by (subst read_name_enc) (auto simp: valid_labels_def)
  have "u16_at ?buf (length ?p) = Some 1"
    using u16_at_enc[of 1 ?p] unfolding buf by (simp add: add.assoc)
  moreover have "u32_at ?buf (length ?p + 4) = Some (wa_ttl w)"
    using u32_at_enc[OF v(3), of "?p @ enc16 1 @ enc16 (wa_class w)"] unfolding buf by (simp add: add.assoc)
  moreover have "u16_at ?buf (length ?p + 8) = Some 4"
    using u16_at_enc[of 4 "?p @ enc16 1 @ enc16 (wa_class w) @ enc32 (wa_ttl w)"]
    unfolding buf by (simp add: add.assoc)
  moreover have "unat (wa_addr w) < 4294967296"
    using unsigned_less[of "wa_addr w", where ?'a = nat] by simp
  then have "addr_at ?buf (length ?p + 10) = Some (wa_addr w)"
    using u32_at_enc[of "unat (wa_addr w)"
        "?p @ enc16 1 @ enc16 (wa_class w) @ enc32 (wa_ttl w) @ enc16 4" ?post]
    unfolding buf addr_at_def by (simp add: add.assoc)
  moreover have "read_answers lossy ?buf (length ws) (length (pre @ enc_answer w))
     = Some (map (answer_record lossy) ws)"
    using Cons.IH[of "pre @ enc_answer w"] Cons.prems by simp
  then have "read_answers lossy ?buf (length ws) (length ?p + 10 + 4)
     = Some (map (answer_record lossy) ws)"
    by (simp add: enc_answer_def add.assoc)
  moreover have "length ?p + 10 + 4 \<le> length ?buf" by (simp add: enc_answer_def)
  ultimately show ?case
    using name by (simp add: answer_record_def Let_def)
qed simp



section \<open>The kernel's set\<close>

text \<open>The addresses the loader holds after a list of commands.\<close>

fun apply_command :: "string set \<Rightarrow> ebpf_command \<Rightarrow> string set" where
  "apply_command K (AllowEgressIp a) = insert a K"
| "apply_command K (RevokeEgressIp a) = K - {a}"

datatype manager_op = Response bytes instant | Sweep instant

text \<open>One manager operation with the loader present, and its effect on the kernel's set.\<close>

fun manager_step ::
  "(bytes \<Rightarrow> string) \<Rightarrow> learned_allowlist \<times> string set \<Rightarrow> manager_op
     \<Rightarrow> learned_allowlist \<times> string set" where
  "manager_step lossy (s, K) (Response buf now) =
     (case observe_response lossy True buf now s of
        None \<Rightarrow> (s, K)
      | Some (s', cmds) \<Rightarrow> (s', foldl apply_command K cmds))"
| "manager_step lossy (s, K) (Sweep now) =
     (let (s', cmds) = expire_now True now s in (s', foldl apply_command K cmds))"

definition in_step :: "learned_allowlist \<times> string set \<Rightarrow> bool" where
  "in_step sk = (distinct_keys (fst sk)
                 \<and> snd sk = show_ipv4 ` fst ` set (live (fst sk)))"

lemma show_ipv4_inj [simp]: "show_ipv4 a = show_ipv4 b \<longleftrightarrow> a = b"
  by (metis ip_addr.inject(1) option.inject parse_show_ipv4)

lemma apply_allows:
  "foldl apply_command K (map (\<lambda>a. AllowEgressIp (show_ipv4 a)) as) = K \<union> show_ipv4 ` set as"
  by (induction as arbitrary: K) auto

lemma apply_revokes:
  "foldl apply_command K (map (\<lambda>a. RevokeEgressIp (show_ipv4 a)) as) = K - show_ipv4 ` set as"
  by (induction as arbitrary: K) auto

lemma admit_dom:
  "fst ` set (live (fst (admit_one s r now))) = fst ` set (live s) \<union> set (snd (admit_one s r now))"
  using map_of_eq_None_iff[of "live s" "ar_addr r"]
  by (auto simp: admit_one_def Let_def dom_update insert_absorb weak_map_of_SomeI
      split: option.splits)

lemma observe_dom:
  "fst ` set (live (fst (observe s rs now))) = fst ` set (live s) \<union> set (snd (observe s rs now))"
  by (induction rs arbitrary: s) (auto simp: admit_dom)

lemma expire_dom:
  "fst ` set (live (fst (expire s now))) = fst ` set (live s) - set (snd (expire s now))"
proof -
  have "fst ` set (fold AList.delete ks al) = fst ` set al - set ks"
    for ks and al :: "(ipv4 \<times> learned) list"
    unfolding dom_map_of_conv_image_fst[symmetric]
    by (auto simp: map_of_fold_delete dom_def split: if_splits)
  then show ?thesis by (simp add: expire_def Let_def)
qed

lemma sweep_commands:
  "snd (expire_now True t s) = map (\<lambda>a. RevokeEgressIp (show_ipv4 a)) (snd (expire s t))"
  by (simp add: expire_now_def split: prod.split)

interpretation manager: invariant_system "manager_step lossy" in_step for lossy
proof unfold_locales
  fix sk e
  assume inv: "in_step sk"
  obtain s K where sk: "sk = (s, K)" by (cases sk) auto
  show "in_step (manager_step lossy sk e)"
  proof (cases e)
    case (Response buf now)
    obtain rs where rs: "parse_a_records lossy buf = Some rs"
      using dns_total by blast
    have "observe_response lossy True buf now s
        = Some (fst (observe s rs now),
                map (\<lambda>a. AllowEgressIp (show_ipv4 a)) (snd (observe s rs now)))"
      by (auto simp: observe_response_def rs split: prod.split)
    then show ?thesis
      using inv observe_keeps[of s rs now] observe_dom[of s rs now]
      by (auto simp: sk Response in_step_def apply_allows)
  next
    case (Sweep now)
    have "expire_now True now s
        = (fst (expire s now), map (\<lambda>a. RevokeEgressIp (show_ipv4 a)) (snd (expire s now)))"
      by (auto simp: expire_now_def split: prod.split)
    moreover have "show_ipv4 ` A - show_ipv4 ` B = show_ipv4 ` (A - B)" for A B
      by (auto simp: image_iff)
    ultimately show ?thesis
      using inv expire_keeps[of s now] expire_dom[of s now]
      by (auto simp: sk Sweep in_step_def apply_revokes)
  qed
qed


text \<open>
  A sweep without the loader's channel removes the expired address from the learned list but
  sends no revocation, and no later sweep sends it either: the kernel keeps allowing the address
  (an answer without the channel is likewise never pushed, which the header calls the safe side).
\<close>
theorem sweep_without_channel_is_not_repeated:
  assumes "distinct_keys s" "map_of (live s) a = Some l" "ln_expires l \<le> now"
  shows "snd (expire_now False now s) = [] \<and>
    list_all (\<lambda>t. RevokeEgressIp (show_ipv4 a) \<notin> set (snd (expire_now True t (fst (expire_now False now s)))))
      later"
proof -
  let ?s = "fst (expire_now False now s)"
  have s: "?s = fst (expire s now)" by (simp add: expire_now_def split: prod.split)
  have "map_of (live ?s) a = None"
    using assms by (simp add: s expire_map)
  then have "a \<notin> fst ` set (live ?s)" by (simp add: map_of_eq_None_iff)
  then have "a \<notin> set (snd (expire ?s t))" for t by (auto simp: expire_def Let_def)
  then have "RevokeEgressIp (show_ipv4 a) \<notin> set (snd (expire_now True t ?s))" for t
    by (auto simp: sweep_commands)
  moreover have "snd (expire_now False now s) = []" by (simp add: expire_now_def split: prod.split)
  ultimately show ?thesis by (simp add: list_all_iff)
qed

theorem sweep_without_channel_is_not_repeated_witness:
  "list_all (\<lambda>t. RevokeEgressIp (show_ipv4 7) \<notin> set (snd (expire_now True t
      (fst (expire_now False 5 \<lparr>names = [], live = [(7, \<lparr>ln_name = ''a'', ln_addr = 7, ln_expires = 4\<rparr>)]\<rparr>)))))
    [5, 6]"
  using sweep_without_channel_is_not_repeated[of
      "\<lparr>names = [], live = [(7, \<lparr>ln_name = ''a'', ln_addr = 7, ln_expires = 4\<rparr>)]\<rparr>" 7
      "\<lparr>ln_name = ''a'', ln_addr = 7, ln_expires = 4\<rparr>" 5 "[5, 6]"]
  by (simp add: distinct_keys_def)

end
