(* ===== verification/Capability.thy ===== *)
theory Capability
  imports DnsAllow "HOL-Library.Product_Lexorder" "HOL-Library.List_Lexorder" "HOL-Library.Char_ord"
begin

text \<open>
  agent/src/policy/capability.rs: capability profiles, their validation, the check of events
  against the nearest profiled ancestor, the addresses learned for host names, and the state pushed
  into the kernel.

  Arguments of the model: the debug printer of strings, the outcome of writing the profile file,
  the resolver, the symlink targets in the program directories, the contents of /proc, and the
  agent recogniser. The locks of the engine are never poisoned here (no operation panics while it
  holds one), counters are natural numbers, and hash maps and sets are lists.
\<close>

section \<open>Profiles\<close>

datatype mode = Watch | Enforce

record profile_config =
  pc_name :: string
  pc_agent :: "string option"
  mcp_match :: "string list"
  allow_hosts :: "string list"
  allow_spawn :: bool
  allow_programs :: "string list"
  network_mode :: mode
  programs_mode :: mode

definition default_profile :: profile_config where
  "default_profile =
     \<lparr>pc_name = [], pc_agent = None, mcp_match = [], allow_hosts = [''*''], allow_spawn = True,
      allow_programs = [], network_mode = Watch, programs_mode = Watch\<rparr>"

definition host_label :: "string \<Rightarrow> bool" where
  "host_label l =
     (l \<noteq> [] \<and> length l \<le> 63 \<and> list_all (\<lambda>c. is_ascii_alphanumeric c \<or> c = CHR ''-'') l)"

definition valid_host_entry :: "string \<Rightarrow> bool" where
  "valid_host_entry h =
     (if h = ''*'' \<or> parse_ip h \<noteq> None \<or> parse_cidr h \<noteq> None then True
      else
        let name = (case strip_prefix ''*.'' h of Some n \<Rightarrow> n | None \<Rightarrow> h)
        in name \<noteq> [] \<and> length name \<le> 253 \<and> CHR ''.'' \<in> set name
           \<and> list_all host_label (split_on (\<lambda>c. c = CHR ''.'') name))"

definition valid_name :: "string \<Rightarrow> bool" where
  "valid_name n = (trim n \<noteq> [] \<and> length n \<le> 64 \<and> \<not> has_control n)"

definition valid_agent_id :: "string \<Rightarrow> bool" where
  "valid_agent_id a =
     (a \<noteq> [] \<and> length a \<le> 32
      \<and> list_all (\<lambda>c. is_ascii_alphanumeric c \<or> c = CHR ''-'' \<or> c = CHR ''_'') a)"

definition valid_match :: "string \<Rightarrow> bool" where
  "valid_match m = (\<not> (length (trim m) < 3 \<or> length m > 256 \<or> has_control m))"

definition valid_program :: "string \<Rightarrow> bool" where
  "valid_program p =
     (\<not> (p = [] \<or> length p > 64 \<or> CHR ''/'' \<in> set p \<or> has_control p \<or> has_whitespace p))"

definition en_dash :: string where
  "en_dash = [CHR 0xE2, CHR 0x80, CHR 0x93]"

definition validate :: "(string \<Rightarrow> string) \<Rightarrow> profile_config \<Rightarrow> string + unit" where
  "validate dbg p =
     (if \<not> valid_name (pc_name p)
      then Inl (''name must be 1'' @ en_dash @ ''64 printable characters'')
      else
        case (case (pc_agent p, mcp_match p = []) of
                (Some a, True) \<Rightarrow>
                  if valid_agent_id a then None
                  else Some ''agent must be an agent id like claude or codex''
              | (None, False) \<Rightarrow>
                  if list_all valid_match (mcp_match p) then None
                  else Some (''each MCP match string must be 3'' @ en_dash
                             @ ''256 printable characters'')
              | (Some _, False) \<Rightarrow> Some ''a profile is for an agent or an MCP server, not both''
              | (None, True) \<Rightarrow> Some ''set agent, or mcp_match for an MCP server'') of
          Some e \<Rightarrow> Inl e
        | None \<Rightarrow>
           if length (allow_hosts p) > 256 then Inl ''at most 256 allowed hosts''
           else
             case List.find (\<lambda>h. \<not> valid_host_entry h) (allow_hosts p) of
               Some h \<Rightarrow> Inl (dbg h @ '' is not a host name, *.domain, IP address or IP range'')
             | None \<Rightarrow>
                if length (allow_programs p) > 256 then Inl ''at most 256 allowed programs''
                else
                  case List.find (\<lambda>g. \<not> valid_program g) (allow_programs p) of
                    Some g \<Rightarrow> Inl (dbg g @ '' is not a program name (use the name, not a path)'')
                  | None \<Rightarrow> Inr ())"

definition profile_kind :: "profile_config \<Rightarrow> string" where
  "profile_kind p = (if pc_agent p \<noteq> None then ''agent'' else ''mcp'')"

text \<open>\<open>load_profiles\<close>: the file when it parses, else the configuration, less the invalid ones.\<close>

definition load_profiles ::
  "(string \<Rightarrow> string) \<Rightarrow> profile_config list option \<Rightarrow> profile_config list \<Rightarrow> profile_config list" where
  "load_profiles dbg from_file configured =
     filter (\<lambda>p. is_ok (validate dbg p)) (case from_file of Some v \<Rightarrow> v | None \<Rightarrow> configured)"

section \<open>The engine\<close>

record violation =
  v_profile :: string
  v_rule :: string
  v_detail :: string
  v_pid :: nat
  v_process :: string
  v_at :: int

record profile_stats =
  st_allowed :: nat
  st_would_block :: nat

record capability_engine =
  profiles :: "profile_config list"
  resolved :: "(string \<times> ip_addr list) list"
  stats :: "(string \<times> profile_stats) list"
  recent :: "(string \<times> violation list) list"
  ce_learned :: "(string \<times> (ipv4 \<times> instant) list) list"
  names_ready :: bool
  seen_names :: "string list"

definition RECENT_PER_PROFILE :: nat where
  "RECENT_PER_PROFILE = 20"

definition MAX_ANCESTRY :: nat where
  "MAX_ANCESTRY = 32"

definition MAX_SEEN_NAMES :: nat where
  "MAX_SEEN_NAMES = 2048"

definition MIN_LEARN_TTL :: nat where
  "MIN_LEARN_TTL = from_secs 60"

definition MAX_LEARN_TTL :: nat where
  "MAX_LEARN_TTL = from_secs 3600"

definition engine_new :: "string list \<Rightarrow> profile_config list \<Rightarrow> capability_engine" where
  "engine_new seen ps =
     \<lparr>profiles = ps, resolved = [], stats = [], recent = [], ce_learned = [],
      names_ready = False, seen_names = seen\<rparr>"

text \<open>\<open>saved\<close> is the outcome of writing the file.\<close>

definition replace_profiles ::
  "string + unit \<Rightarrow> profile_config list \<Rightarrow> capability_engine
     \<Rightarrow> (string + profile_config list) \<times> capability_engine" where
  "replace_profiles saved list e =
     (case saved of Inl err \<Rightarrow> (Inl err, e) | Inr _ \<Rightarrow> (Inr list, e\<lparr>profiles := list\<rparr>))"

fun set_or_push :: "profile_config \<Rightarrow> profile_config list \<Rightarrow> profile_config list" where
  "set_or_push p [] = [p]"
| "set_or_push p (x # xs) = (if pc_name x = pc_name p then p # xs else x # set_or_push p xs)"

definition upsert ::
  "(string \<Rightarrow> string) \<Rightarrow> string + unit \<Rightarrow> profile_config \<Rightarrow> capability_engine
     \<Rightarrow> (string + profile_config list) \<times> capability_engine" where
  "upsert dbg saved p e =
     (case validate dbg p of
        Inl err \<Rightarrow> (Inl err, e)
      | Inr _ \<Rightarrow> replace_profiles saved (set_or_push p (profiles e)) e)"

definition remove_profile ::
  "(string \<Rightarrow> string) \<Rightarrow> string + unit \<Rightarrow> string \<Rightarrow> capability_engine
     \<Rightarrow> (string + profile_config list) \<times> capability_engine" where
  "remove_profile dbg saved name e =
     (let list = filter (\<lambda>x. pc_name x \<noteq> name) (profiles e)
      in if length list = length (profiles e) then (Inl (''no profile named '' @ dbg name), e)
         else replace_profiles saved list e)"

definition engine_is_empty :: "capability_engine \<Rightarrow> bool" where
  "engine_is_empty e = (profiles e = [])"

section \<open>Names and addresses\<close>

definition host_matches :: "string \<Rightarrow> string \<Rightarrow> bool" where
  "host_matches pattern host =
     (let host = to_ascii_lowercase (trim_end_char (CHR ''.'') host);
          pattern = to_ascii_lowercase pattern
      in case strip_prefix ''*.'' pattern of
           Some sfx \<Rightarrow> host = sfx \<or> ends_with host (''.'' @ sfx)
         | None \<Rightarrow> host = pattern)"

definition all_hosts :: "capability_engine \<Rightarrow> string list" where
  "all_hosts e = concat (map allow_hosts (profiles e))"

definition is_name :: "string \<Rightarrow> bool" where
  "is_name h = (parse_ip h = None \<and> parse_cidr h = None)"

definition add_ips :: "string \<Rightarrow> ip_addr list \<Rightarrow> (string \<times> ip_addr list) list
    \<Rightarrow> (string \<times> ip_addr list) list" where
  "add_ips h ips out =
     AList.update h ((case map_of out h of Some xs \<Rightarrow> xs | None \<Rightarrow> []) @ ips) out"

definition refresh_dns :: "(string \<Rightarrow> ip_addr list option) \<Rightarrow> capability_engine \<Rightarrow> capability_engine" where
  "refresh_dns lookup_host e =
     (let hosts = filter (\<lambda>h. h \<noteq> ''*'' \<and> \<not> starts_with h ''*.'' \<and> is_name h) (all_hosts e);
          wildcards = filter (\<lambda>h. starts_with h ''*.'') (all_hosts e);
          out1 = foldl (\<lambda>out name.
                   let pats = filter (\<lambda>w. host_matches w name) wildcards
                   in if pats = [] then out
                      else case lookup_host name of
                             Some ips \<Rightarrow> foldl (\<lambda>o' w. add_ips w ips o') out pats
                           | None \<Rightarrow> out) [] (seen_names e);
          out2 = foldl (\<lambda>out h. case lookup_host h of
                             Some ips \<Rightarrow> add_ips h ips out | None \<Rightarrow> out) out1 hosts
      in e\<lparr>resolved := out2, names_ready := True\<rparr>)"

definition host_allowed ::
  "capability_engine \<Rightarrow> profile_config \<Rightarrow> ip_addr \<Rightarrow> string option \<Rightarrow> bool" where
  "host_allowed e p ip host =
     (if is_loopback ip then True
      else list_ex (\<lambda>h.
        if h = ''*'' then True
        else case parse_ip h of
          Some a \<Rightarrow> a = ip
        | None \<Rightarrow>
          (case parse_cidr h of
             Some (net, len) \<Rightarrow> in_cidr ip net len
           | None \<Rightarrow>
             (case host of Some name \<Rightarrow> host_matches h name | None \<Rightarrow> False)
             \<or> (case ip of
                  V4 a \<Rightarrow> (case map_of (ce_learned e) h of
                             Some m \<Rightarrow> map_of m a \<noteq> None | None \<Rightarrow> False)
                | V6 _ \<Rightarrow> False)
             \<or> (case map_of (resolved e) h of Some ips \<Rightarrow> ip \<in> set ips | None \<Rightarrow> False)))
        (allow_hosts p))"

section \<open>Attribution and the check\<close>

datatype event_shape = Connect ip_addr nat "string option" | Exec string

definition mcp_hit :: "string \<Rightarrow> profile_config \<Rightarrow> bool" where
  "mcp_hit cmdline p = (mcp_match p \<noteq> [] \<and> list_all (contains cmdline) (mcp_match p))"

fun attribute_from ::
  "profile_config list \<Rightarrow> (nat \<Rightarrow> string \<Rightarrow> string option) \<Rightarrow> nat \<Rightarrow> (nat \<times> string) list
     \<Rightarrow> (profile_config \<times> nat) option" where
  "attribute_from ps agent_of depth [] = None"
| "attribute_from ps agent_of depth ((pid, cmdline) # rest) =
     (case List.find (mcp_hit cmdline) ps of
        Some p \<Rightarrow> Some (p, depth)
      | None \<Rightarrow>
         (case (case agent_of pid cmdline of
                  Some agent \<Rightarrow> List.find (\<lambda>p. pc_agent p = Some agent) ps
                | None \<Rightarrow> None) of
            Some p \<Rightarrow> Some (p, depth)
          | None \<Rightarrow> attribute_from ps agent_of (depth + 1) rest))"

definition attribute ::
  "profile_config list \<Rightarrow> (nat \<times> string) list \<Rightarrow> (nat \<Rightarrow> string \<Rightarrow> string option)
     \<Rightarrow> (profile_config \<times> nat) option" where
  "attribute ps ancestry agent_of = attribute_from ps agent_of 0 (take MAX_ANCESTRY ancestry)"

definition judge ::
  "capability_engine \<Rightarrow> profile_config \<Rightarrow> nat \<Rightarrow> event_shape \<Rightarrow> (string \<times> string) option" where
  "judge e p depth kind =
     (case kind of
        Connect ip port host \<Rightarrow>
          if host_allowed e p ip host then None
          else let shown = (case host of Some h \<Rightarrow> h | None \<Rightarrow> show_ip ip)
               in Some (''network'', ''connected to '' @ shown @ '':'' @ show_nat port
                                      @ '', not an allowed host'')
      | Exec program \<Rightarrow>
          if depth = 0 then None
          else if \<not> allow_spawn p
            then Some (''spawn'', ''started '' @ program @ ''; this profile may not start programs'')
          else if allow_programs p \<noteq> [] \<and> program \<notin> set (allow_programs p)
            then Some (''program'', ''started '' @ program @ '', not an allowed program'')
          else None)"

definition stats_of :: "capability_engine \<Rightarrow> string \<Rightarrow> profile_stats" where
  "stats_of e n =
     (case map_of (stats e) n of Some s \<Rightarrow> s | None \<Rightarrow> \<lparr>st_allowed = 0, st_would_block = 0\<rparr>)"

definition recent_of :: "capability_engine \<Rightarrow> string \<Rightarrow> violation list" where
  "recent_of e n = (case map_of (recent e) n of Some q \<Rightarrow> q | None \<Rightarrow> [])"

definition check ::
  "int \<Rightarrow> event_shape \<Rightarrow> nat \<Rightarrow> string \<Rightarrow> (nat \<times> string) list
     \<Rightarrow> (nat \<Rightarrow> string \<Rightarrow> string option) \<Rightarrow> capability_engine
     \<Rightarrow> violation option \<times> capability_engine" where
  "check now kind pid process ancestry agent_of e =
     (case attribute (profiles e) ancestry agent_of of
        None \<Rightarrow> (None, e)
      | Some (p, depth) \<Rightarrow>
         (let name = pc_name p; s = stats_of e name
          in case judge e p depth kind of
               None \<Rightarrow> (None, e\<lparr>stats := AList.update name (s\<lparr>st_allowed := st_allowed s + 1\<rparr>)
                                          (stats e)\<rparr>)
             | Some (rule, detail) \<Rightarrow>
                 let v = \<lparr>v_profile = name, v_rule = rule, v_detail = detail, v_pid = pid,
                          v_process = process, v_at = now\<rparr>
                 in (Some v,
                     e\<lparr>stats := AList.update name (s\<lparr>st_would_block := st_would_block s + 1\<rparr>)
                                 (stats e),
                       recent := AList.update name
                                   (take RECENT_PER_PROFILE (v # recent_of e name)) (recent e)\<rparr>)))"

section \<open>Kernel state\<close>

definition slot_of :: "nat \<Rightarrow> nat option" where
  "slot_of index = (if index + 2 \<le> 255 then Some (index + 2) else None)"

fun position :: "('a \<Rightarrow> bool) \<Rightarrow> 'a list \<Rightarrow> nat option" where
  "position P [] = None"
| "position P (x # xs) = (if P x then Some 0 else map_option Suc (position P xs))"

definition slot_for_agent :: "capability_engine \<Rightarrow> string \<Rightarrow> nat option" where
  "slot_for_agent e agent = Option.bind (position (\<lambda>p. pc_agent p = Some agent) (profiles e)) slot_of"

definition mcp_slot_for :: "capability_engine \<Rightarrow> string \<Rightarrow> nat option" where
  "mcp_slot_for e cmdline = Option.bind (position (mcp_hit cmdline) (profiles e)) slot_of"

definition any_enforced :: "capability_engine \<Rightarrow> bool" where
  "any_enforced e = list_ex (\<lambda>p. network_mode p = Enforce \<or> programs_mode p = Enforce) (profiles e)"

record kernel_profiles =
  kp_names :: "(string \<times> nat) list"
  kp_policies :: "(nat \<times> bool \<times> bool \<times> bool) list"
  kp_programs :: "(nat \<times> string) list"
  kp_hosts :: "(nat \<times> ipv4 \<times> nat) list"

definition agent_process_names :: "string \<Rightarrow> string list" where
  "agent_process_names agent =
     (if agent = ''claude'' then [''claude'']
      else if agent = ''codex'' then [''codex'']
      else if agent = ''cursor'' then [''cursor-agent'', ''agent'']
      else if agent = ''gemini'' then [''gemini'']
      else if agent = ''aider'' then [''aider'']
      else if agent = ''opencode'' then [''opencode'', ''opencode.exe'']
      else if agent = ''windsurf'' then [''windsurf'']
      else if agent = ''copilot'' then [''copilot'']
      else if agent = ''devin'' then [''devin'']
      else [])"

definition PROGRAM_DIRS :: "string list" where
  "PROGRAM_DIRS =
     [''/usr/local/sbin'', ''/usr/local/bin'', ''/usr/sbin'', ''/usr/bin'', ''/sbin'', ''/bin'']"

text \<open>\<open>canon path\<close> is the file name of the canonical path, when it exists and is UTF-8.\<close>

definition real_program_names :: "(string \<Rightarrow> string option) \<Rightarrow> string \<Rightarrow> string list" where
  "real_program_names canon name =
     foldl (\<lambda>out d. case canon (d @ ''/'' @ name) of
                      Some f \<Rightarrow> if f \<noteq> name \<and> f \<notin> set out then out @ [f] else out
                    | None \<Rightarrow> out) [] PROGRAM_DIRS"

definition net_enforced :: "capability_engine \<Rightarrow> profile_config \<Rightarrow> bool" where
  "net_enforced e p =
     (let any_host = ''*'' \<in> set (allow_hosts p);
          names_pending = (\<not> names_ready e \<and> list_ex is_name (allow_hosts p))
      in network_mode p = Enforce \<and> \<not> any_host \<and> \<not> names_pending)"

definition prog_enforced :: "profile_config \<Rightarrow> bool" where
  "prog_enforced p =
     (let prog_limited = (\<not> allow_spawn p \<or> allow_programs p \<noteq> [])
      in programs_mode p = Enforce \<and> prog_limited)"

definition name_entries ::
  "instant \<Rightarrow> capability_engine \<Rightarrow> nat \<Rightarrow> string \<Rightarrow> (nat \<times> ipv4 \<times> nat) list" where
  "name_entries now e slot h =
     concat (map (\<lambda>ip. case ip of V4 a \<Rightarrow> [(slot, a, 32)] | V6 _ \<Rightarrow> [])
       (case map_of (resolved e) h of Some ips \<Rightarrow> ips | None \<Rightarrow> []))
     @ map (\<lambda>(a, _). (slot, a, 32))
         (filter (\<lambda>(_, exp). exp > now)
           (case map_of (ce_learned e) h of Some m \<Rightarrow> m | None \<Rightarrow> []))"

definition host_entries ::
  "instant \<Rightarrow> capability_engine \<Rightarrow> nat \<Rightarrow> string \<Rightarrow> (nat \<times> ipv4 \<times> nat) list" where
  "host_entries now e slot h =
     (case parse_ip h of
        Some (V4 a) \<Rightarrow> [(slot, a, 32)]
      | _ \<Rightarrow>
        (case parse_cidr h of
           Some (V4 n, len) \<Rightarrow> [(slot, n, len)]
         | _ \<Rightarrow> name_entries now e slot h))"

definition kernel_profile ::
  "(string \<Rightarrow> string option) \<Rightarrow> instant \<Rightarrow> capability_engine \<Rightarrow> nat \<Rightarrow> profile_config
     \<Rightarrow> kernel_profiles \<Rightarrow> kernel_profiles" where
  "kernel_profile canon now e slot p out =
     (let names = (case pc_agent p of
                     Some agent \<Rightarrow> map (\<lambda>n. (n, slot)) (agent_process_names agent)
                   | None \<Rightarrow> []);
          progs = concat (map (\<lambda>g. (slot, g) # map (Pair slot) (real_program_names canon g))
                    (allow_programs p));
          hosts = concat (map (host_entries now e slot) (allow_hosts p))
      in \<lparr>kp_names = kp_names out @ names,
          kp_policies = kp_policies out @ [(slot, prog_enforced p, allow_spawn p, net_enforced e p)],
          kp_programs = (if prog_enforced p then remdups_adj (sort (kp_programs out @ progs))
                         else kp_programs out),
          kp_hosts = (if net_enforced e p then kp_hosts out @ hosts else kp_hosts out)\<rparr>)"

fun kernel_loop ::
  "(string \<Rightarrow> string option) \<Rightarrow> instant \<Rightarrow> capability_engine \<Rightarrow> nat \<Rightarrow> profile_config list
     \<Rightarrow> kernel_profiles \<Rightarrow> kernel_profiles" where
  "kernel_loop canon now e i [] out = out"
| "kernel_loop canon now e i (p # ps) out =
     (case slot_of i of
        None \<Rightarrow> out
      | Some slot \<Rightarrow> kernel_loop canon now e (i + 1) ps (kernel_profile canon now e slot p out))"

definition kernel_state ::
  "(string \<Rightarrow> string option) \<Rightarrow> instant \<Rightarrow> capability_engine \<Rightarrow> kernel_profiles" where
  "kernel_state canon now e =
     (let out = kernel_loop canon now e 0 (profiles e)
                  \<lparr>kp_names = [], kp_policies = [], kp_programs = [], kp_hosts = []\<rparr>
      in out\<lparr>kp_hosts := remdups_adj (sort (kp_hosts out))\<rparr>)"

section \<open>Learning from DNS answers\<close>

text \<open>A record under one pattern: the address with its new expiry, and whether it was unknown.\<close>

definition learn_one ::
  "instant \<Rightarrow> a_record \<Rightarrow> string \<Rightarrow> capability_engine \<times> bool \<Rightarrow> capability_engine \<times> bool" where
  "learn_one now r pat st =
     (let (e, new) = st;
          ttl = clamp_nat MIN_LEARN_TTL MAX_LEARN_TTL (from_secs (ar_ttl_secs r));
          m = (case map_of (ce_learned e) pat of Some m \<Rightarrow> m | None \<Rightarrow> []);
          e1 = e\<lparr>ce_learned := AList.update pat (AList.update (ar_addr r) (now + ttl) m)
                                (ce_learned e)\<rparr>;
          new1 = (new \<or> map_of m (ar_addr r) = None);
          name = to_ascii_lowercase (trim_end_char (CHR ''.'') (ar_name r));
          e2 = (if starts_with pat ''*.'' \<and> length (seen_names e1) < MAX_SEEN_NAMES
                   \<and> name \<notin> set (seen_names e1)
                then e1\<lparr>seen_names := seen_names e1 @ [name]\<rparr> else e1)
      in (e2, new1))"

definition learn_dns :: "instant \<Rightarrow> a_record list \<Rightarrow> capability_engine \<Rightarrow> capability_engine \<times> bool" where
  "learn_dns now records e =
     (let patterns = filter (\<lambda>h. h \<noteq> ''*'' \<and> is_name h) (all_hosts e)
      in if patterns = [] then (e, False)
         else foldl (\<lambda>st r. foldl (\<lambda>st pat. learn_one now r pat st) st
                               (filter (\<lambda>pat. host_matches pat (ar_name r)) patterns))
                (e, False) records)"

definition expire_learned :: "instant \<Rightarrow> capability_engine \<Rightarrow> capability_engine \<times> bool" where
  "expire_learned now e =
     (let kept = map (\<lambda>(h, m). (h, filter (\<lambda>(_, exp). exp > now) m)) (ce_learned e);
          gone = list_ex (\<lambda>(_, m). length (filter (\<lambda>(_, exp). exp > now) m) \<noteq> length m)
                   (ce_learned e)
      in (e\<lparr>ce_learned := kept\<rparr>, gone))"

section \<open>Reports, targets and ancestry\<close>

record profile_report =
  pr_config :: profile_config
  pr_kind :: string
  pr_stats :: profile_stats
  pr_recent :: "violation list"

definition report :: "capability_engine \<Rightarrow> profile_report list" where
  "report e = map (\<lambda>c. \<lparr>pr_config = c, pr_kind = profile_kind c,
                       pr_stats = stats_of e (pc_name c), pr_recent = recent_of e (pc_name c)\<rparr>)
                (profiles e)"

definition parse_target :: "string \<Rightarrow> (ip_addr \<times> nat) option" where
  "parse_target target =
     (case rsplit_once (CHR '':'') target of
        None \<Rightarrow> None
      | Some (host, port) \<Rightarrow>
         (let host = trim_end_char (CHR '']'') (trim_start_char (CHR ''['') host)
          in case (parse_ip host, parse_u16 port) of
               (Some ip, Some n) \<Rightarrow> Some (ip, n) | _ \<Rightarrow> None))"

text \<open>What /proc shows of a process: the command line (decoded), the name and the status line.\<close>

record proc_fs =
  proc_cmdline :: "nat \<Rightarrow> string option"
  proc_comm :: "nat \<Rightarrow> string option"
  proc_stat :: "nat \<Rightarrow> string option"

definition parse_u32 :: "string \<Rightarrow> nat option" where
  "parse_u32 = parse_uint 4294967295"

definition parent_of :: "string \<Rightarrow> nat option" where
  "parent_of stat =
     Option.bind (rsplit_once (CHR '')'') stat) (\<lambda>(_, after).
       case split_whitespace after of _ # p # _ \<Rightarrow> parse_u32 p | _ \<Rightarrow> None)"

definition shown_cmdline :: "proc_fs \<Rightarrow> nat \<Rightarrow> string" where
  "shown_cmdline P cur =
     (let cmdline = (case proc_cmdline P cur of
                       Some b \<Rightarrow> trim (map (\<lambda>c. if c = CHR 0x00 then CHR '' '' else c) b)
                     | None \<Rightarrow> []);
          comm = (case proc_comm P cur of Some s \<Rightarrow> trim s | None \<Rightarrow> [])
      in if cmdline = [] then comm else cmdline)"

fun ancestry_loop :: "proc_fs \<Rightarrow> nat \<Rightarrow> nat \<Rightarrow> (nat \<times> string) list" where
  "ancestry_loop P 0 cur = []"
| "ancestry_loop P (Suc n) cur =
     (if cur \<le> 1 then []
      else (cur, shown_cmdline P cur) #
        (case Option.bind (proc_stat P cur) parent_of of
           Some p \<Rightarrow> if p \<noteq> cur then ancestry_loop P n p else []
         | None \<Rightarrow> []))"

definition ancestry :: "proc_fs \<Rightarrow> nat \<Rightarrow> (nat \<times> string) list" where
  "ancestry P pid = ancestry_loop P MAX_ANCESTRY pid"

section \<open>Slots and the policy table\<close>

lemma slot_of_Some: "slot_of i = Some s \<longleftrightarrow> i < 254 \<and> s = i + 2"
  by (auto simp: slot_of_def)

lemma slot_of_None: "slot_of i = None \<longleftrightarrow> 254 \<le> i"
  by (auto simp: slot_of_def)

lemma kernel_profile_policies [simp]:
  "kp_policies (kernel_profile canon now e slot p out)
   = kp_policies out @ [(slot, prog_enforced p, allow_spawn p, net_enforced e p)]"
  by (simp add: kernel_profile_def Let_def)

lemma kernel_loop_policies:
  "kp_policies (kernel_loop canon now e i ps out)
   = kp_policies out @ map (\<lambda>j. (i + j + 2, prog_enforced (ps ! j), allow_spawn (ps ! j),
                                  net_enforced e (ps ! j))) [0..<min (254 - i) (length ps)]"
proof (induction ps arbitrary: i out)
  case (Cons p ps)
  show ?case
  proof (cases "slot_of i")
    case None
    moreover from None have "254 \<le> i" by (simp only: slot_of_None)
    ultimately show ?thesis by simp
  next
    case (Some s)
    then have i: "i < 254" "s = i + 2" by (simp_all add: slot_of_Some)
    then have m: "min (254 - i) (length (p # ps)) = Suc (min (254 - Suc i) (length ps))" by simp
    show ?thesis unfolding m upt_conv_Cons[OF zero_less_Suc] map_Suc_upt[symmetric]
      using Some i Cons.IH[of "i + 1"] by simp
  qed
qed simp

lemma kernel_policy_table_rule:
  "kp_policies (kernel_state canon now e)
   = map (\<lambda>i. (i + 2, prog_enforced (profiles e ! i), allow_spawn (profiles e ! i),
               net_enforced e (profiles e ! i))) [0..<min 254 (length (profiles e))]"
  by (simp add: kernel_state_def Let_def kernel_loop_policies)

text \<open>
  The policy table pushed into the kernel is exact: profile number i, counted from zero, is in
  slot i + 2 with its own switches, in order, and each switch says what the profile says. Only the
  first 254 profiles get a slot: a later profile, even one in enforce mode, is nowhere in the table
  and the kernel never judges by it.
\<close>
theorem kernel_policy_table_exact:
  "kp_policies (kernel_state canon now e)
   = map (\<lambda>i. (i + 2, prog_enforced (profiles e ! i), allow_spawn (profiles e ! i),
               net_enforced e (profiles e ! i))) [0..<min 254 (length (profiles e))]"
  by (rule kernel_policy_table_rule)

text \<open>The profile whose rules the kernel applies to a process tagged with a slot.\<close>

definition slot_owner :: "capability_engine \<Rightarrow> nat \<Rightarrow> profile_config option" where
  "slot_owner e slot =
     (if 2 \<le> slot \<and> slot \<le> 255 \<and> slot - 2 < length (profiles e)
      then Some (profiles e ! (slot - 2)) else None)"

text \<open>
  Removing a profile renumbers the slots of all profiles after it, while a process keeps the
  slot it was tagged with: the tree of the profile q behind the removed one is judged by the
  profile behind q from then on, and by none at all (no entry in the policy table, so nothing is
  refused) when q was the last.
\<close>
theorem removal_rebinds_tagged_trees:
  assumes "profiles e = xs @ p # q # ys" "distinct (map pc_name (profiles e))" "length xs < 253"
  shows "let e' = snd (remove_profile dbg (Inr ()) (pc_name p) e); s = length xs + 3
    in slot_owner e s = Some q
       \<and> slot_owner e' s = (case ys of [] \<Rightarrow> None | y # _ \<Rightarrow> Some y)
       \<and> (ys = [] \<longrightarrow> s \<notin> fst ` set (kp_policies (kernel_state canon now e')))"
proof -
  have keep: "filter (\<lambda>x. pc_name x \<noteq> n) zs = zs" if "n \<notin> pc_name ` set zs" for n zs
    using that by (metis (mono_tags, lifting) filter_id_conv imageI)
  have "filter (\<lambda>x. pc_name x \<noteq> pc_name p) xs = xs" "filter (\<lambda>x. pc_name x \<noteq> pc_name p) ys = ys"
    using assms(1,2) by (simp_all add: keep)
  moreover have "pc_name q \<noteq> pc_name p" using assms(1,2) by auto
  ultimately have "filter (\<lambda>x. pc_name x \<noteq> pc_name p) (profiles e) = xs @ q # ys"
    by (simp add: assms(1))
  then have e': "profiles (snd (remove_profile dbg (Inr ()) (pc_name p) e)) = xs @ q # ys"
    by (simp add: remove_profile_def replace_profiles_def assms(1) Let_def)
  show ?thesis
    unfolding Let_def kernel_policy_table_rule
    using assms(1,3) e'
    by (cases ys) (auto simp: slot_owner_def nth_append)
qed

definition agent_profile :: "string \<Rightarrow> profile_config" where
  "agent_profile n = default_profile\<lparr>pc_name := n, pc_agent := Some n, allow_hosts := [''*.a.com''],
                       network_mode := Enforce\<rparr>"

theorem removal_rebinds_tagged_trees_witness:
  "let e = engine_new [] [agent_profile ''claude'', agent_profile ''codex''];
       e' = snd (remove_profile id (Inr ()) ''claude'' e)
   in slot_owner e 3 = Some (agent_profile ''codex'') \<and> slot_owner e' 3 = None
      \<and> 3 \<notin> fst ` set (kp_policies (kernel_state (\<lambda>_. None) 0 e'))"
  using removal_rebinds_tagged_trees[of "engine_new [] [agent_profile ''claude'', agent_profile ''codex'']"
      "[]" "agent_profile ''claude''" "agent_profile ''codex''" "[]" id "\<lambda>_. None" 0]
  by (simp add: engine_new_def agent_profile_def Let_def)

section \<open>The kernel's hosts refine the check\<close>

definition kernel_admits :: "kernel_profiles \<Rightarrow> nat \<Rightarrow> ipv4 \<Rightarrow> bool" where
  "kernel_admits K slot a =
     list_ex (\<lambda>(s, n, l). s = slot \<and> in_cidr (V4 a) (V4 n) l) (kp_hosts K)"

text \<open>Looked-up and learned addresses are filed under names, never under addresses or ranges.\<close>

definition filed_by_name :: "capability_engine \<Rightarrow> bool" where
  "filed_by_name e = (list_all (is_name \<circ> fst) (resolved e) \<and> list_all (is_name \<circ> fst) (ce_learned e))"

definition unexpired :: "instant \<Rightarrow> capability_engine \<Rightarrow> bool" where
  "unexpired now e = list_all (\<lambda>(h, m). list_all (\<lambda>(a, exp). exp > now) m) (ce_learned e)"

lemma filed_lookup:
  "filed_by_name e \<Longrightarrow> \<not> is_name h \<Longrightarrow> map_of (resolved e) h = None"
  "filed_by_name e \<Longrightarrow> \<not> is_name h \<Longrightarrow> map_of (ce_learned e) h = None"
  by (auto simp: filed_by_name_def list_all_iff map_of_eq_None_iff)

lemma host_entries_cases:
  obtains b where "parse_ip h = Some (V4 b)" "host_entries now e slot h = [(slot, b, 32)]"
  | b where "parse_ip h = Some (V6 b)" "host_entries now e slot h = name_entries now e slot h"
  | n len where "parse_ip h = None" "parse_cidr h = Some (V4 n, len)"
      "host_entries now e slot h = [(slot, n, len)]"
  | n len where "parse_ip h = None" "parse_cidr h = Some (V6 n, len)"
      "host_entries now e slot h = name_entries now e slot h"
  | "is_name h" "host_entries now e slot h = name_entries now e slot h"
proof (cases "parse_ip h")
  case (Some ip)
  then show ?thesis
    using parse_ip_not_cidr[OF Some] that(1,2) by (cases ip) (simp_all add: host_entries_def)
next
  case None
  show ?thesis
  proof (cases "parse_cidr h")
    case (Some nl)
    obtain net len where nl: "nl = (net, len)" by (cases nl)
    show ?thesis using None Some nl that(3,4) by (cases net) (simp_all add: host_entries_def)
  qed (use None that(5) in \<open>simp add: host_entries_def is_name_def\<close>)
qed

lemma name_entries_slot: "x \<in> set (name_entries now e slot h) \<Longrightarrow> fst x = slot"
  by (auto simp: name_entries_def split: ip_addr.splits)

lemma host_entries_slot: "x \<in> set (host_entries now e slot h) \<Longrightarrow> fst x = slot"
  by (cases rule: host_entries_cases[of h now e slot]) (auto dest: name_entries_slot)

lemma unexpired_filter:
  "unexpired now e \<Longrightarrow> map_of (ce_learned e) h = Some m \<Longrightarrow> filter (\<lambda>(_, exp). exp > now) m = m"
  by (auto simp: unexpired_def list_all_iff filter_id_conv dest!: map_of_SomeD)

lemma name_entries_admit:
  assumes "unexpired now e"
  shows "(\<exists>(s, n, l) \<in> set (name_entries now e slot h). in_cidr (V4 a) (V4 n) l)
    \<longleftrightarrow> (case map_of (ce_learned e) h of Some m \<Rightarrow> map_of m a \<noteq> None | None \<Rightarrow> False)
        \<or> (case map_of (resolved e) h of Some ips \<Rightarrow> V4 a \<in> set ips | None \<Rightarrow> False)"
proof -
  let ?P = "\<lambda>(s, n, l). in_cidr (V4 a) (V4 n) l"
  let ?m = "case map_of (ce_learned e) h of Some m \<Rightarrow> m | None \<Rightarrow> []"
  let ?r = "case map_of (resolved e) h of Some ips \<Rightarrow> ips | None \<Rightarrow> []"
  have f: "filter (\<lambda>(_, exp). exp > now) ?m = ?m"
    using unexpired_filter[OF assms, of h] by (simp split: option.split)
  have one: "(\<exists>x \<in> set (case ip of V4 b \<Rightarrow> [(slot, b, 32)] | V6 _ \<Rightarrow> []). ?P x) \<longleftrightarrow> ip = V4 a" for ip
    by (cases ip) (auto simp: in_cidr_host simp del: in_cidr.simps)
  have "(\<exists>x \<in> set (concat (map (\<lambda>ip. case ip of V4 b \<Rightarrow> [(slot, b, 32)] | V6 _ \<Rightarrow> []) rs)). ?P x)
      \<longleftrightarrow> V4 a \<in> set rs" for rs
  proof (induction rs)
    case (Cons ip rs)
    then show ?case using one[of ip] by (simp only: list.map concat.simps set_append bex_Un) auto
  qed simp
  moreover have "(\<exists>x \<in> set (map (\<lambda>(b, _). (slot, b, 32)) ms). ?P x) \<longleftrightarrow> map_of ms a \<noteq> None"
    for ms :: "(ipv4 \<times> instant) list"
    by (induction ms) (auto simp: in_cidr_host simp del: in_cidr.simps)
  ultimately show ?thesis
    by (simp only: name_entries_def f set_append bex_Un) (simp split: option.split, blast)
qed

lemma host_entry_admits:
  assumes ok: "filed_by_name e" and fresh: "unexpired now e"
  shows "(\<exists>(s, n, l) \<in> set (host_entries now e slot h). in_cidr (V4 a) (V4 n) l)
    \<longleftrightarrow> (case parse_ip h of
           Some b \<Rightarrow> b = V4 a
         | None \<Rightarrow>
           (case parse_cidr h of
              Some (net, len) \<Rightarrow> in_cidr (V4 a) net len
            | None \<Rightarrow>
                (case map_of (ce_learned e) h of Some m \<Rightarrow> map_of m a \<noteq> None | None \<Rightarrow> False)
                \<or> (case map_of (resolved e) h of Some ips \<Rightarrow> V4 a \<in> set ips | None \<Rightarrow> False)))"
proof (cases rule: host_entries_cases[of h now e slot])
  case (1 b)
  then show ?thesis by (auto simp: in_cidr_host simp del: in_cidr.simps)
next
  case (2 b)
  then have n: "\<not> is_name h" by (simp add: is_name_def)
  show ?thesis unfolding 2(2) name_entries_admit[OF fresh] using 2(1) filed_lookup[OF ok n] by simp
next
  case (3 n len)
  then show ?thesis by simp
next
  case (4 n len)
  then have n: "\<not> is_name h" by (simp add: is_name_def)
  show ?thesis
    unfolding 4(3) name_entries_admit[OF fresh] using 4(1,2) filed_lookup[OF ok n] by simp
next
  case 5
  then show ?thesis unfolding 5(2) name_entries_admit[OF fresh] by (simp add: is_name_def)
qed

lemma kernel_profile_hosts [simp]:
  "kp_hosts (kernel_profile canon now e slot p out)
   = (if net_enforced e p then kp_hosts out @ concat (map (host_entries now e slot) (allow_hosts p))
      else kp_hosts out)"
  by (simp add: kernel_profile_def Let_def)

lemma kernel_loop_hosts:
  "x \<in> set (kp_hosts (kernel_loop canon now e i ps out)) \<longleftrightarrow>
   x \<in> set (kp_hosts out)
   \<or> (\<exists>j < length ps. i + j < 254 \<and> net_enforced e (ps ! j)
        \<and> (\<exists>h \<in> set (allow_hosts (ps ! j)). x \<in> set (host_entries now e (i + j + 2) h)))"
proof (induction ps arbitrary: i out)
  case (Cons p ps)
  show ?case
  proof (cases "slot_of i")
    case None
    moreover from None have "254 \<le> i" by (simp only: slot_of_None)
    ultimately show ?thesis by auto
  next
    case (Some s)
    then have i: "i < 254" "s = i + 2" by (simp_all add: slot_of_Some)
    have "(\<exists>j < length (p # ps). P j) \<longleftrightarrow> P 0 \<or> (\<exists>j < length ps. P (Suc j))" for P
      by (auto simp: less_Suc_eq_0_disj)
    then show ?thesis using Some i Cons.IH[of "i + 1"] by auto
  qed
qed simp

lemma kernel_admits_iff:
  assumes "i < length (profiles e)" "i < 254"
  shows "kernel_admits (kernel_state canon now e) (i + 2) a \<longleftrightarrow>
    net_enforced e (profiles e ! i)
    \<and> (\<exists>h \<in> set (allow_hosts (profiles e ! i)).
         \<exists>(s, n, l) \<in> set (host_entries now e (i + 2) h). in_cidr (V4 a) (V4 n) l)"
proof -
  have "set (kp_hosts (kernel_state canon now e))
    = {x. \<exists>j < length (profiles e). j < 254 \<and> net_enforced e (profiles e ! j)
        \<and> (\<exists>h \<in> set (allow_hosts (profiles e ! j)). x \<in> set (host_entries now e (j + 2) h))}"
    unfolding set_eq_iff
    by (simp add: kernel_state_def Let_def kernel_loop_hosts)
  note all_hosts = this
  have "x \<in> set (kp_hosts (kernel_state canon now e)) \<and> fst x = i + 2 \<longleftrightarrow>
      net_enforced e (profiles e ! i)
      \<and> (\<exists>h \<in> set (allow_hosts (profiles e ! i)). x \<in> set (host_entries now e (i + 2) h))" for x
  proof
    assume "x \<in> set (kp_hosts (kernel_state canon now e)) \<and> fst x = i + 2"
    then obtain j h where j: "net_enforced e (profiles e ! j)" "h \<in> set (allow_hosts (profiles e ! j))"
        "x \<in> set (host_entries now e (j + 2) h)" and "fst x = i + 2"
      unfolding all_hosts by blast
    then have "j = i" using host_entries_slot[OF j(3)] by simp
    then show "net_enforced e (profiles e ! i)
      \<and> (\<exists>h \<in> set (allow_hosts (profiles e ! i)). x \<in> set (host_entries now e (i + 2) h))"
      using j by blast
  next
    assume "net_enforced e (profiles e ! i)
      \<and> (\<exists>h \<in> set (allow_hosts (profiles e ! i)). x \<in> set (host_entries now e (i + 2) h))"
    then show "x \<in> set (kp_hosts (kernel_state canon now e)) \<and> fst x = i + 2"
      unfolding all_hosts using assms host_entries_slot[of x now e "i + 2"] by blast
  qed
  note hosts = this
  have "kernel_admits (kernel_state canon now e) (i + 2) a \<longleftrightarrow>
      (\<exists>x. (x \<in> set (kp_hosts (kernel_state canon now e)) \<and> fst x = i + 2)
           \<and> in_cidr (V4 a) (V4 (fst (snd x))) (snd (snd x)))"
    unfolding kernel_admits_def list_ex_iff case_prod_beta by blast
  also have "\<dots> \<longleftrightarrow> net_enforced e (profiles e ! i)
      \<and> (\<exists>h \<in> set (allow_hosts (profiles e ! i)). \<exists>x \<in> set (host_entries now e (i + 2) h).
           in_cidr (V4 a) (V4 (fst (snd x))) (snd (snd x)))"
    unfolding hosts by blast
  finally show ?thesis unfolding case_prod_beta .
qed

lemma kernel_refines:
  assumes "filed_by_name e" "unexpired now e" "i < length (profiles e)" "i < 254"
    and "net_enforced e (profiles e ! i)" "\<not> is_loopback (V4 a)"
  shows "kernel_admits (kernel_state canon now e) (i + 2) a
         \<longleftrightarrow> host_allowed e (profiles e ! i) (V4 a) None"
proof -
  let ?p = "profiles e ! i"
  have star: "''*'' \<notin> set (allow_hosts ?p)" using assms(5) by (simp add: net_enforced_def Let_def)
  have "kernel_admits (kernel_state canon now e) (i + 2) a \<longleftrightarrow>
    (\<exists>h \<in> set (allow_hosts ?p).
       \<exists>(s, n, l) \<in> set (host_entries now e (i + 2) h). in_cidr (V4 a) (V4 n) l)"
    using kernel_admits_iff[OF assms(3,4), of canon now a] assms(5) by blast
  also have "\<dots> \<longleftrightarrow> host_allowed e ?p (V4 a) None"
    unfolding host_entry_admits[OF assms(1,2)] host_allowed_def list_ex_iff if_not_P[OF assms(6)]
  proof (rule bex_cong[OF refl])
    fix h
    assume "h \<in> set (allow_hosts ?p)"
    with star have h: "h \<noteq> ''*''" by auto
    show "(case parse_ip h of
           Some b \<Rightarrow> b = V4 a
         | None \<Rightarrow>
           (case parse_cidr h of
              Some (net, len) \<Rightarrow> in_cidr (V4 a) net len
            | None \<Rightarrow>
                (case map_of (ce_learned e) h of Some m \<Rightarrow> map_of m a \<noteq> None | None \<Rightarrow> False)
                \<or> (case map_of (resolved e) h of Some ips \<Rightarrow> V4 a \<in> set ips | None \<Rightarrow> False)))
      = (if h = ''*'' then True
        else case parse_ip h of
          Some a' \<Rightarrow> a' = V4 a
        | None \<Rightarrow>
          (case parse_cidr h of
             Some (net, len) \<Rightarrow> in_cidr (V4 a) net len
           | None \<Rightarrow>
             (case None of Some name \<Rightarrow> host_matches h name | None \<Rightarrow> False)
             \<or> (case V4 a of
                  V4 a \<Rightarrow> (case map_of (ce_learned e) h of
                             Some m \<Rightarrow> map_of m a \<noteq> None | None \<Rightarrow> False)
                | V6 _ \<Rightarrow> False)
             \<or> (case map_of (resolved e) h of Some ips \<Rightarrow> V4 a \<in> set ips | None \<Rightarrow> False)))"
      by (simp only: if_not_P[OF h] option.case ip_addr.case simp_thms)
  qed
  finally show ?thesis .
qed

section \<open>Histories of the engine\<close>

datatype cap_op =
    Upsert "string + unit" profile_config
  | Remove "string + unit" string
  | RefreshDns "string \<Rightarrow> ip_addr list option"
  | Check int event_shape nat string "(nat \<times> string) list"
  | LearnDns instant "a_record list"
  | ExpireLearned instant

fun cap_step ::
  "(string \<Rightarrow> string) \<Rightarrow> (nat \<Rightarrow> string \<Rightarrow> string option) \<Rightarrow> capability_engine \<Rightarrow> cap_op
     \<Rightarrow> capability_engine" where
  "cap_step dbg agent_of e (Upsert saved p) = snd (upsert dbg saved p e)"
| "cap_step dbg agent_of e (Remove saved n) = snd (remove_profile dbg saved n e)"
| "cap_step dbg agent_of e (RefreshDns lookup) = refresh_dns lookup e"
| "cap_step dbg agent_of e (Check now kind pid process anc) =
     snd (check now kind pid process anc agent_of e)"
| "cap_step dbg agent_of e (LearnDns now rs) = fst (learn_dns now rs e)"
| "cap_step dbg agent_of e (ExpireLearned now) = fst (expire_learned now e)"

definition engine_ok :: "(string \<Rightarrow> string) \<Rightarrow> capability_engine \<Rightarrow> bool" where
  "engine_ok dbg e =
     (list_all (\<lambda>p. is_ok (validate dbg p)) (profiles e) \<and> distinct (map pc_name (profiles e))
      \<and> list_all (\<lambda>(n, q). length q \<le> 20) (recent e) \<and> filed_by_name e
      \<and> length (seen_names e) \<le> 2048)"

lemma list_all_update:
  "P (k, v) \<Longrightarrow> list_all P al \<Longrightarrow> list_all P (AList.update k v al)"
  by (induction al) auto

lemma names_set_or_push:
  "map pc_name (set_or_push p xs)
   = (if pc_name p \<in> pc_name ` set xs then map pc_name xs else map pc_name xs @ [pc_name p])"
  by (induction xs) auto

lemma list_all_set_or_push: "P p \<Longrightarrow> list_all P xs \<Longrightarrow> list_all P (set_or_push p xs)"
  by (induction xs) auto

lemma replace_keeps:
  "engine_ok dbg e \<Longrightarrow> list_all (\<lambda>p. is_ok (validate dbg p)) l \<Longrightarrow> distinct (map pc_name l)
   \<Longrightarrow> engine_ok dbg (snd (replace_profiles saved l e))"
  by (auto simp: engine_ok_def replace_profiles_def filed_by_name_def split: sum.split)

lemma upsert_keeps:
  assumes "engine_ok dbg e"
  shows "engine_ok dbg (snd (upsert dbg saved p e))"
proof (cases "validate dbg p")
  case (Inr u)
  then have "list_all (\<lambda>p. is_ok (validate dbg p)) (set_or_push p (profiles e))"
    using assms by (intro list_all_set_or_push) (simp_all add: engine_ok_def)
  moreover have "distinct (map pc_name (set_or_push p (profiles e)))"
    using assms by (simp add: names_set_or_push engine_ok_def)
  ultimately show ?thesis using replace_keeps[OF assms] by (simp add: upsert_def Inr)
qed (use assms in \<open>simp add: upsert_def\<close>)

lemma remove_keeps: "engine_ok dbg e \<Longrightarrow> engine_ok dbg (snd (remove_profile dbg saved n e))"
  by (auto simp: remove_profile_def Let_def intro!: replace_keeps)
    (auto simp: engine_ok_def list_all_iff distinct_map_filter)

lemma wildcard_is_name: "starts_with h ''*.'' \<Longrightarrow> is_name h"
  by (auto simp: starts_with_iff is_name_def parse_ip_star parse_cidr_star)

lemma add_ips_names:
  "is_name h \<Longrightarrow> list_all (is_name \<circ> fst) out \<Longrightarrow> list_all (is_name \<circ> fst) (add_ips h ips out)"
  by (simp add: add_ips_def list_all_update)

lemma foldl_keeps: "(\<And>s x. x \<in> set xs \<Longrightarrow> P s \<Longrightarrow> P (f s x)) \<Longrightarrow> P s \<Longrightarrow> P (foldl f s xs)"
  by (induction xs arbitrary: s) auto

lemma refresh_names: "list_all (is_name \<circ> fst) (resolved (refresh_dns lookup e))"
proof -
  let ?P = "list_all (is_name \<circ> fst) :: (string \<times> ip_addr list) list \<Rightarrow> bool"
  have "?P (foldl (\<lambda>o' w. add_ips w ips o') out (filter (\<lambda>w. host_matches w n)
          (filter (\<lambda>h. starts_with h ''*.'') (all_hosts e))))" if "?P out" for ips out n
    using that by (intro foldl_keeps[where P = ?P] add_ips_names) (auto dest: wildcard_is_name)
  then show ?thesis
    unfolding refresh_dns_def Let_def
    by simp (intro foldl_keeps[where P = ?P]; auto split: option.split intro: add_ips_names)
qed

lemma learn_one_keeps:
  assumes "engine_ok dbg (fst st)" "is_name pat"
  shows "engine_ok dbg (fst (learn_one now r pat st)) \<and> profiles (fst (learn_one now r pat st)) = profiles (fst st)"
  using assms
  by (cases st) (auto simp: learn_one_def Let_def engine_ok_def filed_by_name_def MAX_SEEN_NAMES_def
      list_all_update)

lemma learn_keeps: "engine_ok dbg e \<Longrightarrow> engine_ok dbg (fst (learn_dns now rs e))"
proof -
  assume ok: "engine_ok dbg e"
  let ?P = "\<lambda>st :: capability_engine \<times> bool. engine_ok dbg (fst st)"
  have "?P (foldl (\<lambda>st r. foldl (\<lambda>st pat. learn_one now r pat st) st
          (filter (\<lambda>pat. host_matches pat (ar_name r))
             (filter (\<lambda>h. h \<noteq> ''*'' \<and> is_name h) (all_hosts e)))) (e, False) rs)"
    using ok by (intro foldl_keeps[where P = ?P]) (auto simp: learn_one_keeps)
  then show ?thesis using ok by (simp add: learn_dns_def Let_def)
qed

lemma check_keeps: "engine_ok dbg e \<Longrightarrow> engine_ok dbg (snd (check now kind pid pr anc agent_of e))"
  by (auto simp: check_def Let_def engine_ok_def filed_by_name_def RECENT_PER_PROFILE_def
      list_all_update split: option.split)

interpretation engine: invariant_system "cap_step dbg agent_of" "engine_ok dbg" for dbg agent_of
proof unfold_locales
  fix e op
  assume ok: "engine_ok dbg e"
  show "engine_ok dbg (cap_step dbg agent_of e op)"
  proof (cases op)
    case (RefreshDns lookup)
    have "engine_ok dbg (refresh_dns lookup e)"
      using ok refresh_names[of lookup e]
      by (auto simp: engine_ok_def filed_by_name_def refresh_dns_def Let_def)
    then show ?thesis by (simp add: RefreshDns)
  next
    case (ExpireLearned now)
    have "map fst (map (\<lambda>(h, m). (h, filter (\<lambda>(_, exp). exp > now) m)) l) = map fst l"
      for l :: "(string \<times> (ipv4 \<times> instant) list) list"
      by (induction l) auto
    then show ?thesis
      using ok by (auto simp: ExpireLearned engine_ok_def filed_by_name_def expire_learned_def
          Let_def list_all_iff)
  qed (use ok in \<open>simp_all add: upsert_keeps remove_keeps learn_keeps check_keeps\<close>)
qed

lemma engine_new_ok:
  "list_all (\<lambda>p. is_ok (validate dbg p)) ps \<Longrightarrow> distinct (map pc_name ps) \<Longrightarrow> length seen \<le> 2048
   \<Longrightarrow> engine_ok dbg (engine_new seen ps)"
  by (simp add: engine_ok_def engine_new_def filed_by_name_def)

text \<open>
  C12. Started from validated profiles with distinct names, the engine stays well formed under every
  history of edits, removals, look-ups, checks, learning and expiry: every profile is valid, names
  are distinct, each profile keeps at most 20 recent violations, at most 2048 names are remembered,
  and addresses are filed only under host names.
\<close>
theorem engine_stays_well_formed:
  assumes "list_all (\<lambda>p. is_ok (validate dbg p)) ps" "distinct (map pc_name ps)" "length seen \<le> 2048"
  shows "engine_ok dbg (foldl (cap_step dbg agent_of) (engine_new seen ps) ops)"
  by (rule engine.run_inv[OF engine_new_ok[OF assms]])

lemma agent_profile_valid: "is_ok (validate dbg (agent_profile ''claude''))"
proof -
  have "valid_name ''claude''" "valid_agent_id ''claude''" by code_simp+
  moreover have "list_all host_label (split_on (\<lambda>c. c = CHR ''.'') ''a.com'')" by code_simp
  then have "valid_host_entry ''*.a.com''"
    by (simp add: valid_host_entry_def strip_prefix_def)
  ultimately show ?thesis by (simp add: validate_def agent_profile_def default_profile_def)
qed

theorem engine_stays_well_formed_witness:
  "engine_ok id (foldl (cap_step id (\<lambda>_ _. None)) (engine_new [] [agent_profile ''claude''])
     [Remove (Inr ()) ''claude'', ExpireLearned 3])"
proof (rule engine_stays_well_formed)
  show "list_all (\<lambda>p. is_ok (validate id p)) [agent_profile ''claude'']"
    by (simp add: agent_profile_valid)
qed simp_all

text \<open>
  C8. For a profile the kernel enforces, the kernel's host table and the recorded check agree: after
  any such history with the expired addresses swept, an address outside the loopback range is
  admitted for the profile's slot exactly when the check allows a connection to it. Watching a
  profile therefore shows exactly what enforcing it will refuse.
\<close>
theorem kernel_hosts_refine_check:
  assumes "list_all (\<lambda>p. is_ok (validate dbg p)) ps" "distinct (map pc_name ps)" "length seen \<le> 2048"
    and "e = foldl (cap_step dbg agent_of) (engine_new seen ps) ops"
    and "unexpired now e" "i < length (profiles e)" "i < 254"
    and "net_enforced e (profiles e ! i)" "\<not> is_loopback (V4 a)"
  shows "kernel_admits (kernel_state canon now e) (i + 2) a
         \<longleftrightarrow> host_allowed e (profiles e ! i) (V4 a) None"
proof -
  have "engine_ok dbg e"
    unfolding assms(4) by (rule engine.run_inv[OF engine_new_ok[OF assms(1-3)]])
  then have "filed_by_name e" by (simp add: engine_ok_def)
  then show ?thesis using assms(5-9) by (rule kernel_refines)
qed

theorem kernel_hosts_refine_check_witness:
  "kernel_admits (kernel_state (\<lambda>_. None) 0
      (foldl (cap_step id (\<lambda>_ _. None)) (engine_new [''x.a.com''] [agent_profile ''claude''])
         [RefreshDns (\<lambda>_. Some [V4 7])])) 2 7
   = host_allowed (foldl (cap_step id (\<lambda>_ _. None)) (engine_new [''x.a.com''] [agent_profile ''claude''])
         [RefreshDns (\<lambda>_. Some [V4 7])]) (agent_profile ''claude'') (V4 7) None"
proof -
  let ?e = "foldl (cap_step id (\<lambda>_ _. None)) (engine_new [''x.a.com''] [agent_profile ''claude''])
         [RefreshDns (\<lambda>_. Some [V4 7])]"
  have p: "profiles ?e = [agent_profile ''claude'']"
    by (simp add: refresh_dns_def engine_new_def Let_def)
  have "unexpired 0 ?e" by (simp add: unexpired_def refresh_dns_def engine_new_def Let_def)
  moreover have "net_enforced ?e (profiles ?e ! 0)"
    unfolding p by (simp add: net_enforced_def agent_profile_def refresh_dns_def Let_def)
  moreover have "\<not> is_loopback (V4 7)" by (simp add: octets_def)
  ultimately show ?thesis
    using kernel_hosts_refine_check[of id "[agent_profile ''claude'']" "[''x.a.com'']" ?e "\<lambda>_ _. None"
        "[RefreshDns (\<lambda>_. Some [V4 7])]" 0 0 7 "\<lambda>_. None"] p
    by (simp add: agent_profile_valid numeral_2_eq_2)
qed

section \<open>Attribution\<close>

definition owns :: "profile_config list \<Rightarrow> (nat \<Rightarrow> string \<Rightarrow> string option) \<Rightarrow> nat \<times> string
    \<Rightarrow> profile_config \<Rightarrow> bool" where
  "owns ps agent_of pc p =
     (p \<in> set ps \<and> (mcp_hit (snd pc) p
        \<or> (\<forall>q \<in> set ps. \<not> mcp_hit (snd pc) q)
           \<and> (\<exists>a. agent_of (fst pc) (snd pc) = Some a \<and> pc_agent p = Some a)))"

lemma attribute_from_spec:
  "case attribute_from ps agent_of d anc of
     Some (p, k) \<Rightarrow> d \<le> k \<and> k - d < length anc \<and> owns ps agent_of (anc ! (k - d)) p
       \<and> list_all (\<lambda>pc. list_all (\<lambda>q. \<not> owns ps agent_of pc q) ps) (take (k - d) anc)
   | None \<Rightarrow> list_all (\<lambda>pc. list_all (\<lambda>q. \<not> owns ps agent_of pc q) ps) anc"
proof (induction ps agent_of d anc rule: attribute_from.induct)
  case (2 ps agent_of d pid cmdline rest)
  show ?case
  proof (cases "List.find (mcp_hit cmdline) ps")
    case (Some p)
    then show ?thesis by (auto simp: owns_def dest: find_SomeD)
  next
    case None
    then have no: "\<forall>q \<in> set ps. \<not> mcp_hit cmdline q" by (simp add: find_NoneD)
    let ?by_agent = "case agent_of pid cmdline of
        Some agent \<Rightarrow> List.find (\<lambda>p. pc_agent p = Some agent) ps | None \<Rightarrow> None"
    show ?thesis
    proof (cases ?by_agent)
      case (Some p)
      then show ?thesis
        using None no by (auto simp: owns_def dest!: find_SomeD split: option.splits)
    next
      case miss: None
      then have here: "list_all (\<lambda>q. \<not> owns ps agent_of (pid, cmdline) q) ps"
        using no by (auto simp: owns_def list_all_iff find_NoneD split: option.splits)
      have "attribute_from ps agent_of d ((pid, cmdline) # rest)
          = attribute_from ps agent_of (d + 1) rest"
        using None miss by simp
      moreover note "2.IH"[OF None miss]
      moreover have "k - d = Suc (k - (d + 1))" if "d + 1 \<le> k" for k using that by simp
      ultimately show ?thesis
        using here by (auto split: option.splits prod.splits)
    qed
  qed
qed simp

text \<open>
  An event belongs to the nearest process, itself first and at most 31 ancestors up, that is a
  profiled MCP server or, when no MCP profile matches there, a profiled agent; when none of the 32
  is, the event belongs to no profile.
\<close>
theorem attribution_is_nearest:
  "case attribute ps anc agent_of of
     Some (p, k) \<Rightarrow> k < 32 \<and> k < length anc \<and> owns ps agent_of (anc ! k) p
       \<and> list_all (\<lambda>pc. list_all (\<lambda>q. \<not> owns ps agent_of pc q) ps) (take k anc)
   | None \<Rightarrow> list_all (\<lambda>pc. list_all (\<lambda>q. \<not> owns ps agent_of pc q) ps) (take 32 anc)"
  using attribute_from_spec[where ps = ps and agent_of = agent_of and d = 0 and anc = "take 32 anc"]
  by (auto simp: attribute_def MAX_ANCESTRY_def min_absorb2 min.absorb1 split: option.splits)

section \<open>Targets and ranges\<close>

lemma show_ipv4_chars: "CHR ''['' \<notin> set (show_ipv4 a) \<and> CHR '']'' \<notin> set (show_ipv4 a)
    \<and> CHR '':'' \<notin> set (show_ipv4 a) \<and> show_ipv4 a \<noteq> []"
proof -
  have d: "c \<in> set (show_nat n) \<Longrightarrow> is_ascii_digit c" for c n
    using show_nat_digits[of n] by (auto simp: list_all_iff)
  have "\<not> is_ascii_digit (CHR ''['')" "\<not> is_ascii_digit (CHR '']'')" "\<not> is_ascii_digit (CHR '':'')"
    by (simp_all add: is_ascii_digit_def byte_def)
  moreover obtain w x y z where "octets a = [w, x, y, z]" by (simp add: octets_def Let_def)
  ultimately show ?thesis
    using d show_nat_nonempty by (auto simp: show_ipv4_def)
qed

text \<open>
  The target of a connect event reads back as the address and port it was printed from, for
  every IPv4 address and every 16-bit port, with or without square brackets around the address.
\<close>
theorem target_round_trip:
  "parse_target (show_ipv4 a @ '':'' @ show_nat (unat (port :: 16 word))) = Some (V4 a, unat port)
   \<and> parse_target (''['' @ show_ipv4 a @ '']:'' @ show_nat (unat port)) = Some (V4 a, unat port)"
proof -
  have d: "CHR '':'' \<notin> set (show_nat n)" for n
    using show_nat_digits[of n] by (auto simp: list_all_iff is_ascii_digit_def byte_def)
  have "unat port < 65536" using unsigned_less[of port, where ?'a = nat] by simp
  then have port: "parse_u16 (show_nat (unat port)) = Some (unat port)"
    by (intro parse_uint_show_nat) simp
  have split: "rsplit_once (CHR '':'') (h @ CHR '':'' # show_nat n) = Some (h, show_nat n)" for h n
    using split_once_app[of "CHR '':''" "rev (show_nat n)" "rev h"] d[of n]
    by (simp add: rsplit_once_def)
  have keep: "dropWhile (\<lambda>c. c = d) s = s" if "d \<notin> set s" for d :: char and s
    using that by (cases s) auto
  note c = show_ipv4_chars[of a]
  have plain: "trim_end_char (CHR '']'') (trim_start_char (CHR ''['') (show_ipv4 a)) = show_ipv4 a"
    "trim_end_char (CHR '']'') (trim_start_char (CHR ''['') (''['' @ show_ipv4 a @ '']'')) = show_ipv4 a"
    using c by (simp_all add: trim_end_char_def trim_start_char_def keep)
  show ?thesis
    using split[of "show_ipv4 a"] split[of "''['' @ show_ipv4 a @ '']''"] plain port
    by (simp add: parse_target_def parse_show_ipv4)
qed

text \<open>
  A range entry that parses has a prefix length its family allows, and an address is in it
  exactly when it has the same family and agrees with the network on the leading bits of that
  length, read as a shift of the 32- or 128-bit words; the shift is never by more than the width.
\<close>
theorem cidr_is_prefix_equality:
  "case parse_cidr s of
     None \<Rightarrow> True
   | Some (V4 n, len) \<Rightarrow> len \<le> 32 \<and> \<not> in_cidr (V6 b) (V4 n) len
       \<and> (in_cidr (V4 a) (V4 n) len \<longleftrightarrow> drop_bit (32 - len) a = drop_bit (32 - len) n)
   | Some (V6 n, len) \<Rightarrow> len \<le> 128 \<and> \<not> in_cidr (V4 a) (V6 n) len
       \<and> (in_cidr (V6 b) (V6 n) len \<longleftrightarrow> drop_bit (128 - len) b = drop_bit (128 - len) n)"
proof (cases "parse_cidr s")
  case (Some nl)
  obtain net len where nl: "nl = (net, len)" by (cases nl)
  have "len \<le> (if is_ipv4 net then 32 else 128)"
    using Some nl by (auto simp: parse_cidr_def split: option.splits if_splits)
  then show ?thesis
    using Some nl by (cases net) (simp_all add: in_cidr_v4 in_cidr_v6 del: in_cidr.simps(1,2))
qed simp

end
