(* ===== verification/Network.thy ===== *)
theory Network
  imports Acl NetAddr
begin

text \<open>
  agent/src/policy/network.rs: the network modes, the walk up the process tree, and the
  destinations that are always allowed. Name resolution is an argument; the locks are taken for the
  whole of each operation, so an operation is one step on the state.
\<close>

section \<open>Destinations\<close>

definition WHITELISTED_HOSTS :: "string list" where
  "WHITELISTED_HOSTS =
     [''api.anthropic.com'', ''api.openai.com'', ''generativelanguage.googleapis.com'',
      ''cloudcode-pa.googleapis.com'', ''aiplatform.googleapis.com'', ''oauth2.googleapis.com'',
      ''accounts.google.com'', ''api.github.com'', ''copilot-proxy.githubusercontent.com'',
      ''api.githubcopilot.com'', ''registry.npmjs.org'', ''pypi.org'', ''files.pythonhosted.org'',
      ''crates.io'', ''static.crates.io'', ''rubygems.org'', ''github.com'',
      ''raw.githubusercontent.com'', ''objects.githubusercontent.com'', ''gitlab.com'',
      ''bitbucket.org'', ''sentry.io'', ''statsig.anthropic.com'']"

definition WHITELISTED_IP_PREFIXES :: "string list" where
  "WHITELISTED_IP_PREFIXES = [''160.79.'', ''104.18.'', ''172.64.'', ''104.16.'']"

definition LLM_API_HOSTS :: "string list" where
  "LLM_API_HOSTS =
     [''api.anthropic.com'', ''api.openai.com'', ''generativelanguage.googleapis.com'',
      ''cloudcode-pa.googleapis.com'', ''aiplatform.googleapis.com'', ''api.github.com'',
      ''copilot-proxy.githubusercontent.com'', ''api.githubcopilot.com'', ''api.cursor.sh'',
      ''api2.cursor.sh'', ''api2geo.cursor.sh'', ''api2direct.cursor.sh'', ''api3.cursor.sh'',
      ''chatgpt.com'']"

text \<open>\<open>split(':').next()\<close>\<close>

definition before_colon :: "string \<Rightarrow> string" where
  "before_colon s = takeWhile (\<lambda>c. c \<noteq> CHR '':'') s"

definition resolved_llm_ipv4s :: "(string \<Rightarrow> ip_addr list option) \<Rightarrow> ipv4 list" where
  "resolved_llm_ipv4s resolve =
     concat (map (\<lambda>d. case resolve (d @ '':443'') of
                     Some addrs \<Rightarrow> List.map_filter (\<lambda>ip. case ip of V4 a \<Rightarrow> Some a | V6 _ \<Rightarrow> None) addrs
                   | None \<Rightarrow> []) LLM_API_HOSTS)"

definition llm_ips :: "(string \<Rightarrow> ip_addr list option) \<Rightarrow> string list" where
  "llm_ips resolve =
     concat (map (\<lambda>d. case resolve (d @ '':443'') of
                     Some addrs \<Rightarrow> map show_ip addrs | None \<Rightarrow> []) LLM_API_HOSTS)"

text \<open>\<open>ips\<close> is the set resolved once, at the first call that needs it.\<close>

definition is_llm_api_destination :: "string list \<Rightarrow> string \<Rightarrow> bool" where
  "is_llm_api_destination ips target =
     (let host = before_colon target
      in if list_ex (contains host) LLM_API_HOSTS then True
         else if (case host of c # _ \<Rightarrow> is_ascii_digit c | [] \<Rightarrow> False) then host \<in> set ips
         else False)"

definition is_whitelisted_destination :: "string \<Rightarrow> bool" where
  "is_whitelisted_destination target =
     (let host = before_colon target
      in if host = ''127.0.0.1'' \<or> host = ''::1'' \<or> host = ''localhost''
             \<or> starts_with host ''127.'' then True
         else if list_ex (\<lambda>wl. host = wl \<or> ends_with host (''.'' @ wl)) WHITELISTED_HOSTS then True
         else list_ex (starts_with host) WHITELISTED_IP_PREFIXES)"

fun split_once_str :: "string \<Rightarrow> string \<Rightarrow> (string \<times> string) option" where
  "split_once_str d [] = (if d = [] then Some ([], []) else None)"
| "split_once_str d (c # cs) =
     (if starts_with (c # cs) d then Some ([], drop (length d) (c # cs))
      else map_option (\<lambda>(a, b). (c # a, b)) (split_once_str d cs))"

definition split_host_port :: "string \<Rightarrow> string \<times> nat option" where
  "split_host_port target =
     (case strip_prefix ''['' target of
        Some rest \<Rightarrow>
          (case split_once_str '']:'' rest of
             Some (h, p) \<Rightarrow> (h, parse_u16 p)
           | None \<Rightarrow> (trim_end_char (CHR '']'') rest, None))
      | None \<Rightarrow>
          if length (filter (\<lambda>c. c = CHR '':'') target) \<ge> 2 then (target, None)
          else (case rsplit_once (CHR '':'') target of
                  Some (h, p) \<Rightarrow> (h, parse_u16 p)
                | None \<Rightarrow> (target, None)))"

definition is_infrastructure_destination :: "string \<Rightarrow> bool" where
  "is_infrastructure_destination target =
     (let (host, port) = split_host_port target
      in if port = Some 53 then True
         else starts_with host ''127.'' \<or> host = ''0.0.0.0'' \<or> host = []
              \<or> starts_with host ''169.254.'' \<or> host = ''::1'' \<or> host = ''::''
              \<or> starts_with host ''fe80:'')"

section \<open>State and decisions\<close>

record network_policy =
  np_mode :: network_mode
  np_enforce :: enforce_mode
  agent_pids :: "pid list"
  pid_tree :: "pid \<rightharpoonup> pid"
  approved :: "string list"

definition network_new :: network_policy where
  "network_new = \<lparr>np_mode = Low, np_enforce = Enforce, agent_pids = [], pid_tree = Map.empty,
                  approved = []\<rparr>"

definition register_agent :: "pid \<Rightarrow> network_policy \<Rightarrow> network_policy" where
  "register_agent p P = P\<lparr>agent_pids := List.insert p (agent_pids P)\<rparr>"

definition register_fork :: "pid \<Rightarrow> pid \<Rightarrow> network_policy \<Rightarrow> network_policy" where
  "register_fork parent child P = P\<lparr>pid_tree := (pid_tree P)(child \<mapsto> parent)\<rparr>"

definition approve_destination :: "string \<Rightarrow> network_policy \<Rightarrow> network_policy" where
  "approve_destination d P = P\<lparr>approved := List.insert d (approved P)\<rparr>"

text \<open>The walk to the root; \<open>None\<close> when the loop never ends.\<close>

partial_function (option) is_in_agent_tree :: "network_policy \<Rightarrow> pid \<Rightarrow> bool option" where
  "is_in_agent_tree P cur =
     (if cur \<in> set (agent_pids P) then Some True
      else case pid_tree P cur of
             Some parent \<Rightarrow> is_in_agent_tree P parent
           | None \<Rightarrow> Some False)"

fun mode_name :: "network_mode \<Rightarrow> string" where
  "mode_name Low = ''Low''"
| "mode_name Medium = ''Medium''"
| "mode_name High = ''High''"

definition should_block :: "network_policy \<Rightarrow> security_event \<Rightarrow> bool option" where
  "should_block P ev =
     (case np_mode P of
        Low \<Rightarrow> Some (\<not> (ev_pid ev \<in> set (agent_pids P)
                       \<or> (case ev_ppid ev of Some pp \<Rightarrow> pp \<in> set (agent_pids P) | None \<Rightarrow> False)))
      | Medium \<Rightarrow> map_option Not (is_in_agent_tree P (ev_pid ev))
      | High \<Rightarrow> Some (ev_target ev \<notin> set (approved P) \<and> ev_target ev \<noteq> []))"

definition network_evaluate :: "network_policy \<Rightarrow> security_event \<Rightarrow> decision option" where
  "network_evaluate P ev =
     (if is_infrastructure_destination (ev_target ev) then Some Allow
      else if is_whitelisted_destination (ev_target ev) then Some Allow
      else
        case should_block P ev of
          None \<Rightarrow> None
        | Some False \<Rightarrow> Some Allow
        | Some True \<Rightarrow>
            (case np_enforce P of
               Enforce \<Rightarrow>
                 Some (Block (''Network '' @ mode_name (np_mode P) @ '' mode: PID ''
                   @ show_nat (unat (ev_pid ev)) @ '' not authorized for '' @ [CHR 0x27]
                   @ ev_target ev @ [CHR 0x27]))
             | Observe \<Rightarrow> Some Allow))"

section \<open>The walk\<close>

definition ancestor :: "network_policy \<Rightarrow> nat \<Rightarrow> pid \<Rightarrow> pid option" where
  "ancestor P k pid = ((\<lambda>x. Option.bind x (pid_tree P)) ^^ k) (Some pid)"

lemma funpow_bind_None: "((\<lambda>x. Option.bind x (f :: 'a \<Rightarrow> 'a option)) ^^ k) None = None"
  by (induction k) simp_all

lemma ancestor_0 [simp]: "ancestor P 0 pid = Some pid"
  by (simp add: ancestor_def)

lemma ancestor_Suc:
  "ancestor P (Suc k) pid = (case pid_tree P pid of Some q \<Rightarrow> ancestor P k q | None \<Rightarrow> None)"
  unfolding ancestor_def funpow_Suc_right o_apply
  by (simp add: funpow_bind_None split: option.split)

definition meets_agent :: "network_policy \<Rightarrow> pid \<Rightarrow> bool" where
  "meets_agent P pid = (\<exists>k a. ancestor P k pid = Some a \<and> a \<in> set (agent_pids P))"

definition has_root :: "network_policy \<Rightarrow> pid \<Rightarrow> bool" where
  "has_root P pid = (\<exists>k. ancestor P k pid = None)"

lemma meets_agent_step:
  "meets_agent P pid \<longleftrightarrow> pid \<in> set (agent_pids P)
     \<or> (case pid_tree P pid of Some q \<Rightarrow> meets_agent P q | None \<Rightarrow> False)"
  (is "?L \<longleftrightarrow> ?R")
proof
  assume ?L
  then obtain k a where k: "ancestor P k pid = Some a" "a \<in> set (agent_pids P)"
    by (auto simp: meets_agent_def)
  show ?R
  proof (cases k)
    case (Suc j)
    then show ?thesis using k by (auto simp: ancestor_Suc meets_agent_def split: option.splits)
  qed (use k in simp)
next
  assume ?R
  then consider "pid \<in> set (agent_pids P)" | q where "pid_tree P pid = Some q" "meets_agent P q"
    by (auto split: option.splits)
  then show ?L
  proof cases
    case 1
    then have "ancestor P 0 pid = Some pid \<and> pid \<in> set (agent_pids P)" by simp
    then show ?thesis unfolding meets_agent_def by blast
  next
    case 2
    then obtain k a where "ancestor P k q = Some a" "a \<in> set (agent_pids P)"
      by (auto simp: meets_agent_def)
    then have "ancestor P (Suc k) pid = Some a \<and> a \<in> set (agent_pids P)"
      using 2 by (simp add: ancestor_Suc)
    then show ?thesis unfolding meets_agent_def by blast
  qed
qed

lemma has_root_step:
  "has_root P pid \<longleftrightarrow> (case pid_tree P pid of Some q \<Rightarrow> has_root P q | None \<Rightarrow> True)"
  (is "?L \<longleftrightarrow> ?R")
proof
  assume ?L
  then obtain k where k: "ancestor P k pid = None" by (auto simp: has_root_def)
  then obtain j where "k = Suc j" by (cases k) auto
  then show ?R using k by (auto simp: ancestor_Suc has_root_def split: option.splits)
next
  assume ?R
  then obtain k where "ancestor P (Suc k) pid = None"
    by (auto simp: ancestor_Suc has_root_def split: option.splits)
  then show ?L unfolding has_root_def by blast
qed

definition walk_result :: "network_policy \<Rightarrow> pid \<Rightarrow> bool \<Rightarrow> bool" where
  "walk_result P pid b = (if b then meets_agent P pid else \<not> meets_agent P pid \<and> has_root P pid)"

lemma walk_sound:
  assumes ret: "is_in_agent_tree P pid = Some b"
  shows "walk_result P pid b"
proof -
  have "(\<lambda>(P, cur) b. walk_result P cur b) (P, pid) b"
  proof (rule is_in_agent_tree.raw_induct[OF _ ret])
    fix f P cur b
    assume IH: "\<And>P' q b. f P' q = Some b \<Longrightarrow> (\<lambda>(P, cur) b. walk_result P cur b) (P', q) b"
      and body: "(if cur \<in> set (agent_pids P) then Some True
                  else case pid_tree P cur of None \<Rightarrow> Some False | Some parent \<Rightarrow> f P parent) = Some b"
    have "walk_result P q b" if "f P q = Some b" for q using IH[OF that] by simp
    then show "(\<lambda>(P, cur) b. walk_result P cur b) (P, cur) b"
      using body meets_agent_step[of P cur] has_root_step[of P cur]
      by (auto simp: walk_result_def split: if_splits option.splits)
  qed
  then show ?thesis by simp
qed

lemma walk_meets: "ancestor P k pid = Some a \<Longrightarrow> a \<in> set (agent_pids P)
    \<Longrightarrow> is_in_agent_tree P pid = Some True"
proof (induction k arbitrary: pid)
  case 0
  then show ?case by (simp add: is_in_agent_tree.simps[of P a])
next
  case (Suc k)
  then show ?case
    by (auto simp: ancestor_Suc is_in_agent_tree.simps[of P pid] split: option.splits)
qed

lemma walk_ends: "ancestor P k pid = None \<Longrightarrow> is_in_agent_tree P pid \<noteq> None"
proof (induction k arbitrary: pid)
  case (Suc k)
  then show ?case
    by (auto simp: ancestor_Suc is_in_agent_tree.simps[of P pid] split: option.splits)
qed simp

lemma walk_exact:
  "(is_in_agent_tree P pid = Some True \<longleftrightarrow> meets_agent P pid)
   \<and> (is_in_agent_tree P pid = Some False \<longleftrightarrow> \<not> meets_agent P pid \<and> has_root P pid)
   \<and> (is_in_agent_tree P pid = None \<longleftrightarrow> \<not> meets_agent P pid \<and> \<not> has_root P pid)"
proof -
  have m: "meets_agent P pid \<Longrightarrow> is_in_agent_tree P pid = Some True"
    using walk_meets by (auto simp: meets_agent_def)
  have e: "has_root P pid \<Longrightarrow> is_in_agent_tree P pid \<noteq> None"
    unfolding has_root_def using walk_ends by blast
  show ?thesis
  proof (cases "is_in_agent_tree P pid")
    case None
    then show ?thesis using m e by auto
  next
    case (Some b)
    then show ?thesis using walk_sound[OF Some] m by (cases b) (auto simp: walk_result_def)
  qed
qed

section \<open>Properties\<close>

text \<open>
  The walk up the process tree answers yes exactly when some ancestor (the process included) is
  a registered agent, no exactly when there is none and the recorded chain ends, and does not return
  at all exactly when there is none and the chain never ends. A chain that never ends is one with a
  cycle, which two fork records make: nothing removes a record when a pid is reused.
\<close>
theorem tree_walk_exact:
  "(is_in_agent_tree P pid = Some True \<longleftrightarrow>
      (\<exists>k a. ancestor P k pid = Some a \<and> a \<in> set (agent_pids P)))
   \<and> (is_in_agent_tree P pid = Some False \<longleftrightarrow>
      (\<nexists>k a. ancestor P k pid = Some a \<and> a \<in> set (agent_pids P)) \<and> (\<exists>k. ancestor P k pid = None))
   \<and> (is_in_agent_tree P pid = None \<longleftrightarrow>
      (\<nexists>k a. ancestor P k pid = Some a \<and> a \<in> set (agent_pids P)) \<and> (\<nexists>k. ancestor P k pid = None))
   \<and> is_in_agent_tree (register_fork 7 8 (register_fork 8 7 network_new)) 7 = None"
proof -
  let ?C = "register_fork 7 8 (register_fork 8 7 network_new)"
  have "ancestor ?C k p \<in> {Some 7, Some 8}" if "p \<in> {7, 8}" for k p
    using that
    by (induction k arbitrary: p) (auto simp: ancestor_Suc register_fork_def)
  then have "\<not> has_root ?C 7" by (metis has_root_def insertI1 insertE option.distinct(1) singletonD)
  moreover have "\<not> meets_agent ?C 7"
    by (simp add: meets_agent_def register_fork_def network_new_def)
  ultimately have "is_in_agent_tree ?C 7 = None" using walk_exact[of ?C 7] by blast
  then show ?thesis
    using walk_exact[of P pid] unfolding meets_agent_def has_root_def by blast
qed

lemma meets_agent_mono: "meets_agent P pid \<Longrightarrow> meets_agent (register_agent p P) pid"
proof -
  have "ancestor (register_agent p P) k q = ancestor P k q" for k q
    by (simp add: ancestor_def register_agent_def)
  then show "meets_agent P pid \<Longrightarrow> meets_agent (register_agent p P) pid"
    by (auto simp: meets_agent_def register_agent_def)
qed

lemma has_root_register: "has_root (register_agent p P) pid = has_root P pid"
  by (simp add: has_root_def ancestor_def register_agent_def)

text \<open>
  Registering an agent and approving a destination only widen what is allowed: an event allowed
  before is allowed after, in every mode and enforcement setting.
\<close>
theorem registration_only_widens:
  assumes "network_evaluate P ev = Some Allow"
  shows "network_evaluate (register_agent p P) ev = Some Allow
         \<and> network_evaluate (approve_destination d P) ev = Some Allow"
proof
  let ?R = "register_agent p P" and ?D = "approve_destination d P"
  have walk: "is_in_agent_tree ?R (ev_pid ev) \<noteq> None \<and>
      (is_in_agent_tree P (ev_pid ev) = Some True \<longrightarrow> is_in_agent_tree ?R (ev_pid ev) = Some True)"
    if returns: "is_in_agent_tree P (ev_pid ev) \<noteq> None"
  proof -
    obtain b where b: "is_in_agent_tree P (ev_pid ev) = Some b" using returns by blast
    note walk_exact[of P "ev_pid ev"] walk_exact[of ?R "ev_pid ev"]
      meets_agent_mono[of P "ev_pid ev" p] has_root_register[of p P "ev_pid ev"]
    then show ?thesis using b by (cases b) auto
  qed
  have tree: "is_in_agent_tree ?D = is_in_agent_tree P"
  proof
    fix q
    have "meets_agent ?D q = meets_agent P q" "has_root ?D q = has_root P q"
      by (simp_all add: meets_agent_def has_root_def ancestor_def approve_destination_def)
    then show "is_in_agent_tree ?D q = is_in_agent_tree P q"
      using walk_exact[of ?D q] walk_exact[of P q] by (cases "is_in_agent_tree P q") auto
  qed
  show "network_evaluate ?R ev = Some Allow"
    using assms walk
    by (cases "np_mode P"; cases "np_enforce P")
      (auto simp: network_evaluate_def should_block_def register_agent_def
        split: if_splits option.splits bool.splits)
  show "network_evaluate ?D ev = Some Allow"
    using assms
    by (cases "np_mode P"; cases "np_enforce P")
      (auto simp: network_evaluate_def should_block_def tree[unfolded approve_destination_def]
          approve_destination_def
        split: if_splits option.splits bool.splits)
qed

theorem registration_only_widens_witness:
  "network_evaluate (register_agent 5 network_new)
     (blank_event\<lparr>ev_target := ''localhost:80''\<rparr>) = Some Allow"
proof -
  have "is_whitelisted_destination ''localhost:80''" by code_simp
  then have "network_evaluate network_new (blank_event\<lparr>ev_target := ''localhost:80''\<rparr>) = Some Allow"
    by (simp add: network_evaluate_def)
  then show ?thesis using registration_only_widens by blast
qed

end
