(* ===== verification/AgentDetect.thy ===== *)
theory AgentDetect
  imports Capability Network
begin

text \<open>
  agent/src/common/agent_detect.rs: which processes are AI agents, and the class an agent is
  registered under. \<open>lower\<close> is \<open>str::to_lowercase\<close>, \<open>lossy\<close> is \<open>String::from_utf8_lossy\<close>;
  /proc is an argument.
\<close>

definition AGENT_NAMES :: "string list" where
  "AGENT_NAMES =
     [''claude'', ''cursor'', ''copilot'', ''codex'', ''chatgpt'', ''gemini'', ''devin'', ''aider'',
      ''windsurf'', ''cody'', ''tabnine'', ''continue'', ''cline'', ''hermes'', ''agy'',
      ''antigravity'', ''opencode'']"

definition AGENT_PHRASES :: "string list" where
  "AGENT_PHRASES = [''code helper'', ''cursor helper'']"

definition AGENT_SUFFIXES :: "string list" where
  "AGENT_SUFFIXES = [''claw'']"

definition tokens :: "string \<Rightarrow> string list" where
  "tokens name = filter (\<lambda>t. t \<noteq> []) (split_on (\<lambda>c. \<not> is_ascii_alphanumeric c) name)"

definition PACKAGE_MANAGERS :: "string list" where
  "PACKAGE_MANAGERS =
     [''npm'', ''npx'', ''pnpm'', ''pnpx'', ''yarn'', ''bun'', ''bunx'', ''pip'', ''pip3'', ''pipx'',
      ''uv'', ''uvx'', ''poetry'', ''cargo'', ''gem'', ''npm-cli.js'', ''npx-cli.js'', ''yarn.js'',
      ''pnpm.cjs'', ''pnpm.mjs'']"

text \<open>\<open>rsplit(['/', '\\']).next()\<close>: what follows the last slash or backslash.\<close>

definition last_component :: "string \<Rightarrow> string" where
  "last_component s = last (split_on (\<lambda>c. c = CHR ''/'' \<or> c = CHR 0x5C) s)"

definition program_word :: "(string \<Rightarrow> string) \<Rightarrow> string \<Rightarrow> string" where
  "program_word lower name =
     lower (last_component (case first_word name of Some w \<Rightarrow> w | None \<Rightarrow> []))"

definition is_package_manager :: "(string \<Rightarrow> string) \<Rightarrow> string \<Rightarrow> bool" where
  "is_package_manager lower name = (program_word lower name \<in> set PACKAGE_MANAGERS)"

definition is_ai_agent :: "(string \<Rightarrow> string) \<Rightarrow> string \<Rightarrow> bool" where
  "is_ai_agent lower process_name =
     (let p = lower process_name
      in if list_ex (contains p) AGENT_PHRASES then True
         else if is_package_manager lower p then False
         else list_ex (\<lambda>t. t \<in> set AGENT_NAMES \<or> list_ex (ends_with t) AGENT_SUFFIXES) (tokens p))"

definition is_agent_path :: "(string \<Rightarrow> string) \<Rightarrow> string \<Rightarrow> bool" where
  "is_agent_path lower path =
     (let p = lower path
      in contains p ''cursor-agent'' \<or> contains p ''.cursor/'' \<or> contains p ''.codex/''
         \<or> contains p ''claude-code'' \<or> contains p ''.claude/'' \<or> contains p ''antigravity''
         \<or> contains p ''gemini-cli'' \<or> contains p ''copilot'' \<or> contains p ''windsurf''
         \<or> contains p ''aider'')"

text \<open>
  \<open>exe_of\<close> reads the link of a pid's executable; \<open>tgid_of\<close> the thread group in its status file.
\<close>

definition is_agent_by_binary ::
  "(string \<Rightarrow> string) \<Rightarrow> (nat \<Rightarrow> string option) \<Rightarrow> (nat \<Rightarrow> nat option) \<Rightarrow> nat \<Rightarrow> bool" where
  "is_agent_by_binary lower exe_of tgid_of pid =
     (case exe_of pid of
        Some path \<Rightarrow> is_agent_path lower path
      | None \<Rightarrow>
         (case tgid_of pid of
            Some tgid \<Rightarrow>
              (case exe_of tgid of Some path \<Rightarrow> is_agent_path lower path | None \<Rightarrow> False)
          | None \<Rightarrow> False))"

definition classify_agent :: "(string \<Rightarrow> string) \<Rightarrow> string \<Rightarrow> string" where
  "classify_agent lower process_name =
     (let p = lower process_name
      in if contains p ''claude'' then ''claude''
         else if contains p ''cursor'' then ''cursor''
         else if contains p ''copilot'' then ''copilot''
         else if contains p ''codex'' then ''codex''
         else if contains p ''chatgpt'' then ''chatgpt''
         else if contains p ''gemini'' then ''gemini''
         else if contains p ''devin'' then ''devin''
         else if contains p ''aider'' then ''aider''
         else if contains p ''windsurf'' then ''windsurf''
         else if starts_with p ''opencode'' then ''opencode''
         else if starts_with p ''agy'' \<or> contains p ''antigravity'' then ''antigravity''
         else if contains p ''cody'' then ''cody''
         else if contains p ''tabnine'' then ''tabnine''
         else if contains p ''claw'' then ''claw''
         else if contains p ''hermes'' then ''hermes''
         else ''custom'')"

text \<open>\<open>cmdline_of\<close> is the content of /proc/pid/cmdline, split at its NUL bytes.\<close>

definition detect_agent_for_pid ::
  "(string \<Rightarrow> string) \<Rightarrow> (string \<Rightarrow> string) \<Rightarrow> (nat \<Rightarrow> string list option) \<Rightarrow> nat \<Rightarrow> string
     \<Rightarrow> string option" where
  "detect_agent_for_pid lower lossy cmdline_of pid comm =
     (if is_ai_agent lower comm then Some (classify_agent lower comm)
      else
        case cmdline_of pid of
          None \<Rightarrow> None
        | Some parts \<Rightarrow>
           (let toks = map lossy (filter (\<lambda>t. t \<noteq> []) parts)
            in if list_ex (is_package_manager lower) (take 2 toks) then None
               else find_map (\<lambda>s. let base = last_component s
                                   in if is_ai_agent lower base
                                      then Some (classify_agent lower base) else None) toks))"

definition known_agents :: "string list" where
  "known_agents = AGENT_NAMES"

definition is_llm_destination :: "string list \<Rightarrow> string \<Rightarrow> bool" where
  "is_llm_destination ips target = is_llm_api_destination ips target"

section \<open>Properties\<close>

definition AGENT_CLASSES :: "string list" where
  "AGENT_CLASSES =
     [''claude'', ''cursor'', ''copilot'', ''codex'', ''chatgpt'', ''gemini'', ''devin'', ''aider'',
      ''windsurf'', ''opencode'', ''antigravity'', ''cody'', ''tabnine'', ''claw'', ''hermes'',
      ''custom'']"

lemma classify_agent_range: "classify_agent lower n \<in> set AGENT_CLASSES"
  unfolding classify_agent_def AGENT_CLASSES_def Let_def by simp

lemma detect_range:
  "detect_agent_for_pid lower lossy cmdline_of pid comm = Some a \<Longrightarrow> a \<in> set AGENT_CLASSES"
  using classify_agent_range
  by (auto simp: detect_agent_for_pid_def Let_def split: if_splits option.splits
      dest!: find_map_Some)

lemma cline_profile_valid: "validate id (agent_profile ''cline'') = Inr ()"
proof -
  have "valid_name ''cline''" "valid_agent_id ''cline''" by code_simp+
  moreover have "list_all host_label (split_on (\<lambda>c. c = CHR ''.'') ''a.com'')" by code_simp
  then have "valid_host_entry ''*.a.com''"
    by (simp add: valid_host_entry_def strip_prefix_def)
  ultimately show ?thesis by (simp add: validate_def agent_profile_def default_profile_def)
qed

text \<open>The agent recogniser the event loop hands to the capability check (agent/src/main.rs).\<close>

definition comm_of_cmdline :: "string \<Rightarrow> string" where
  "comm_of_cmdline cmd = last_segment (case first_word cmd of Some w \<Rightarrow> w | None \<Rightarrow> [])"

definition event_agent_of ::
  "(string \<Rightarrow> string) \<Rightarrow> (string \<Rightarrow> string) \<Rightarrow> (nat \<Rightarrow> string list option) \<Rightarrow> nat \<Rightarrow> string
     \<Rightarrow> string option" where
  "event_agent_of lower lossy cmdline_of pid cmd =
     detect_agent_for_pid lower lossy cmdline_of pid (comm_of_cmdline cmd)"

text \<open>
  A profile for an agent id that the classifier never returns owns no event at all, although
  such a profile passes validation. The recogniser knows the agents cline and continue by name, but
  both are classified as custom, so a profile for either of them is dead.
\<close>
theorem unclassified_agent_profile_is_dead:
  assumes "pc_agent p = Some a" "a \<notin> set AGENT_CLASSES" "validate dbg p = Inr ()"
  shows "attribute ps anc (event_agent_of lower lossy cmdline_of) \<noteq> Some (p, k)"
proof
  assume att: "attribute ps anc (event_agent_of lower lossy cmdline_of) = Some (p, k)"
  have "owns ps (event_agent_of lower lossy cmdline_of) (anc ! k) p"
    using attribute_from_spec[where ps = ps and agent_of = "event_agent_of lower lossy cmdline_of"
        and d = 0 and anc = "take MAX_ANCESTRY anc"] att
    by (auto simp: attribute_def)
  moreover have "mcp_match p = []"
    using assms(1,3) by (cases "mcp_match p = []") (auto simp: validate_def split: if_splits)
  ultimately have "\<exists>pc. event_agent_of lower lossy cmdline_of (fst pc) (snd pc) = Some a"
    using assms(1) by (auto simp: owns_def mcp_hit_def)
  then show False using assms(2) detect_range by (auto simp: event_agent_of_def)
qed

theorem unclassified_agent_profile_is_dead_witness:
  "attribute [agent_profile ''cline''] [(9, ''cline'')] (event_agent_of id id (\<lambda>_. None))
   \<noteq> Some (agent_profile ''cline'', 0)
   \<and> is_ai_agent id ''cline'' \<and> classify_agent id ''cline'' = ''custom''"
proof -
  have v: "validate id (agent_profile ''cline'') = Inr ()"
    by (rule cline_profile_valid)
  have "is_ai_agent id ''cline''" "classify_agent id ''cline'' = ''custom''" by code_simp+
  moreover have "pc_agent (agent_profile ''cline'') = Some ''cline''"
    by (simp add: agent_profile_def)
  ultimately show ?thesis
    using unclassified_agent_profile_is_dead[OF _ _ v, of "''cline''"]
    by (simp add: AGENT_CLASSES_def)
qed

end
