(* ===== verification/Review.thy ===== *)
theory Review
  imports Sled
begin

text \<open>
  agent/src/review.rs: the review queue. A review item is stored under a key that counts down with
  the clock, so that the tree's own order is newest first. The time, the eight characters of a
  fresh UUID and the outcome of a write are arguments; a stored value that cannot be read or does
  not decode is \<open>None\<close>.
\<close>

section \<open>Items\<close>

datatype review_source = KernelDeny | CheckFlag | PolicyMutationRefused

datatype label = LBenign | LRealThreat | LFalsePositive

definition parse_label :: "string \<Rightarrow> label option" where
  "parse_label s =
     (if s = ''benign'' then Some LBenign
      else if s = ''real-threat'' \<or> s = ''real_threat'' then Some LRealThreat
      else if s = ''false-positive'' \<or> s = ''false_positive'' then Some LFalsePositive
      else None)"

record review_item =
  ri_id :: string
  ri_created :: int
  ri_source :: review_source
  ri_session :: string
  ri_summary :: string
  ri_trace :: json
  ri_label :: "label option"
  ri_labeled_at :: "int option"

type_synonym review_tree = "(string \<times> review_item option) list"

section \<open>Operations\<close>

text \<open>\<open>{:020}\<close>: at least twenty digits, padded with zeros.\<close>

definition pad20 :: "nat \<Rightarrow> string" where
  "pad20 n = replicate (20 - length (show_nat n)) (CHR ''0'') @ show_nat n"

definition review_id :: "int \<Rightarrow> string \<Rightarrow> string" where
  "review_id now_micros uuid8 =
     pad20 (2 ^ 64 - 1 - nat (max now_micros 0)) @ ''-'' @ uuid8"

definition review_push ::
  "bool \<Rightarrow> int \<Rightarrow> string \<Rightarrow> review_source \<Rightarrow> string \<Rightarrow> string \<Rightarrow> json \<Rightarrow> review_tree
     \<Rightarrow> (unit + string) \<times> review_tree" where
  "review_push write_ok now uuid8 src session summary trace q =
     (let rid = review_id now uuid8;
          item = \<lparr>ri_id = rid, ri_created = now, ri_source = src, ri_session = session,
                  ri_summary = summary, ri_trace = trace, ri_label = None, ri_labeled_at = None\<rparr>
      in if write_ok then (Inr rid, db_insert rid (Some item) q) else (Inl (), q))"

definition review_items :: "review_tree \<Rightarrow> review_item list" where
  "review_items q = List.map_filter snd q"

definition review_list :: "nat \<Rightarrow> bool \<Rightarrow> review_tree \<Rightarrow> review_item list" where
  "review_list limit unlabeled_only q =
     take limit (filter (\<lambda>i. \<not> unlabeled_only \<or> ri_label i = None) (review_items q))"

definition review_get :: "string \<Rightarrow> review_tree \<Rightarrow> review_item option" where
  "review_get rid q = Option.bind (map_of q rid) id"

definition review_label ::
  "bool \<Rightarrow> int \<Rightarrow> string \<Rightarrow> label \<Rightarrow> review_tree \<Rightarrow> (unit + bool) \<times> review_tree" where
  "review_label write_ok now rid l q =
     (case review_get rid q of
        None \<Rightarrow> (Inr False, q)
      | Some item \<Rightarrow>
          let item' = item\<lparr>ri_label := Some l, ri_labeled_at := Some now\<rparr>
          in if write_ok then (Inr True, db_insert rid (Some item') q) else (Inl (), q))"

record review_stats =
  rs_total :: nat
  rs_unlabeled :: nat
  rs_benign :: nat
  rs_real :: nat
  rs_fp :: nat

fun count_item :: "review_item \<Rightarrow> review_stats \<Rightarrow> review_stats" where
  "count_item i s =
     (let t = s\<lparr>rs_total := rs_total s + 1\<rparr>
      in case ri_label i of
           None \<Rightarrow> t\<lparr>rs_unlabeled := rs_unlabeled s + 1\<rparr>
         | Some LBenign \<Rightarrow> t\<lparr>rs_benign := rs_benign s + 1\<rparr>
         | Some LRealThreat \<Rightarrow> t\<lparr>rs_real := rs_real s + 1\<rparr>
         | Some LFalsePositive \<Rightarrow> t\<lparr>rs_fp := rs_fp s + 1\<rparr>)"

definition no_stats :: review_stats where
  "no_stats = \<lparr>rs_total = 0, rs_unlabeled = 0, rs_benign = 0, rs_real = 0, rs_fp = 0\<rparr>"

definition review_stats_of :: "review_tree \<Rightarrow> review_stats" where
  "review_stats_of q = fold count_item (review_items q) no_stats"

section \<open>Order of the keys\<close>

fun fixed :: "nat \<Rightarrow> nat \<Rightarrow> string" where
  "fixed 0 n = []"
| "fixed (Suc w) n = fixed w (n div 10) @ [digit_char (n mod 10)]"

lemma length_fixed [simp]: "length (fixed w n) = w"
  by (induction w arbitrary: n) simp_all

lemma digit_char_less: "a < 10 \<Longrightarrow> b < 10 \<Longrightarrow> digit_char a < digit_char b \<longleftrightarrow> a < b"
  by (simp add: digit_char_def less_char_def of_char_of)

lemma less_append: "length xs = length ys \<Longrightarrow> (xs :: string) < ys \<Longrightarrow> xs @ u < ys @ v"
  by (induction xs ys rule: list_induct2) auto

lemma less_append_iff: "length xs = length ys \<Longrightarrow>
    (xs :: string) @ u < ys @ v \<longleftrightarrow> xs < ys \<or> xs = ys \<and> u < v"
  by (induction xs ys rule: list_induct2) auto

lemma digit_char_inj: "a < 10 \<Longrightarrow> b < 10 \<Longrightarrow> digit_char a = digit_char b \<longleftrightarrow> a = b"
  by (metis digit_char_val)

lemma div_mod_eq_iff: "a = b \<longleftrightarrow> a div 10 = b div 10 \<and> a mod 10 = b mod (10 :: nat)"
  by (metis mult_div_mod_eq)

lemma fixed_inj: "a < 10 ^ w \<Longrightarrow> b < 10 ^ w \<Longrightarrow> fixed w a = fixed w b \<longleftrightarrow> a = b"
proof (induction w arbitrary: a b)
  case (Suc w)
  have "a div 10 < 10 ^ w" "b div 10 < 10 ^ w" using Suc.prems by (auto simp: less_mult_imp_div_less)
  then show ?case using Suc.IH div_mod_eq_iff[of a b] by (simp add: digit_char_inj)
qed simp

lemma div_mod_less_iff:
  "a < b \<longleftrightarrow> a div 10 < b div 10 \<or> a div 10 = b div 10 \<and> a mod 10 < b mod (10 :: nat)"
proof -
  have "a = 10 * (a div 10) + a mod 10" "b = 10 * (b div 10) + b mod 10"
    "a mod 10 < 10" "b mod 10 < 10" by simp_all
  then show ?thesis by linarith
qed

lemma fixed_less: "a < 10 ^ w \<Longrightarrow> b < 10 ^ w \<Longrightarrow> fixed w a < fixed w b \<longleftrightarrow> a < b"
proof (induction w arbitrary: a b)
  case (Suc w)
  have lt: "a div 10 < 10 ^ w" "b div 10 < 10 ^ w"
    using Suc.prems by (auto simp: less_mult_imp_div_less)
  have "a < b \<longleftrightarrow> a div 10 < b div 10 \<or> a div 10 = b div 10 \<and> a mod 10 < b mod 10"
    by (rule div_mod_less_iff)
  then show ?case
    by (simp add: less_append_iff fixed_inj[OF lt] Suc.IH[OF lt] digit_char_less)
qed simp

lemma fixed_show_nat:
  "n < 10 ^ w \<Longrightarrow> 0 < w \<Longrightarrow>
     fixed w n = replicate (w - length (show_nat n)) (CHR ''0'') @ show_nat n"
proof (induction w arbitrary: n)
  case (Suc w)
  have d0: "digit_char 0 = CHR ''0''" by code_simp
  show ?case
  proof (cases "n < 10")
    case True
    have "fixed w 0 = replicate w (CHR ''0'')" for w
      by (induction w) (simp_all add: d0 flip: replicate_append_same)
    then show ?thesis using True by (simp add: show_nat.simps[of n])
  next
    case False
    with Suc.prems have "n div 10 < 10 ^ w" "0 < w"
      by (auto simp: less_mult_imp_div_less intro: Nat.gr0I)
    then show ?thesis using Suc.IH False by (simp add: show_nat.simps[of n])
  qed
qed simp

lemma pad20_fixed: "n < 2 ^ 64 \<Longrightarrow> pad20 n = fixed 20 n"
  by (simp add: pad20_def fixed_show_nat)

lemma review_id_less:
  "0 \<le> t \<Longrightarrow> t < t' \<Longrightarrow> t' < 2 ^ 63 \<Longrightarrow> review_id t' u' < review_id t u"
  by (auto simp: review_id_def pad20_fixed fixed_less intro!: less_append)

section \<open>Properties\<close>

text \<open>A push as a caller sees it, with the clock and the UUID it draws.\<close>

record push_call =
  pu_now :: int
  pu_uuid :: string
  pu_source :: review_source
  pu_session :: string
  pu_summary :: string
  pu_trace :: json

definition push_one :: "review_tree \<Rightarrow> push_call \<Rightarrow> review_tree" where
  "push_one q p =
     snd (review_push True (pu_now p) (pu_uuid p) (pu_source p) (pu_session p) (pu_summary p)
            (pu_trace p) q)"

definition pushed_item :: "push_call \<Rightarrow> review_item" where
  "pushed_item p =
     \<lparr>ri_id = review_id (pu_now p) (pu_uuid p), ri_created = pu_now p, ri_source = pu_source p,
      ri_session = pu_session p, ri_summary = pu_summary p, ri_trace = pu_trace p,
      ri_label = None, ri_labeled_at = None\<rparr>"

lemma push_one_eq:
  "push_one q p = db_insert (review_id (pu_now p) (pu_uuid p)) (Some (pushed_item p)) q"
  by (simp add: push_one_def pushed_item_def review_push_def Let_def)

lemma pushes_in_order:
  assumes "sorted_wrt (\<lambda>p p'. pu_now p < pu_now p') ps"
    and "list_all (\<lambda>p. 0 \<le> pu_now p \<and> pu_now p < 2 ^ 63) ps"
  shows "foldl push_one [] ps =
    map (\<lambda>p. (review_id (pu_now p) (pu_uuid p), Some (pushed_item p))) (rev ps)"
  using assms
proof (induction ps rule: rev_induct)
  case (snoc p ps)
  have before: "pu_now x < pu_now p" "0 \<le> pu_now x" if "x \<in> set ps" for x
    using snoc.prems that by (auto simp: sorted_wrt_append list_all_iff)
  have "\<forall>k \<in> keys (foldl push_one [] ps). review_id (pu_now p) (pu_uuid p) < k"
    using snoc before by (force simp: sorted_wrt_append keys_def intro: review_id_less)
  from insert_at_front[OF this] have "foldl push_one [] (ps @ [p]) =
      (review_id (pu_now p) (pu_uuid p), Some (pushed_item p)) # foldl push_one [] ps"
    by (simp add: push_one_eq)
  then show ?case using snoc by (simp add: sorted_wrt_append)
qed simp

text \<open>
  The queue lists newest first: after any pushes at increasing times within the range of the
  clock, listing returns exactly the pushed items in reverse order of their pushing, cut to the
  limit, and none of them is lost or overwritten.
\<close>
theorem review_lists_newest_first:
  assumes "sorted_wrt (\<lambda>p p'. pu_now p < pu_now p') ps"
    and "list_all (\<lambda>p. 0 \<le> pu_now p \<and> pu_now p < 2 ^ 63) ps"
  shows "review_list n False (foldl push_one [] ps) = take n (rev (map pushed_item ps))
    \<and> review_list n True (foldl push_one [] ps) = take n (rev (map pushed_item ps))"
proof -
  have "review_items (foldl push_one [] ps) = rev (map pushed_item ps)"
    by (simp add: pushes_in_order[OF assms] review_items_def List.map_filter_def rev_map comp_def)
  moreover have "filter (\<lambda>i. ri_label i = None) (rev (map pushed_item ps)) = rev (map pushed_item ps)"
    by (auto simp: filter_id_conv pushed_item_def)
  ultimately show ?thesis
    by (simp_all add: review_list_def)
qed

lemma review_label_get:
  assumes "key_ordered q" "review_get rid q = Some i"
  shows "review_get r (snd (review_label True now rid l q)) =
    (if r = rid then Some (i\<lparr>ri_label := Some l, ri_labeled_at := Some now\<rparr>) else review_get r q)"
  using assms by (auto simp: review_label_def review_get_def Let_def map_of_insert)

lemma stats_fold:
  "rs_total (fold count_item xs s) = rs_total s + length xs"
  "rs_unlabeled (fold count_item xs s) = rs_unlabeled s + length (filter (\<lambda>i. ri_label i = None) xs)"
  "rs_benign (fold count_item xs s) = rs_benign s + length (filter (\<lambda>i. ri_label i = Some LBenign) xs)"
  "rs_real (fold count_item xs s) = rs_real s + length (filter (\<lambda>i. ri_label i = Some LRealThreat) xs)"
  "rs_fp (fold count_item xs s) = rs_fp s + length (filter (\<lambda>i. ri_label i = Some LFalsePositive) xs)"
  by (induction xs arbitrary: s) (auto simp: Let_def split: option.split label.split)

text \<open>
  A label can be set again: labelling an item that already has a label replaces the label and
  its time, and touches no other item. (The field's comment says that it is set once.)
\<close>
theorem label_is_replaced:
  assumes "key_ordered q" "review_get rid q = Some i"
  shows "review_get rid (snd (review_label True t' rid l' (snd (review_label True t rid l q))))
      = Some (i\<lparr>ri_label := Some l', ri_labeled_at := Some t'\<rparr>)
    \<and> (\<forall>r. r \<noteq> rid \<longrightarrow>
      review_get r (snd (review_label True t' rid l' (snd (review_label True t rid l q))))
      = review_get r q)"
proof -
  have o: "key_ordered (snd (review_label True t rid l q))"
    using assms(1) by (auto simp: review_label_def Let_def key_ordered_insert split: option.split)
  have g: "review_get rid (snd (review_label True t rid l q))
      = Some (i\<lparr>ri_label := Some l, ri_labeled_at := Some t\<rparr>)"
    using review_label_get[OF assms] by simp
  show ?thesis
    using review_label_get[OF o g] review_label_get[OF assms] by simp
qed

definition sample_push :: "int \<Rightarrow> push_call" where
  "sample_push t = \<lparr>pu_now = t, pu_uuid = ''0a1b2c3d'', pu_source = CheckFlag, pu_session = ''s'',
     pu_summary = ''m'', pu_trace = JNull\<rparr>"

theorem review_lists_newest_first_witness:
  "map ri_created (review_list 2 True (foldl push_one [] (map sample_push [5, 7, 1000000]))) = [1000000, 7]"
  using review_lists_newest_first[of "map sample_push [5, 7, 1000000]" 2]
  by (simp add: sample_push_def pushed_item_def)

theorem label_is_replaced_witness:
  "let q = push_one [] (sample_push 9); r = review_id 9 ''0a1b2c3d'' in
   map_option ri_label (review_get r (snd (review_label True 11 r LBenign
      (snd (review_label True 10 r LRealThreat q))))) = Some (Some LBenign)"
proof -
  have "key_ordered (push_one [] (sample_push 9))"
    and "review_get (review_id 9 ''0a1b2c3d'') (push_one [] (sample_push 9))
      = Some (pushed_item (sample_push 9))"
    by (simp_all add: push_one_eq review_get_def sample_push_def pushed_item_def)
  from label_is_replaced[OF this] show ?thesis by (simp add: Let_def)
qed

end
