(* ===== verification/Caller.thy ===== *)
theory Caller
  imports AgentDetect AuditLog Review
begin

text \<open>
  agent/src/api/caller.rs: which process is on the other end of a local API call, and whether it is
  an AI agent or the descendant of one. What the code reads from /proc is the record \<open>proc_world\<close>;
  a file that cannot be read is \<open>None\<close>. A lookup that panics (a slice inside a character) is
  \<open>None\<close> in the results below.
\<close>

section \<open>What is read from /proc\<close>

record proc_world =
  pw_comm :: "nat \<Rightarrow> string option"
  pw_exe :: "nat \<Rightarrow> string option"
  pw_tgid :: "nat \<Rightarrow> nat option"
  pw_status :: "nat \<Rightarrow> string option"
  pw_net :: "string \<Rightarrow> string option"
  pw_entries :: "(string option \<times> string list option) list option"

type_synonym socket_addr = "ip_addr \<times> nat"

text \<open>\<open>str::lines\<close>: a line ends at a line feed, with a carriage return before it taken off.\<close>

definition strip_cr :: "string \<Rightarrow> string" where
  "strip_cr s = (if ends_with s [CHR 0x0D] then butlast s else s)"

definition str_lines :: "string \<Rightarrow> string list" where
  "str_lines s =
     (let ps = split_on (\<lambda>c. c = CHR 0x0A) s
      in map strip_cr (butlast ps) @ (if last ps = [] then [] else [last ps]))"

text \<open>\<open>from_str_radix\<close> with radix sixteen for an unsigned type with largest value \<open>hi\<close>.\<close>

definition parse_hex :: "nat \<Rightarrow> string \<Rightarrow> nat option" where
  "parse_hex hi s =
     (let t = (case s of c # cs \<Rightarrow> if c = CHR ''+'' then cs else s | [] \<Rightarrow> s)
      in if t = [] then None
         else Option.bind (those (map (to_digit 16) t))
                (\<lambda>ds. let n = foldl (\<lambda>a d. a * 16 + d) 0 ds in if n \<le> hi then Some n else None))"

section \<open>The caller\<close>

datatype caller =
    Trusted nat
  | Agent nat nat string
  | Unresolved string

fun may_mutate :: "caller \<Rightarrow> bool" where
  "may_mutate (Trusted _) = True"
| "may_mutate _ = False"

fun refusal_message :: "caller \<Rightarrow> string" where
  "refusal_message (Trusted _) = []"
| "refusal_message (Agent _ agent_pid agent_name) =
     ''This request came from an AI agent process ('' @ agent_name @ '', pid '' @ show_nat agent_pid
     @ '') or one of its children. Changing policy from inside an agent is refused whatever ''
     @ ''token is presented. If you are a human operator, run the command from a shell ''
     @ ''that is not a child of an agent.''"
| "refusal_message (Unresolved reason) =
     ''This request could not be traced back to a local process ('' @ reason @ ''), so it ''
     @ ''cannot be shown not to be an AI agent. Mutating calls require that. Reads are ''
     @ ''unaffected.''"

section \<open>The ancestry walk\<close>

definition parent_pid :: "proc_world \<Rightarrow> nat \<Rightarrow> nat option" where
  "parent_pid W pid =
     Option.bind (pw_status W pid) (\<lambda>status.
       Option.bind (find_map (strip_prefix ''PPid:'') (str_lines status)) (\<lambda>v.
         parse_uint (2 ^ 32 - 1) (trim v)))"

text \<open>The tests of one process: its name, else the path of its binary.\<close>

definition agent_at :: "(string \<Rightarrow> string) \<Rightarrow> proc_world \<Rightarrow> nat \<Rightarrow> string option" where
  "agent_at lower W p =
     (let comm = (case pw_comm W p of Some c \<Rightarrow> trim c | None \<Rightarrow> [])
      in if comm \<noteq> [] \<and> is_ai_agent lower comm then Some comm
         else if is_agent_by_binary lower (pw_exe W) (pw_tgid W) p
              then Some (if comm = [] then ''agent'' else comm)
              else None)"

fun lineage_from ::
  "(string \<Rightarrow> string) \<Rightarrow> proc_world \<Rightarrow> nat \<Rightarrow> nat \<Rightarrow> (nat \<times> string) option" where
  "lineage_from lower W 0 current = None"
| "lineage_from lower W (Suc n) current =
     (if current \<le> 1 then None
      else case agent_at lower W current of
             Some name \<Rightarrow> Some (current, name)
           | None \<Rightarrow>
               (case parent_pid W current of
                  Some ppid \<Rightarrow> lineage_from lower W n ppid
                | None \<Rightarrow> None))"

definition MAX_DEPTH :: nat where
  "MAX_DEPTH = 64"

definition agent_in_lineage ::
  "(string \<Rightarrow> string) \<Rightarrow> proc_world \<Rightarrow> nat \<Rightarrow> (nat \<times> string) option" where
  "agent_in_lineage lower W pid = lineage_from lower W MAX_DEPTH pid"

definition classify_pid :: "(string \<Rightarrow> string) \<Rightarrow> proc_world \<Rightarrow> nat \<Rightarrow> caller" where
  "classify_pid lower W pid =
     (case agent_in_lineage lower W pid of
        Some (agent_pid, agent_name) \<Rightarrow> Agent pid agent_pid agent_name
      | None \<Rightarrow> Trusted pid)"

section \<open>From a peer address to a process\<close>

definition swap_bytes :: "ipv4 \<Rightarrow> ipv4" where
  "swap_bytes w = (case octets w of [a, b, c, d] \<Rightarrow> ipv4_of d c b a | _ \<Rightarrow> w)"

definition ipv6_of_octets :: "nat list \<Rightarrow> ipv6" where
  "ipv6_of_octets os = foldl (\<lambda>a d. a * 256 + word_of_nat d) 0 os"

definition to_canonical :: "nat list \<Rightarrow> ip_addr" where
  "to_canonical os =
     (case os of
        [0, 0, 0, 0, 0, 0, 0, 0, 0, 0, x, y, a, b, c, d] \<Rightarrow>
          if x = 255 \<and> y = 255 then V4 (ipv4_of a b c d) else V6 (ipv6_of_octets os)
      | _ \<Rightarrow> V6 (ipv6_of_octets os))"

text \<open>
  The four words of an IPv6 address, one slice after the other. A slice that starts or ends inside
  a character panics (\<open>None\<close>); the first word that is not a number ends the parse.
\<close>

fun proc_words :: "nat \<Rightarrow> string \<Rightarrow> nat list option option" where
  "proc_words 0 s = Some (Some [])"
| "proc_words (Suc n) s =
     (if (case drop 8 s of c # _ \<Rightarrow> is_cont c | [] \<Rightarrow> False) then None
      else case parse_hex (2 ^ 32 - 1) (take 8 s) of
             None \<Rightarrow> Some None
           | Some v \<Rightarrow>
               (case proc_words n (drop 8 s) of
                  None \<Rightarrow> None
                | Some None \<Rightarrow> Some None
                | Some (Some os) \<Rightarrow> Some (Some (octets (swap_bytes (word_of_nat v)) @ os))))"

definition parse_proc_ip :: "string \<Rightarrow> ip_addr option option" where
  "parse_proc_ip hex =
     (if length hex = 8 then
        Some (map_option (\<lambda>v. V4 (swap_bytes (word_of_nat v))) (parse_hex (2 ^ 32 - 1) hex))
      else if length hex = 32 then
        map_option (map_option to_canonical) (proc_words 4 hex)
      else Some None)"

datatype proc_row = Skip | Row bool nat

definition proc_row :: "socket_addr \<Rightarrow> string \<Rightarrow> proc_row option" where
  "proc_row peer line =
     (let f = split_whitespace line
      in if length f < 10 then Some Skip
         else if f ! 3 \<noteq> ''01'' then Some Skip
         else case rsplit_once (CHR '':'') (f ! 1) of
                None \<Rightarrow> Some Skip
              | Some (ip_hex, port_hex) \<Rightarrow>
                 (case parse_hex 65535 port_hex of
                    None \<Rightarrow> Some Skip
                  | Some port \<Rightarrow>
                      if port \<noteq> snd peer then Some Skip
                      else case parse_uint (2 ^ 64 - 1) (f ! 9) of
                             None \<Rightarrow> Some Skip
                           | Some inode \<Rightarrow>
                               if inode = 0 then Some Skip
                               else case parse_proc_ip ip_hex of
                                      None \<Rightarrow> None
                                    | Some ip \<Rightarrow> Some (Row (ip = Some (fst peer)) inode)))"

definition row_inode :: "bool \<Rightarrow> proc_row \<Rightarrow> nat option" where
  "row_inode exact r = (case r of Skip \<Rightarrow> None | Row e i \<Rightarrow> if e = exact then Some i else None)"

definition proc_net_rows :: "proc_world \<Rightarrow> string list" where
  "proc_net_rows W =
     concat (map (\<lambda>path. case pw_net W path of None \<Rightarrow> [] | Some text \<Rightarrow> drop 1 (str_lines text))
       [''/proc/net/tcp'', ''/proc/net/tcp6''])"

definition socket_inodes_for_peer :: "proc_world \<Rightarrow> socket_addr \<Rightarrow> nat list option" where
  "socket_inodes_for_peer W peer =
     map_option
       (\<lambda>rows. List.map_filter (row_inode True) rows @ List.map_filter (row_inode False) rows)
       (those (map (proc_row peer) (proc_net_rows W)))"

definition pid_holding_socket :: "proc_world \<Rightarrow> nat \<Rightarrow> nat option" where
  "pid_holding_socket W inode =
     (let want = ''socket:['' @ show_nat inode @ '']''
      in Option.bind (pw_entries W)
           (find_map (\<lambda>(name, fds).
              case Option.bind name (parse_uint (2 ^ 32 - 1)) of
                None \<Rightarrow> None
              | Some pid \<Rightarrow>
                 (case fds of
                    None \<Rightarrow> None
                  | Some targets \<Rightarrow> if want \<in> set targets then Some pid else None))))"

definition pid_for_peer ::
  "(socket_addr \<Rightarrow> string) \<Rightarrow> proc_world \<Rightarrow> socket_addr \<Rightarrow> (string + nat) option" where
  "pid_for_peer show_peer W peer =
     map_option
       (\<lambda>candidates.
          if candidates = [] then
            Inl (''no established /proc/net/tcp entry for '' @ show_peer peer)
          else case find_map (pid_holding_socket W) candidates of
                 Some pid \<Rightarrow> Inr pid
               | None \<Rightarrow>
                   Inl (''no process holds any of the '' @ show_nat (length candidates)
                        @ '' socket(s) for '' @ show_peer peer))
       (socket_inodes_for_peer W peer)"

definition classify_http ::
  "(string \<Rightarrow> string) \<Rightarrow> (socket_addr \<Rightarrow> string) \<Rightarrow> proc_world \<Rightarrow> socket_addr \<Rightarrow> caller option" where
  "classify_http lower show_peer W peer =
     map_option
       (\<lambda>r. case r of Inr pid \<Rightarrow> classify_pid lower W pid | Inl reason \<Rightarrow> Unresolved reason)
       (pid_for_peer show_peer W peer)"

section \<open>Recording a refusal\<close>

text \<open>
  What the clock, the UUID generator and the two stores answer while a refusal is recorded. Both
  results are ignored by the code.
\<close>

record refusal_io =
  io_audit_ok :: bool
  io_audit_now :: int
  io_review_ok :: bool
  io_review_now :: int
  io_uuid :: string

fun refusal_kind :: "caller \<Rightarrow> string option" where
  "refusal_kind (Agent _ _ _) = Some ''agent_caller''"
| "refusal_kind (Unresolved _) = Some ''unresolved_caller''"
| "refusal_kind (Trusted _) = None"

fun refusal_detail :: "caller \<Rightarrow> json" where
  "refusal_detail (Agent pid agent_pid agent_name) =
     JObj [(''caller_pid'', JNum (show_nat pid)), (''agent_pid'', JNum (show_nat agent_pid)),
           (''agent_name'', JStr agent_name)]"
| "refusal_detail (Unresolved reason) = JObj [(''reason'', JStr reason)]"
| "refusal_detail (Trusted _) = JNull"

fun refusal_summary :: "caller \<Rightarrow> string \<Rightarrow> string \<Rightarrow> string" where
  "refusal_summary (Agent _ agent_pid agent_name) meth path =
     ''An AI agent ('' @ agent_name @ '', pid '' @ show_nat agent_pid
     @ '') tried to change policy: '' @ meth @ '' '' @ path"
| "refusal_summary _ meth path =
     ''A caller that could not be identified tried to change policy: '' @ meth @ '' '' @ path"

definition record_refusal ::
  "audit_libs \<Rightarrow> refusal_io \<Rightarrow> caller \<Rightarrow> string \<Rightarrow> string \<Rightarrow> audit_log \<times> review_tree
     \<Rightarrow> audit_log \<times> review_tree" where
  "record_refusal A io c meth path st =
     (case refusal_kind c of
        None \<Rightarrow> st
      | Some kind \<Rightarrow>
          let detail = refusal_detail c;
              audit' = try_append A (io_audit_ok io) (io_audit_now io) PolicyChange
                (JObj [(''action'', JStr ''mutation_refused''), (''reason'', JStr kind),
                       (''method'', JStr meth), (''path'', JStr path), (''detail'', detail)])
                (fst st);
              review' = snd (review_push (io_review_ok io) (io_review_now io) (io_uuid io)
                PolicyMutationRefused [] (refusal_summary c meth path)
                (JObj [(''method'', JStr meth), (''path'', JStr path), (''reason'', JStr kind),
                       (''detail'', detail)])
                (snd st))
          in (audit', review'))"

section \<open>The walk said over ancestors\<close>

text \<open>The processes above \<open>pid\<close>, itself first; the chain stops at pid 1 and at an unreadable status.\<close>

fun lineage :: "proc_world \<Rightarrow> nat \<Rightarrow> nat \<Rightarrow> nat option" where
  "lineage W pid 0 = (if pid \<le> 1 then None else Some pid)"
| "lineage W pid (Suc k) =
     (if pid \<le> 1 then None else Option.bind (parent_pid W pid) (\<lambda>p. lineage W p k))"

definition clear_of_agents :: "(string \<Rightarrow> string) \<Rightarrow> proc_world \<Rightarrow> nat \<Rightarrow> nat \<Rightarrow> bool" where
  "clear_of_agents lower W n pid =
     (\<forall>k < n. \<forall>a. lineage W pid k = Some a \<longrightarrow> agent_at lower W a = None)"

lemma clear_0 [simp]: "clear_of_agents lower W 0 pid"
  by (simp add: clear_of_agents_def)

lemma clear_Suc:
  "clear_of_agents lower W (Suc n) pid \<longleftrightarrow>
     pid \<le> 1 \<or> agent_at lower W pid = None \<and>
       (case parent_pid W pid of None \<Rightarrow> True | Some p \<Rightarrow> clear_of_agents lower W n p)"
  by (auto simp: clear_of_agents_def less_Suc_eq_0_disj split: option.split)

lemma lineage_None_iff: "lineage_from lower W n pid = None \<longleftrightarrow> clear_of_agents lower W n pid"
  by (induction lower W n pid rule: lineage_from.induct)
    (simp_all add: clear_Suc split: option.split)

lemma lineage_Some_iff:
  "lineage_from lower W n pid = Some (a, name) \<longleftrightarrow>
     (\<exists>k < n. lineage W pid k = Some a \<and> agent_at lower W a = Some name
        \<and> clear_of_agents lower W k pid)"
proof (induction lower W n pid rule: lineage_from.induct)
  case (2 lower W n pid)
  have step: "(\<exists>k < Suc n. P k) \<longleftrightarrow> P 0 \<or> (\<exists>k < n. P (Suc k))" for P
    by (auto simp: less_Suc_eq_0_disj)
  show ?case
  proof (cases "pid \<le> 1 \<or> agent_at lower W pid \<noteq> None \<or> parent_pid W pid = None")
    case True
    then show ?thesis by (auto simp: step clear_Suc split: option.splits)
  next
    case False
    then obtain p where p: "1 < pid" "agent_at lower W pid = None" "parent_pid W pid = Some p"
      by auto
    then show ?thesis using 2[of p] by (auto simp: step clear_Suc)
  qed
qed simp

text \<open>
  A process is classified exactly by its first sixty-four ancestors: as an agent when one of
  them is recognised, and then by the nearest, and as trusted when none of them is.
\<close>
theorem caller_class_is_exact:
  "(classify_pid lower W pid = Trusted pid \<longleftrightarrow> clear_of_agents lower W 64 pid)
   \<and> (\<forall>a name. classify_pid lower W pid = Agent pid a name \<longleftrightarrow>
        (\<exists>k < 64. lineage W pid k = Some a \<and> agent_at lower W a = Some name
           \<and> clear_of_agents lower W k pid))"
proof -
  have "agent_in_lineage lower W pid = None \<longleftrightarrow> clear_of_agents lower W 64 pid"
    by (simp add: agent_in_lineage_def MAX_DEPTH_def lineage_None_iff)
  moreover have "classify_pid lower W pid = Trusted pid \<longleftrightarrow> agent_in_lineage lower W pid = None"
    "classify_pid lower W pid = Agent pid a name \<longleftrightarrow> agent_in_lineage lower W pid = Some (a, name)"
    for a name by (auto simp: classify_pid_def split: option.split)
  moreover have "agent_in_lineage lower W pid = Some (a, name) \<longleftrightarrow>
      (\<exists>k < 64. lineage W pid k = Some a \<and> agent_at lower W a = Some name
         \<and> clear_of_agents lower W k pid)" for a name
    by (simp only: agent_in_lineage_def MAX_DEPTH_def lineage_Some_iff)
  ultimately show ?thesis by simp
qed

text \<open>
  A caller whose process cannot be read at all is trusted: when its name, its binary and its
  status are gone (it exited after its socket was resolved), the walk finds no agent and the call may
  change policy. (The module says that an unproven caller is treated exactly like an agent.)
\<close>
theorem unreadable_caller_is_trusted:
  assumes "pw_comm W pid = None" "pw_exe W pid = None" "pw_tgid W pid = None"
    and "pw_status W pid = None"
  shows "classify_pid lower W pid = Trusted pid \<and> may_mutate (classify_pid lower W pid)"
proof -
  have "agent_at lower W pid = None" "parent_pid W pid = None"
    using assms by (simp_all add: agent_at_def is_agent_by_binary_def parent_pid_def)
  then have "clear_of_agents lower W 64 pid"
    using clear_Suc[of lower W 63 pid] by simp
  then show ?thesis using caller_class_is_exact[of lower W pid] by simp
qed

section \<open>The addresses in /proc/net\<close>

text \<open>How the kernel prints an address there: each 32-bit word in little-endian order, in hexadecimal.\<close>

definition hex_upper :: "nat \<Rightarrow> char" where
  "hex_upper d = (if d < 10 then char_of (48 + d) else char_of (55 + d))"

definition hex_octet :: "nat \<Rightarrow> string" where
  "hex_octet n = [hex_upper (n div 16), hex_upper (n mod 16)]"

fun kernel_words :: "nat list \<Rightarrow> string" where
  "kernel_words (a # b # c # d # os) =
     hex_octet d @ hex_octet c @ hex_octet b @ hex_octet a @ kernel_words os"
| "kernel_words _ = []"

definition octets6 :: "ipv6 \<Rightarrow> nat list" where
  "octets6 w = map (\<lambda>i. unat w div 256 ^ (16 - Suc i) mod 256) [0..<16]"

fun kernel_ip :: "ip_addr \<Rightarrow> string" where
  "kernel_ip (V4 w) = kernel_words (octets w)"
| "kernel_ip (V6 w) = kernel_words (octets6 w)"

text \<open>The caller an address stands for: an IPv4-mapped address is the IPv4 address.\<close>

definition unmapped :: "ip_addr \<Rightarrow> ip_addr" where
  "unmapped ip = (case ip of V4 w \<Rightarrow> V4 w | V6 w \<Rightarrow> to_canonical (octets6 w))"

lemma byte_hex: "d < 16 \<Longrightarrow> byte (hex_upper d) = (if d < 10 then 48 + d else 55 + d)"
  by (simp add: hex_upper_def byte_def of_char_of)

lemma hex_upper [simp]:
  assumes "d < 16"
  shows "to_digit 16 (hex_upper d) = Some d" "\<not> is_cont (hex_upper d)" "hex_upper d \<noteq> CHR ''+''"
proof -
  have p: "byte (CHR ''+'') = 43" by code_simp
  show "to_digit 16 (hex_upper d) = Some d" "\<not> is_cont (hex_upper d)"
    using assms by (auto simp: to_digit_def hex_val_def is_ascii_digit_def is_cont_def byte_hex)
  show "hex_upper d \<noteq> CHR ''+''" using byte_hex[OF assms] p by (auto split: if_splits)
qed

definition little_endian :: "nat \<Rightarrow> nat \<Rightarrow> nat \<Rightarrow> nat \<Rightarrow> nat" where
  "little_endian a b c d = ((d * 256 + c) * 256 + b) * 256 + a"

lemma parse_hex_octets:
  assumes "list_all (\<lambda>x. x < 256) [a, b, c, d]"
  shows "parse_hex 4294967295 (hex_octet d @ hex_octet c @ hex_octet b @ hex_octet a) =
    Some (little_endian a b c d)"
proof -
  let ?hex = "hex_octet d @ hex_octet c @ hex_octet b @ hex_octet a"
  let ?ds = "[d div 16, d mod 16, c div 16, c mod 16, b div 16, b mod 16, a div 16, a mod 16]"
  have lt: "a < 256" "b < 256" "c < 256" "d < 256" using assms by simp_all
  then have small: "x div 16 < 16" "x mod 16 < 16" if "x \<in> {a, b, c, d}" for x using that by auto
  have hex: "those (map (to_digit 16) ?hex) = Some ?ds" using small by (simp add: hex_octet_def)
  have two: "(x * 16 + y div 16) * 16 + y mod 16 = x * 256 + y" for x y :: nat by simp
  have "foldl (\<lambda>x y. x * 16 + y) 0 ?ds = ((d * 256 + c) * 256 + b) * 256 + a"
    using two[of 0 d] two[of d c] two[of "d * 256 + c" b] two[of "(d * 256 + c) * 256 + b" a] by simp
  moreover have "((d * 256 + c) * 256 + b) * 256 + a \<le> 4294967295" using lt by simp
  moreover have "?hex = hex_upper (d div 16) # drop 1 ?hex" "hex_upper (d div 16) \<noteq> CHR ''+''"
    using small by (simp_all add: hex_octet_def)
  ultimately show ?thesis using hex unfolding parse_hex_def Let_def little_endian_def by (auto split: list.split)
qed

lemma swap_bytes_octets:
  assumes "list_all (\<lambda>x. x < 256) [a, b, c, d]"
  shows "swap_bytes (word_of_nat (little_endian a b c d)) = ipv4_of a b c d"
  using assms octets_of[of d c b a] by (simp add: swap_bytes_def ipv4_of_def little_endian_def)

lemma nibbles [simp]: "n < 256 \<Longrightarrow> n div 16 < (16 :: nat)"
  by (simp add: less_mult_imp_div_less)

lemma length_hex_octet [simp]: "length (hex_octet n) = 2"
  by (simp add: hex_octet_def)

text \<open>Four octets at a time, as the words are printed and read.\<close>

lemma four_octets:
  assumes "length os = 4 * Suc n"
  obtains a b c d os' where "os = a # b # c # d # os'" "length os' = 4 * n"
  using assms by (auto simp: numeral_eq_Suc length_Suc_conv)

lemma length_kernel_words: "length os = 4 * n \<Longrightarrow> length (kernel_words os) = 8 * n"
proof (induction n arbitrary: os)
  case (Suc n)
  then show ?case by (elim four_octets) simp
qed simp

lemma kernel_words_head:
  assumes "list_all (\<lambda>x. x < 256) os" "length os = 4 * n"
  shows "case kernel_words os of c # _ \<Rightarrow> \<not> is_cont c | [] \<Rightarrow> True"
proof (cases n)
  case (Suc m)
  with assms(2) obtain a b c d os' where "os = a # b # c # d # os'" by (metis four_octets)
  then show ?thesis using assms(1) by (simp add: hex_octet_def)
qed (use assms in simp)

lemma proc_words_kernel:
  "list_all (\<lambda>x. x < 256) os \<Longrightarrow> length os = 4 * n \<Longrightarrow> proc_words n (kernel_words os) = Some (Some os)"
proof (induction n arbitrary: os)
  case (Suc n)
  obtain a b c d os' where os: "os = a # b # c # d # os'" "length os' = 4 * n"
    using Suc.prems(2) by (rule four_octets)
  let ?hex = "hex_octet d @ hex_octet c @ hex_octet b @ hex_octet a"
  have lt: "list_all (\<lambda>x. x < 256) [a, b, c, d]" "list_all (\<lambda>x. x < 256) os'"
    using Suc.prems(1) os by simp_all
  have k: "kernel_words os = ?hex @ kernel_words os'" and l: "length ?hex = 8" using os by simp_all
  have "take 8 (kernel_words os) = ?hex" "drop 8 (kernel_words os) = kernel_words os'"
    unfolding k using l by simp_all
  moreover have "\<not> (case kernel_words os' of c # _ \<Rightarrow> is_cont c | [] \<Rightarrow> False)"
    using kernel_words_head[OF lt(2) os(2)] by (auto split: list.splits)
  ultimately show ?case
    using Suc.IH[OF lt(2) os(2)] lt(1) os(1)
    by (simp add: parse_hex_octets[OF lt(1)] swap_bytes_octets[OF lt(1)] octets_of
        split del: if_split cong: if_cong)
qed simp

text \<open>
  A row of the kernel's socket table names its caller: the parser reads back every address the
  kernel prints, with an IPv4-mapped IPv6 address read as the IPv4 address it maps.
\<close>
theorem proc_address_round_trip: "parse_proc_ip (kernel_ip ip) = Some (Some (unmapped ip))"
proof (cases ip)
  case (V4 w)
  obtain a b c d where o: "octets w = [a, b, c, d]" by (simp add: octets_def Let_def)
  then have lt: "list_all (\<lambda>x. x < 256) [a, b, c, d]" using octets_less[of w] by simp
  then show ?thesis
    using V4 o ipv4_of_octets[OF o]
    by (simp add: parse_proc_ip_def unmapped_def parse_hex_octets[OF lt]
        swap_bytes_octets[OF lt])
next
  case (V6 w)
  have "list_all (\<lambda>x. x < 256) (octets6 w)" "length (octets6 w) = 4 * 4"
    by (simp_all add: octets6_def list_all_iff)
  then show ?thesis
    using V6 proc_words_kernel[of "octets6 w" 4] length_kernel_words[of "octets6 w" 4]
    by (simp add: parse_proc_ip_def unmapped_def)
qed

text \<open>The octets of an IPv6 address are the address.\<close>

lemma foldl_octets:
  "(n :: nat) < 256 ^ k \<Longrightarrow> foldl (\<lambda>a d. a * 256 + d) 0 (map (\<lambda>i. n div 256 ^ (k - Suc i) mod 256) [0..<k]) = n"
proof (induction k arbitrary: n)
  case (Suc k)
  have "n div 256 < 256 ^ k" using Suc.prems by (simp add: less_mult_imp_div_less mult.commute)
  moreover have "map (\<lambda>i. n div 256 ^ (k - i) mod 256) [0..<k] =
      map (\<lambda>i. n div 256 div 256 ^ (k - Suc i) mod 256) [0..<k]"
  proof (rule map_cong[OF refl])
    fix i assume "i \<in> set [0..<k]"
    then have "k - i = Suc (k - Suc i)" by auto
    then show "n div 256 ^ (k - i) mod 256 = n div 256 div 256 ^ (k - Suc i) mod 256"
      by (simp add: div_mult2_eq)
  qed
  ultimately show ?case using Suc.IH[of "n div 256"] by (simp del: map_eq_conv)
qed simp

lemma foldl_word:
  "foldl (\<lambda>a d. a * 256 + word_of_nat d) (word_of_nat x) ds =
     (word_of_nat (foldl (\<lambda>a d. a * 256 + d) x ds) :: 'a::len word)"
proof (induction ds arbitrary: x)
  case (Cons d ds)
  have "word_of_nat x * 256 + word_of_nat d = (word_of_nat (x * 256 + d) :: 'a word)" by simp
  then show ?case using Cons.IH[of "x * 256 + d"] by (simp only: foldl_Cons)
qed simp

lemma foldl_word_0:
  "foldl (\<lambda>a d. a * 256 + word_of_nat d) 0 ds =
     (word_of_nat (foldl (\<lambda>a d. a * 256 + d) 0 ds) :: 'a::len word)"
  using foldl_word[of 0 ds] by simp

lemma ipv6_of_octets6: "ipv6_of_octets (octets6 w) = w"
proof -
  have "(256 :: nat) ^ 16 = 2 ^ LENGTH(128)" by simp
  then have "unat w < 256 ^ 16" using unsigned_less[of w, where ?'a = nat] by (simp only:)
  from foldl_octets[OF this] have "foldl (\<lambda>a d. a * 256 + d) 0 (octets6 w) = unat w"
    by (simp only: octets6_def)
  moreover have "word_of_nat (unat w) = w" by simp
  ultimately show ?thesis
    by (simp only: ipv6_of_octets_def foldl_word_0)
qed

lemma to_canonical_plain:
  "take 12 os \<noteq> [0, 0, 0, 0, 0, 0, 0, 0, 0, 0, 255, 255] \<Longrightarrow> to_canonical os = V6 (ipv6_of_octets os)"
  by (auto simp: to_canonical_def split: list.split nat.split)

lemma unmapped_plain:
  "unmapped (V4 a) = V4 a"
  "take 12 (octets6 w) \<noteq> [0, 0, 0, 0, 0, 0, 0, 0, 0, 0, 255, 255] \<Longrightarrow> unmapped (V6 w) = V6 w"
  by (simp_all add: unmapped_def to_canonical_plain ipv6_of_octets6)


section \<open>Witnesses\<close>

text \<open>A shell under init, and an agent whose helper calls the API.\<close>

definition quiet_world :: proc_world where
  "quiet_world = \<lparr>pw_comm = (\<lambda>_. None), pw_exe = (\<lambda>_. None), pw_tgid = (\<lambda>_. None),
     pw_status = (\<lambda>_. None), pw_net = (\<lambda>_. None), pw_entries = None\<rparr>"

theorem unreadable_caller_is_trusted_witness:
  "classify_pid id quiet_world 4242 = Trusted 4242"
  using unreadable_caller_is_trusted[of quiet_world 4242 id] by (simp add: quiet_world_def)

section \<open>The process a peer address resolves to\<close>

definition listed_row :: "proc_world \<Rightarrow> socket_addr \<Rightarrow> bool \<Rightarrow> nat \<Rightarrow> bool" where
  "listed_row W peer exact inode =
     (\<exists>line \<in> set (proc_net_rows W). proc_row peer line = Some (Row exact inode))"

lemma those_SomeD: "those xs = Some ys \<Longrightarrow> xs = map Some ys"
  by (induction xs arbitrary: ys) (auto split: option.splits)

lemma map_filter_mem: "y \<in> set (List.map_filter f xs) \<longleftrightarrow> (\<exists>x \<in> set xs. f x = Some y)"
  by (induction xs) (auto simp: List.map_filter_def split: option.splits)

lemma row_inode_Some: "row_inode b r = Some i \<longleftrightarrow> r = Row b i"
  by (cases r) (auto simp: row_inode_def)

lemma listed_row_mem:
  assumes "those (map (proc_row peer) (proc_net_rows W)) = Some rows"
  shows "listed_row W peer exact inode \<longleftrightarrow> Row exact inode \<in> set rows"
proof -
  have "map (proc_row peer) (proc_net_rows W) = map Some rows" using assms by (rule those_SomeD)
  then have "proc_row peer ` set (proc_net_rows W) = Some ` set rows"
    by (metis list.set_map)
  then have "Some r \<in> proc_row peer ` set (proc_net_rows W) \<longleftrightarrow> r \<in> set rows" for r by auto
  then show ?thesis unfolding listed_row_def image_iff by (simp add: eq_commute)
qed

lemma proc_row_port:
  "proc_row peer line = Some (Row exact inode) \<Longrightarrow>
     inode \<noteq> 0 \<and> split_whitespace line ! 3 = ''01''
     \<and> (\<exists>ip_hex port_hex. rsplit_once (CHR '':'') (split_whitespace line ! 1) = Some (ip_hex, port_hex)
          \<and> parse_hex 65535 port_hex = Some (snd peer)
          \<and> (exact \<longleftrightarrow> parse_proc_ip ip_hex = Some (Some (fst peer))))"
  by (auto simp: proc_row_def Let_def split: if_splits option.splits prod.splits)

lemma find_map_append:
  "find_map f (xs @ ys) = (case find_map f xs of None \<Rightarrow> find_map f ys | r \<Rightarrow> r)"
  by (induction xs) (auto split: option.split)

text \<open>
  The process a peer is resolved to holds open an established socket with the peer's own port;
  and it is a process whose socket is on another address only when no process holds a socket on the
  peer's very address.
\<close>
theorem resolved_caller_holds_the_socket:
  assumes "pid_for_peer show_peer W peer = Some (Inr pid)"
  shows "\<exists>exact inode. listed_row W peer exact inode \<and> pid_holding_socket W inode = Some pid
     \<and> (exact \<or> (\<forall>i. listed_row W peer True i \<longrightarrow> pid_holding_socket W i = None))"
proof -
  obtain cs where cs: "socket_inodes_for_peer W peer = Some cs"
    "find_map (pid_holding_socket W) cs = Some pid"
    using assms by (auto simp: pid_for_peer_def split: if_splits option.splits)
  obtain rows where r: "those (map (proc_row peer) (proc_net_rows W)) = Some rows"
    "cs = List.map_filter (row_inode True) rows @ List.map_filter (row_inode False) rows"
    using cs(1) by (auto simp: socket_inodes_for_peer_def)
  have row: "listed_row W peer b i \<longleftrightarrow> i \<in> set (List.map_filter (row_inode b) rows)" for b i
    using listed_row_mem[OF r(1)] by (simp add: map_filter_mem row_inode_Some)
  show ?thesis
  proof (cases "find_map (pid_holding_socket W) (List.map_filter (row_inode True) rows)")
    case None
    then have "find_map (pid_holding_socket W) (List.map_filter (row_inode False) rows) = Some pid"
      using cs(2) unfolding r(2) by (simp add: find_map_append)
    with find_map_Some[OF this] None show ?thesis unfolding row find_map_None by blast
  next
    case (Some p)
    then have "find_map (pid_holding_socket W) (List.map_filter (row_inode True) rows) = Some pid"
      using cs(2) unfolding r(2) by (simp add: find_map_append)
    with find_map_Some[OF this] show ?thesis unfolding row by blast
  qed
qed

definition busy_world :: proc_world where
  "busy_world = quiet_world\<lparr>
     pw_net := (\<lambda>path. if path = ''/proc/net/tcp''
        then Some (''head'' @ [CHR 0x0A] @ ''0: 0100007F:1E14 x 01 x x x 1000 0 777'') else None),
     pw_entries := Some [(Some ''self'', None), (Some ''31'', None), (Some ''42'', Some [''socket:[777]''])]\<rparr>"

lemma busy_row:
  "proc_row (V4 (ipv4_of 127 0 0 1), 7700) ''0: 0100007F:1E14 x 01 x x x 1000 0 777'' = Some (Row True 777)"
proof -
  have "split_whitespace ''0: 0100007F:1E14 x 01 x x x 1000 0 777'' =
     [''0:'', ''0100007F:1E14'', ''x'', ''01'', ''x'', ''x'', ''x'', ''1000'', ''0'', ''777'']"
    and "rsplit_once (CHR '':'') ''0100007F:1E14'' = Some (''0100007F'', ''1E14'')"
    and "map (to_digit 16) ''1E14'' = [Some 1, Some 14, Some 1, Some 4]"
    and "list_all is_ascii_digit ''777'' \<and> digits_val ''777'' = 777"
    and "hex_octet 1 @ hex_octet 0 @ hex_octet 0 @ hex_octet 127 = ''0100007F''"
    by code_simp+
  then show ?thesis
    using parse_hex_octets[of 127 0 0 1] swap_bytes_octets[of 127 0 0 1]
    by (simp add: proc_row_def parse_hex_def[of 65535] parse_uint_def parse_proc_ip_def)
qed

lemma busy_holder: "pid_holding_socket busy_world 777 = Some 42"
proof -
  have "\<not> list_all is_ascii_digit ''self''" by code_simp
  then have "parse_uint hi ''self'' = None" for hi by (simp add: parse_uint_def)
  moreover have "show_nat 31 = ''31''" "show_nat 42 = ''42''" by code_simp+
  then have "parse_uint (2 ^ 32 - 1) ''31'' = Some 31" "parse_uint (2 ^ 32 - 1) ''42'' = Some 42"
    using parse_uint_show_nat[of 31 "2 ^ 32 - 1"] parse_uint_show_nat[of 42 "2 ^ 32 - 1"] by simp_all
  moreover have "show_nat 777 = ''777''" by code_simp
  ultimately show ?thesis by (simp add: pid_holding_socket_def busy_world_def)
qed

lemma busy_peer: "pid_for_peer (\<lambda>_. []) busy_world (V4 (ipv4_of 127 0 0 1), 7700) = Some (Inr 42)"
proof -
  let ?l = "''0: 0100007F:1E14 x 01 x x x 1000 0 777''"
  have "drop 1 (str_lines (''head'' @ [CHR 0x0A] @ ?l)) = [?l]" by code_simp
  then have "proc_net_rows busy_world = [?l]"
    by (simp add: proc_net_rows_def busy_world_def quiet_world_def)
  then have "socket_inodes_for_peer busy_world (V4 (ipv4_of 127 0 0 1), 7700) = Some [777]"
    using busy_row by (simp add: socket_inodes_for_peer_def List.map_filter_def row_inode_def)
  then show ?thesis using busy_holder by (simp add: pid_for_peer_def)
qed

theorem resolved_caller_holds_the_socket_witness:
  "\<exists>exact inode. listed_row busy_world (V4 (ipv4_of 127 0 0 1), 7700) exact inode
     \<and> pid_holding_socket busy_world inode = Some 42"
  using resolved_caller_holds_the_socket[OF busy_peer] by blast

end
