(* ===== verification/Auth.thy ===== *)
theory Auth
  imports Caller
begin

text \<open>
  agent/src/api/auth.rs: the bearer tokens of the local API, their hashes in memory and on disk,
  the scope a request needs, and the middleware every request passes. \<open>hash\<close> is the hexadecimal
  BLAKE3 digest. The files are part of the state; how far a write to them came is an argument. The
  gate of the IPC socket (agent/src/ipc/server.rs) and the two handlers that change a token
  (agent/src/api/routes.rs) are here too, because they rest on the same checks.
\<close>

section \<open>Scopes\<close>

datatype scope = ReadOnly | Full

fun scope_wire_name :: "scope \<Rightarrow> string" where
  "scope_wire_name ReadOnly = ''readonly''"
| "scope_wire_name Full = ''full''"

fun satisfies :: "scope \<Rightarrow> scope \<Rightarrow> bool" where
  "satisfies Full _ = True"
| "satisfies ReadOnly ReadOnly = True"
| "satisfies _ _ = False"

datatype http_method = GET | HEAD | OPTIONS | POST | PUT | DELETE | PATCH | OtherMethod string

definition READONLY_SAFE_POSTS :: "string list" where
  "READONLY_SAFE_POSTS =
     [''/api/v1/skill-scan/auto'', ''/api/v1/dlp/redact'', ''/api/v1/hook-event'']"

definition required_scope :: "http_method \<Rightarrow> string \<Rightarrow> scope" where
  "required_scope meth path =
     (if meth \<in> {GET, HEAD, OPTIONS} then ReadOnly
      else if path \<in> set READONLY_SAFE_POSTS then ReadOnly
      else Full)"

section \<open>Tokens in memory and on disk\<close>

record auth_state =
  token_hash :: "string option"
  readonly_hash :: "string option"
  full_file :: "string option"
  ro_file :: "string option"
  raw_files :: "(string \<times> string) list"

text \<open>How far a write of a hash file came: not opened, cut short after some bytes, or complete.\<close>

datatype write_outcome = NotOpened | Torn nat | Written

fun after_write :: "write_outcome \<Rightarrow> string \<Rightarrow> string option \<Rightarrow> string option" where
  "after_write NotOpened new old = old"
| "after_write (Torn n) new old = Some (take n new)"
| "after_write Written new old = Some new"

definition looks_like_hash :: "string \<Rightarrow> bool" where
  "looks_like_hash s =
     (length s = 64
      \<and> list_all (\<lambda>c. is_ascii_digit c \<or> 97 \<le> byte c \<and> byte c \<le> 102) s)"

definition rehydrate :: "string option \<Rightarrow> string option" where
  "rehydrate content =
     (case content of
        Some s \<Rightarrow> let t = trim s in if looks_like_hash t then Some t else None
      | None \<Rightarrow> None)"

text \<open>\<open>AuthState::new\<close>, at the start of the daemon: what the files hold becomes the state.\<close>

definition auth_new :: "auth_state \<Rightarrow> auth_state" where
  "auth_new s = s\<lparr>token_hash := rehydrate (full_file s), readonly_hash := rehydrate (ro_file s)\<rparr>"

datatype auth_error = AlreadyRegistered

definition register_token ::
  "(string \<Rightarrow> string) \<Rightarrow> write_outcome \<Rightarrow> string \<Rightarrow> auth_state \<Rightarrow> (auth_error + unit) \<times> auth_state" where
  "register_token hash w raw s =
     (if token_hash s \<noteq> None then (Inl AlreadyRegistered, s)
      else let h = hash raw
           in (Inr (), s\<lparr>token_hash := Some h, full_file := after_write w h (full_file s)\<rparr>))"

text \<open>The random bytes of a fresh token, and its 64 hexadecimal digits.\<close>

definition hex_byte :: "nat \<Rightarrow> string" where
  "hex_byte n = [hex_char (n div 16), hex_char (n mod 16)]"

definition generate_raw_token :: "nat list \<Rightarrow> string" where
  "generate_raw_token rand = concat (map hex_byte rand)"

definition raw_token_client_paths_named ::
  "bool \<Rightarrow> string option \<Rightarrow> string \<Rightarrow> string \<Rightarrow> string list" where
  "raw_token_client_paths_named elevated home tmp name =
     (if elevated then [''/var/lib/ringzero/'' @ name, ''/root/.config/ringzero/'' @ name]
      else (case home of Some h \<Rightarrow> [path_join h (''.config/ringzero/'' @ name)] | None \<Rightarrow> [])
           @ [path_join tmp (''ringzero-'' @ name)])"

text \<open>
  The surroundings of a start-up: whether the daemon is elevated, the paths, which raw-token files
  can be written, how far the two hash files are written, and the random bytes of the two tokens.
\<close>

record auth_env =
  env_elevated :: bool
  env_home :: "string option"
  env_tmp :: string
  env_raw_ok :: "string \<Rightarrow> bool"
  env_full_write :: write_outcome
  env_ro_write :: write_outcome
  env_full_rand :: "nat list"
  env_ro_rand :: "nat list"

definition write_raw_tokens :: "auth_env \<Rightarrow> string \<Rightarrow> string \<Rightarrow> auth_state \<Rightarrow> auth_state" where
  "write_raw_tokens E name raw s =
     s\<lparr>raw_files := fold (\<lambda>p fs. if env_raw_ok E p then AList.update p raw fs else fs)
        (raw_token_client_paths_named (env_elevated E) (env_home E) (env_tmp E) name) (raw_files s)\<rparr>"

definition ensure_full :: "(string \<Rightarrow> string) \<Rightarrow> auth_env \<Rightarrow> auth_state \<Rightarrow> auth_state" where
  "ensure_full hash E s =
     (if token_hash s \<noteq> None then s
      else let raw = generate_raw_token (env_full_rand E); h = hash raw
           in write_raw_tokens E ''api-token'' raw
                (s\<lparr>token_hash := Some h, full_file := after_write (env_full_write E) h (full_file s)\<rparr>))"

definition ensure_readonly :: "(string \<Rightarrow> string) \<Rightarrow> auth_env \<Rightarrow> auth_state \<Rightarrow> auth_state" where
  "ensure_readonly hash E s =
     (if readonly_hash s \<noteq> None then s
      else let raw = generate_raw_token (env_ro_rand E); h = hash raw
           in write_raw_tokens E ''api-token-readonly'' raw
                (s\<lparr>readonly_hash := Some h, ro_file := after_write (env_ro_write E) h (ro_file s)\<rparr>))"

definition ensure_self_token :: "(string \<Rightarrow> string) \<Rightarrow> auth_env \<Rightarrow> auth_state \<Rightarrow> auth_state" where
  "ensure_self_token hash E s = ensure_readonly hash E (ensure_full hash E s)"

definition rotate_token ::
  "(string \<Rightarrow> string) \<Rightarrow> write_outcome \<Rightarrow> string \<Rightarrow> auth_state \<Rightarrow> bool \<times> auth_state" where
  "rotate_token hash w raw s =
     (let h = hash raw
      in if token_hash s = Some h then (False, s)
         else (True, s\<lparr>token_hash := Some h, full_file := after_write w h (full_file s)\<rparr>))"

definition validate_scope :: "(string \<Rightarrow> string) \<Rightarrow> auth_state \<Rightarrow> string \<Rightarrow> scope option" where
  "validate_scope hash s raw =
     (let provided = hash raw
      in if token_hash s = None then Some Full
         else if token_hash s = Some provided then Some Full
         else if readonly_hash s = Some provided then Some ReadOnly
         else None)"

definition validate_token :: "(string \<Rightarrow> string) \<Rightarrow> auth_state \<Rightarrow> string \<Rightarrow> bool" where
  "validate_token hash s raw = (validate_scope hash s raw \<noteq> None)"

definition is_active :: "auth_state \<Rightarrow> bool" where
  "is_active s = (token_hash s \<noteq> None)"

section \<open>The middleware\<close>

record request =
  rq_method :: http_method
  rq_path :: string
  rq_authorization :: "string option"
  rq_peer :: "socket_addr option"
  rq_token :: "string option"

datatype response = Forward | Reject nat string

fun method_name :: "http_method \<Rightarrow> string" where
  "method_name GET = ''GET''"
| "method_name HEAD = ''HEAD''"
| "method_name OPTIONS = ''OPTIONS''"
| "method_name POST = ''POST''"
| "method_name PUT = ''PUT''"
| "method_name DELETE = ''DELETE''"
| "method_name PATCH = ''PATCH''"
| "method_name (OtherMethod m) = m"

text \<open>
  The stores a refusal is recorded in travel with the state. \<open>classify\<close> is the lookup of the peer in
  /proc (\<open>classify_http\<close>); \<open>None\<close> is a lookup that panicked on the blocking pool.
  \<open>e_installed\<close> tells whether the auth state was put into the request's extensions, as the router does.
\<close>

record api_state =
  api_auth :: auth_state
  api_audit :: audit_log
  api_review :: review_tree

definition caller_of ::
  "(socket_addr \<Rightarrow> caller option) \<Rightarrow> string \<Rightarrow> socket_addr option \<Rightarrow> caller" where
  "caller_of classify join_err peer =
     (case peer of
        Some addr \<Rightarrow>
          (case classify addr of
             Some c \<Rightarrow> c
           | None \<Rightarrow> Unresolved (''caller lookup failed: '' @ join_err))
      | None \<Rightarrow> Unresolved ''the connection carried no peer address'')"

record api_env =
  e_installed :: bool
  e_hash :: "string \<Rightarrow> string"
  e_classify :: "socket_addr \<Rightarrow> caller option"
  e_join_err :: string
  e_libs :: audit_libs
  e_io :: refusal_io
  e_write :: write_outcome

definition refuse_untrusted_caller :: "api_env \<Rightarrow> request \<Rightarrow> api_state \<Rightarrow> response option \<times> api_state" where
  "refuse_untrusted_caller E rq s =
     (let caller = caller_of (e_classify E) (e_join_err E) (rq_peer rq)
      in if may_mutate caller then (None, s)
         else let (a, r) = record_refusal (e_libs E) (e_io E) caller (method_name (rq_method rq))
                             (rq_path rq) (api_audit s, api_review s)
              in (Some (Reject 403 (refusal_message caller)),
                  s\<lparr>api_audit := a, api_review := r\<rparr>))"

definition EXEMPT_PATHS :: "string list" where
  "EXEMPT_PATHS = [''/api/v1/health'', ''/api/v1/health/components'', ''/api/v1/auth/register'']"

definition auth_middleware :: "api_env \<Rightarrow> request \<Rightarrow> api_state \<Rightarrow> response \<times> api_state" where
  "auth_middleware E rq s =
     (if rq_path rq \<in> set EXEMPT_PATHS then (Forward, s)
      else if \<not> starts_with (rq_path rq) ''/api/'' then (Forward, s)
      else if \<not> e_installed E then (Reject 500 ''Auth misconfigured'', s)
      else if \<not> is_active (api_auth s) then
        (Reject 401 (''API not yet activated '' @ [CHR 0xE2, CHR 0x80, CHR 0x94]
           @ '' call /api/v1/auth/register first''), s)
      else
        case Option.bind (rq_authorization rq) (strip_prefix ''Bearer '') of
          None \<Rightarrow> (Reject 401 ''Missing Authorization: Bearer <token> header'', s)
        | Some raw_token \<Rightarrow>
           (case validate_scope (e_hash E) (api_auth s) raw_token of
              Some granted \<Rightarrow>
                let needed = required_scope (rq_method rq) (rq_path rq)
                in if satisfies granted needed then
                     (if needed = Full then
                        (case refuse_untrusted_caller E rq s of
                           (Some refusal, s') \<Rightarrow> (refusal, s')
                         | (None, s') \<Rightarrow> (Forward, s'))
                      else (Forward, s))
                   else (Reject 403 (''This token is read-only. Changing policy needs the root-only ''
                           @ ''token, so re-run the same command with sudo.''), s)
            | None \<Rightarrow> (Reject 401 ''Invalid bearer token'', s)))"

section \<open>The two handlers that change a token\<close>

definition audit_action :: "api_env \<Rightarrow> string \<Rightarrow> api_state \<Rightarrow> api_state" where
  "audit_action E action s =
     s\<lparr>api_audit := try_append (e_libs E) (io_audit_ok (e_io E)) (io_audit_now (e_io E)) PolicyChange
        (JObj [(''action'', JStr action)]) (api_audit s)\<rparr>"

definition register_auth_token :: "api_env \<Rightarrow> string \<Rightarrow> api_state \<Rightarrow> nat \<times> api_state" where
  "register_auth_token E tok s =
     (if length tok < 32 then (400, s)
      else case register_token (e_hash E) (e_write E) tok (api_auth s) of
             (Inl _, a) \<Rightarrow> (409, s\<lparr>api_auth := a\<rparr>)
           | (Inr _, a) \<Rightarrow> (200, audit_action E ''auth_token_registered'' (s\<lparr>api_auth := a\<rparr>)))"

definition rotate_auth_token :: "api_env \<Rightarrow> string \<Rightarrow> api_state \<Rightarrow> nat \<times> api_state" where
  "rotate_auth_token E tok s =
     (if length tok < 32 then (400, s)
      else case rotate_token (e_hash E) (e_write E) tok (api_auth s) of
             (False, a) \<Rightarrow> (400, s\<lparr>api_auth := a\<rparr>)
           | (True, a) \<Rightarrow> (200, audit_action E ''auth_token_rotated'' (s\<lparr>api_auth := a\<rparr>)))"

text \<open>
  A request end to end, for the routes that touch the tokens (agent/src/api/routes.rs registers both
  handlers for POST); a body without a token is turned away before the handler runs.
\<close>

definition serve :: "api_env \<Rightarrow> request \<Rightarrow> api_state \<Rightarrow> api_state" where
  "serve E rq s =
     (case auth_middleware E rq s of
        (Reject _ _, s') \<Rightarrow> s'
      | (Forward, s') \<Rightarrow>
          (case (rq_method rq, rq_token rq) of
             (POST, Some tok) \<Rightarrow>
               if rq_path rq = ''/api/v1/auth/register'' then snd (register_auth_token E tok s')
               else if rq_path rq = ''/api/v1/auth/rotate'' then snd (rotate_auth_token E tok s')
               else s'
           | _ \<Rightarrow> s'))"

section \<open>The gate of the IPC socket\<close>

definition require_root_human_caller ::
  "(nat \<Rightarrow> caller) \<Rightarrow> nat \<Rightarrow> nat option \<Rightarrow> string \<Rightarrow> string + unit" where
  "require_root_human_caller classify uid pid what =
     (if uid \<noteq> 0 then Inl (''changing '' @ what @ '' requires root (try: sudo rz ...)'')
      else let caller = (case pid of
                           Some p \<Rightarrow> classify p
                         | None \<Rightarrow> Unresolved ''SO_PEERCRED carried no pid'')
           in if may_mutate caller then Inr () else Inl (refusal_message caller))"

text \<open>
  The requests of the socket that read or change the two policy modes; every other request leaves
  them alone. The first line of a connection is the only one read.
\<close>

datatype client_request =
    SetNetworkMode network_mode
  | GetNetworkMode
  | SetEnforceMode enforce_mode
  | OtherRequest

datatype daemon_message = MsgOk | MsgNetworkMode network_mode | MsgError string | MsgOther

definition handle_client ::
  "(nat \<Rightarrow> caller) \<Rightarrow> nat \<Rightarrow> nat option \<Rightarrow> client_request \<Rightarrow> network_policy
     \<Rightarrow> daemon_message \<times> network_policy" where
  "handle_client classify uid pid rq P =
     (case rq of
        SetNetworkMode m \<Rightarrow>
          (case require_root_human_caller classify uid pid ''network mode'' of
             Inl message \<Rightarrow> (MsgError message, P)
           | Inr _ \<Rightarrow> (MsgNetworkMode m, P\<lparr>np_mode := m\<rparr>))
      | GetNetworkMode \<Rightarrow> (MsgNetworkMode (np_mode P), P)
      | SetEnforceMode m \<Rightarrow>
          (case require_root_human_caller classify uid pid ''enforcement'' of
             Inl message \<Rightarrow> (MsgError message, P)
           | Inr _ \<Rightarrow> (MsgOk, P\<lparr>np_enforce := m\<rparr>))
      | OtherRequest \<Rightarrow> (MsgOther, P))"

text \<open>A connection is accepted for root, for the daemon's own user and for the operator.\<close>

definition allowed_uids :: "nat \<Rightarrow> string option \<Rightarrow> nat list" where
  "allowed_uids euid operator_uid =
     List.union [0, euid] (case Option.bind operator_uid (parse_uint (2 ^ 32 - 1)) of
        Some u \<Rightarrow> [u] | None \<Rightarrow> [])"

definition accept_peer :: "nat list \<Rightarrow> (nat \<times> nat option) option \<Rightarrow> (nat \<times> nat option) option" where
  "accept_peer allowed cred =
     (case cred of
        Some (uid, pid) \<Rightarrow> if uid \<in> set allowed then Some (uid, pid) else None
      | None \<Rightarrow> None)"

section \<open>Properties of the middleware\<close>

lemma record_refusal_auth:
  "api_auth (snd (refuse_untrusted_caller E rq s)) = api_auth s"
  by (simp add: refuse_untrusted_caller_def Let_def split: prod.split)

lemma refuse_None_iff:
  "fst (refuse_untrusted_caller E rq s) = None \<longleftrightarrow>
     (\<exists>pid. caller_of (e_classify E) (e_join_err E) (rq_peer rq) = Trusted pid)"
  by (cases "caller_of (e_classify E) (e_join_err E) (rq_peer rq)")
    (auto simp: refuse_untrusted_caller_def Let_def split: prod.split)

lemma refusal_is_reject:
  "fst (refuse_untrusted_caller E rq s) = Some r \<Longrightarrow> r \<noteq> Forward"
  by (auto simp: refuse_untrusted_caller_def Let_def split: if_splits prod.splits)

lemma middleware_auth: "api_auth (snd (auth_middleware E rq s)) = api_auth s"
  using record_refusal_auth[of E rq s]
  by (auto simp: auth_middleware_def Let_def split: option.split prod.split if_split)

definition guarded_path :: "string \<Rightarrow> bool" where
  "guarded_path path = (starts_with path ''/api/'' \<and> path \<notin> set EXEMPT_PATHS)"

definition bears :: "request \<Rightarrow> string \<Rightarrow> bool" where
  "bears rq raw = (rq_authorization rq = Some (''Bearer '' @ raw))"

lemma bears_iff:
  "Option.bind (rq_authorization rq) (strip_prefix ''Bearer '') = Some raw \<longleftrightarrow> bears rq raw"
  by (cases "rq_authorization rq") (auto simp: bears_def strip_prefix_Some)

text \<open>
  C2. A request to a guarded path reaches its handler exactly when it bears a token whose hash is
  the full token's, or the read-only token's on a request that needs no more than reading, and, if
  the request changes policy, its caller was resolved to a process with no agent above it. No token
  is enough by itself, and with no token provisioned nothing passes.
\<close>
theorem forwarded_exactly_when_proven:
  assumes "guarded_path (rq_path rq)" "e_installed E"
  shows "fst (auth_middleware E rq s) = Forward \<longleftrightarrow>
    (\<exists>raw full. bears rq raw \<and> token_hash (api_auth s) = Some full
       \<and> (e_hash E raw = full
          \<or> readonly_hash (api_auth s) = Some (e_hash E raw)
            \<and> required_scope (rq_method rq) (rq_path rq) = ReadOnly)
       \<and> (required_scope (rq_method rq) (rq_path rq) = Full \<longrightarrow>
            (\<exists>pid. caller_of (e_classify E) (e_join_err E) (rq_peer rq) = Trusted pid)))"
proof (cases "token_hash (api_auth s)")
  case None
  then show ?thesis using assms
    by (simp add: auth_middleware_def guarded_path_def is_active_def)
next
  case (Some full)
  let ?need = "required_scope (rq_method rq) (rq_path rq)"
  show ?thesis
  proof (cases "Option.bind (rq_authorization rq) (strip_prefix ''Bearer '')")
    case None
    then have "\<not> bears rq raw" for raw using bears_iff[of rq raw] by simp
    then show ?thesis using assms None Some
      by (simp add: auth_middleware_def guarded_path_def is_active_def)
  next
    case raw: (Some raw)
    have uniq: "bears rq r \<longleftrightarrow> r = raw" for r using raw bears_iff[of rq r] by auto
    have "fst (auth_middleware E rq s) =
      (case validate_scope (e_hash E) (api_auth s) raw of
         None \<Rightarrow> Reject 401 ''Invalid bearer token''
       | Some granted \<Rightarrow>
          if satisfies granted ?need
          then (if ?need = Full then (case fst (refuse_untrusted_caller E rq s) of
                                        Some r \<Rightarrow> r | None \<Rightarrow> Forward) else Forward)
          else Reject 403 (''This token is read-only. Changing policy needs the root-only ''
                           @ ''token, so re-run the same command with sudo.''))"
      using assms raw Some
      by (simp add: auth_middleware_def guarded_path_def is_active_def Let_def
          split: option.split prod.split)
    then show ?thesis
      using Some uniq refuse_None_iff[of E rq s] refusal_is_reject[of E rq s]
      by (cases ?need) (auto simp: validate_scope_def Let_def split: option.splits)
  qed
qed

text \<open>A request that may change a token: it bears the full token and its caller is proven.\<close>

definition authorised :: "auth_state \<Rightarrow> api_env \<Rightarrow> request \<Rightarrow> bool" where
  "authorised a E rq =
     (\<exists>raw pid. bears rq raw \<and> token_hash a = Some (e_hash E raw)
        \<and> caller_of (e_classify E) (e_join_err E) (rq_peer rq) = Trusted pid)"

lemma rotate_path: "guarded_path ''/api/v1/auth/rotate''"
  "required_scope POST ''/api/v1/auth/rotate'' = Full"
  by (simp_all add: guarded_path_def EXEMPT_PATHS_def required_scope_def READONLY_SAFE_POSTS_def)

lemma serve_unauthorised:
  assumes "is_active (api_auth s)" "\<not> authorised (api_auth s) E rq"
  shows "api_auth (serve E rq s) = api_auth s"
proof -
  obtain r s' where m: "auth_middleware E rq s = (r, s')" by (cases "auth_middleware E rq s")
  have a: "api_auth s' = api_auth s" using middleware_auth[of E rq s] m by simp
  have "r \<noteq> Forward" if "rq_method rq = POST" "rq_path rq = ''/api/v1/auth/rotate''"
  proof (cases "e_installed E")
    case True
    show ?thesis
      using forwarded_exactly_when_proven[of rq E s] True rotate_path that assms(2) m
      by (auto simp: authorised_def)
  next
    case False
    then show ?thesis using m that rotate_path
      by (auto simp: auth_middleware_def guarded_path_def)
  qed
  moreover have "api_auth (snd (register_auth_token E tok s')) = api_auth s'" for tok
    using assms(1) a by (auto simp: register_auth_token_def register_token_def is_active_def)
  ultimately show ?thesis using a
    by (auto simp: serve_def m split: response.split http_method.split option.split)
qed

text \<open>
  C14. Once a token is provisioned, no history of requests changes either token unless one of them
  bears the full token and comes from a proven caller: registration cannot overwrite it, and neither
  the read-only token nor an agent holding the full token can rotate it.
\<close>
theorem tokens_change_only_by_proven_rotation:
  assumes "is_active (api_auth s)"
    and "\<forall>(E, rq) \<in> set hist. \<not> authorised (api_auth s) E rq"
  shows "api_auth (foldl (\<lambda>s (E, rq). serve E rq s) s hist) = api_auth s"
  using assms
proof (induction hist arbitrary: s)
  case (Cons x hist)
  obtain E rq where x: "x = (E, rq)" by (cases x)
  have "api_auth (serve E rq s) = api_auth s"
    using Cons.prems x by (intro serve_unauthorised) auto
  then show ?case using Cons x by simp
qed simp

section \<open>The life of the tokens\<close>

definition hex_lower :: "char \<Rightarrow> bool" where
  "hex_lower c = (is_ascii_digit c \<or> 97 \<le> byte c \<and> byte c \<le> 102)"

lemma looks_like_hash_iff: "looks_like_hash s \<longleftrightarrow> length s = 64 \<and> list_all hex_lower s"
  by (simp add: looks_like_hash_def hex_lower_def[abs_def])

lemma ws_not_hex:
  "list_all (\<lambda>w. w \<noteq> [] \<and> \<not> hex_lower (hd w) \<and> \<not> hex_lower (last w)) ws_seqs"
  by code_simp

lemma trim_hex:
  assumes "list_all hex_lower s"
  shows "trim s = s"
proof -
  have hd: "\<not> starts_with t w" if "w \<noteq> []" "\<not> hex_lower (hd w)" "list_all hex_lower t" for t w
    using that by (cases w) (auto simp: starts_with_iff)
  have "trim_start s = s"
    using ws_not_hex assms hd by (auto simp: trim_start_def list_all_iff intro!: strip_seqs_id)
  moreover have "strip_seqs (map rev ws_seqs) (rev s) = rev s"
    using ws_not_hex assms by (intro strip_seqs_id hd) (auto simp: list_all_iff hd_rev)
  ultimately show ?thesis by (simp add: trim_def trim_end_def)
qed

lemma rehydrate_hash: "looks_like_hash h \<Longrightarrow> rehydrate (Some h) = Some h"
  using trim_hex[of h] by (simp add: rehydrate_def looks_like_hash_iff)

lemma trim_length: "length (trim s) \<le> length s"
  using trim_infix[of s] by (metis add_leD1 add_leD2 le_refl length_append)

text \<open>A hash file cut short is never taken for a hash.\<close>

lemma rehydrate_torn: "n < 64 \<Longrightarrow> rehydrate (Some (take n h)) = None"
  using trim_length[of "take n h"] by (auto simp: rehydrate_def looks_like_hash_iff Let_def)

lemma byte_hex_char: "d < 16 \<Longrightarrow> byte (hex_char d) = (if d < 10 then 48 + d else 87 + d)"
  by (simp add: hex_char_def byte_def of_char_of)

lemma hex_char_lower: "d < 16 \<Longrightarrow> hex_lower (hex_char d)"
  by (auto simp: hex_lower_def is_ascii_digit_def byte_hex_char)

lemma hex_char_inj:
  assumes "a < 16" "b < 16"
  shows "hex_char a = hex_char b \<longleftrightarrow> a = b"
proof
  assume "hex_char a = hex_char b"
  then have "byte (hex_char a) = byte (hex_char b)" by simp
  then show "a = b" unfolding byte_hex_char[OF assms(1)] byte_hex_char[OF assms(2)]
    using assms by (auto split: if_splits)
qed simp

lemma generated_hex: "list_all (\<lambda>x. x < 256) r \<Longrightarrow>
    length (generate_raw_token r) = 2 * length r \<and> list_all hex_lower (generate_raw_token r)"
  by (induction r) (auto simp: generate_raw_token_def hex_byte_def hex_char_lower)

lemma generated_inj:
  "list_all (\<lambda>x. x < 256) r \<Longrightarrow> list_all (\<lambda>x. x < 256) r' \<Longrightarrow>
     generate_raw_token r = generate_raw_token r' \<Longrightarrow> r = r'"
proof (induction r arbitrary: r')
  case Nil
  then show ?case by (cases r') (auto simp: generate_raw_token_def hex_byte_def)
next
  case (Cons x r)
  then obtain y t where r': "r' = y # t" by (cases r') (auto simp: generate_raw_token_def hex_byte_def)
  have "x div 16 = y div 16" "x mod 16 = y mod 16" "generate_raw_token r = generate_raw_token t"
    using Cons.prems r' by (auto simp: generate_raw_token_def hex_byte_def hex_char_inj)
  then have "x = y" by (metis mult_div_mod_eq)
  then show ?case using Cons r' \<open>generate_raw_token r = generate_raw_token t\<close> by simp
qed

text \<open>
  A generated token is 64 lower-case hexadecimal digits and loses no entropy: two draws of the
  random bytes give the same token only when they are the same bytes.
\<close>
theorem generated_token_is_injective_hex:
  assumes "list_all (\<lambda>x. x < 256) r" "length r = 32"
    and "list_all (\<lambda>x. x < 256) r'"
  shows "looks_like_hash (generate_raw_token r)
    \<and> (generate_raw_token r = generate_raw_token r' \<longleftrightarrow> r = r')"
  using generated_hex[OF assms(1)] generated_inj[OF assms(1,3)] assms(2)
  by (auto simp: looks_like_hash_iff)

text \<open>What happens to the tokens in the life of an installation.\<close>

datatype auth_op =
    Restart auth_env
  | Register write_outcome string
  | Rotate write_outcome string

fun auth_step :: "(string \<Rightarrow> string) \<Rightarrow> auth_state \<Rightarrow> auth_op \<Rightarrow> auth_state" where
  "auth_step hash s (Restart E) = ensure_self_token hash E (auth_new s)"
| "auth_step hash s (Register w raw) = snd (register_token hash w raw s)"
| "auth_step hash s (Rotate w raw) = snd (rotate_token hash w raw s)"

fun writes_complete :: "auth_op \<Rightarrow> bool" where
  "writes_complete (Restart E) = (env_full_write E = Written \<and> env_ro_write E = Written)"
| "writes_complete (Register w _) = (w = Written)"
| "writes_complete (Rotate w _) = (w = Written)"

text \<open>Both slots are filled, and the files hold the hashes in memory.\<close>

definition provisioned :: "auth_state \<Rightarrow> bool" where
  "provisioned s = (token_hash s \<noteq> None \<and> readonly_hash s \<noteq> None)"

definition on_disk :: "auth_state \<Rightarrow> bool" where
  "on_disk s = (provisioned s \<and> full_file s = token_hash s \<and> ro_file s = readonly_hash s
     \<and> (\<forall>h. token_hash s = Some h \<or> readonly_hash s = Some h \<longrightarrow> looks_like_hash h))"

lemma write_raw_tokens_keeps [simp]:
  "token_hash (write_raw_tokens E n raw s) = token_hash s"
  "readonly_hash (write_raw_tokens E n raw s) = readonly_hash s"
  "full_file (write_raw_tokens E n raw s) = full_file s"
  "ro_file (write_raw_tokens E n raw s) = ro_file s"
  by (simp_all add: write_raw_tokens_def)

lemma ensure_provisions: "provisioned (ensure_self_token hash E s)"
  by (auto simp: provisioned_def ensure_self_token_def ensure_full_def ensure_readonly_def Let_def)

lemma ensure_noop: "provisioned s \<Longrightarrow> ensure_self_token hash E s = s"
  by (simp add: provisioned_def ensure_self_token_def ensure_full_def ensure_readonly_def)

lemma restart_noop: "on_disk s \<Longrightarrow> ensure_self_token hash E (auth_new s) = s"
proof -
  assume d: "on_disk s"
  then have "auth_new s = s" by (auto simp: on_disk_def provisioned_def auth_new_def rehydrate_hash)
  then show ?thesis using d by (simp add: on_disk_def ensure_noop)
qed

interpretation auth_life: invariant_system "auth_step hash" provisioned for hash
proof
  fix s :: auth_state and e :: auth_op
  assume "provisioned s"
  then show "provisioned (auth_step hash s e)"
    using ensure_provisions[of hash]
    by (cases e) (auto simp: register_token_def rotate_token_def provisioned_def Let_def)
qed

lemma step_on_disk:
  assumes "\<And>x. looks_like_hash (hash x)" "on_disk s" "writes_complete e"
  shows "on_disk (auth_step hash s e)"
  using assms(2,3)
  by (cases e) (auto simp: restart_noop register_token_def rotate_token_def on_disk_def
      provisioned_def Let_def assms(1))

text \<open>The hash of the full token in force: the last rotation decides.\<close>

fun last_rotation :: "(string \<Rightarrow> string) \<Rightarrow> auth_op list \<Rightarrow> string option \<Rightarrow> string option" where
  "last_rotation hash [] h = h"
| "last_rotation hash (Rotate w raw # es) h = last_rotation hash es (Some (hash raw))"
| "last_rotation hash (e # es) h = last_rotation hash es h"

text \<open>
  The tokens survive every restart: after any history of restarts, registrations and rotations
  whose file writes complete, the full token in force is the one rotated to last, the read-only
  token is unchanged, and a restart at that point changes nothing.
\<close>
theorem tokens_survive_restarts:
  assumes "\<And>x. looks_like_hash (hash x)" "on_disk s" "list_all writes_complete es"
  shows "token_hash (foldl (auth_step hash) s es) = last_rotation hash es (token_hash s)
    \<and> readonly_hash (foldl (auth_step hash) s es) = readonly_hash s
    \<and> auth_step hash (foldl (auth_step hash) s es) (Restart E) = foldl (auth_step hash) s es"
  using assms(2,3)
proof (induction es arbitrary: s)
  case Nil
  then show ?case by (simp add: restart_noop)
next
  case (Cons e es)
  have "on_disk (auth_step hash s e)" using step_on_disk[OF assms(1)] Cons.prems by simp
  moreover have "readonly_hash (auth_step hash s e) = readonly_hash s"
    "last_rotation hash (e # es) (token_hash s) = last_rotation hash es (token_hash (auth_step hash s e))"
    using Cons.prems
    by (cases e; auto simp: restart_noop register_token_def rotate_token_def Let_def on_disk_def
        provisioned_def)+
  ultimately show ?case using Cons by simp
qed

text \<open>
  C25. From the first start on, an unknown token is never accepted: whatever was in the hash files (a
  torn write or garbage included) and whatever operations follow, however far their writes came,
  both slots stay filled, so validation never runs with authentication disabled.
\<close>
theorem never_open_after_start:
  "provisioned (foldl (auth_step hash) (auth_step hash s (Restart E)) es)
   \<and> (\<forall>raw. validate_scope hash (foldl (auth_step hash) (auth_step hash s (Restart E)) es) raw
        = (if token_hash (foldl (auth_step hash) (auth_step hash s (Restart E)) es) = Some (hash raw)
           then Some Full
           else if readonly_hash (foldl (auth_step hash) (auth_step hash s (Restart E)) es) = Some (hash raw)
           then Some ReadOnly else None))"
proof -
  have "provisioned (auth_step hash s (Restart E))" by (simp add: ensure_provisions)
  then have "provisioned (foldl (auth_step hash) (auth_step hash s (Restart E)) es)"
    by (rule auth_life.run_inv)
  then show ?thesis by (simp only: validate_scope_def provisioned_def Let_def simp_thms if_False)
qed

section \<open>Properties of the IPC gate\<close>


section \<open>Witnesses\<close>

definition const_hash :: "string \<Rightarrow> string" where
  "const_hash x = (if x = ''operator'' then replicate 64 (CHR ''a'') else replicate 64 (CHR ''b''))"

lemma const_hash_ok: "looks_like_hash (const_hash x)"
  by (simp add: const_hash_def looks_like_hash_def) code_simp

definition start_state :: auth_state where
  "start_state = \<lparr>token_hash = Some (const_hash ''operator''), readonly_hash = Some (const_hash ''r''),
     full_file = Some (const_hash ''operator''), ro_file = Some (const_hash ''r''), raw_files = []\<rparr>"

lemma const_hash_other: "const_hash ''operator'' \<noteq> const_hash ''r''"
  by (simp add: const_hash_def)

definition plain_libs :: audit_libs where
  "plain_libs = \<lparr>sha256_hex = id, rfc3339 = show_int, payload_text = (\<lambda>_. [])\<rparr>"

definition desk_env :: "(socket_addr \<Rightarrow> caller option) \<Rightarrow> api_env" where
  "desk_env classify = \<lparr>e_installed = True, e_hash = const_hash, e_classify = classify, e_join_err = [],
     e_libs = plain_libs,
     e_io = \<lparr>io_audit_ok = True, io_audit_now = 0, io_review_ok = True, io_review_now = 0, io_uuid = []\<rparr>,
     e_write = Written\<rparr>"

definition rotation :: "string \<Rightarrow> request" where
  "rotation tok = \<lparr>rq_method = POST, rq_path = ''/api/v1/auth/rotate'',
     rq_authorization = Some (''Bearer '' @ tok), rq_peer = Some (V4 0, 40000), rq_token = Some tok\<rparr>"

definition desk_state :: api_state where
  "desk_state = \<lparr>api_auth = start_state, api_audit = \<lparr>al_db = [], al_seq = 0, al_last_hash = []\<rparr>,
     api_review = []\<rparr>"

theorem forwarded_exactly_when_proven_witness:
  "fst (auth_middleware (desk_env (\<lambda>_. Some (Trusted 7))) (rotation ''operator'') desk_state) = Forward
   \<and> fst (auth_middleware (desk_env (\<lambda>_. Some (Agent 7 3 ''claude''))) (rotation ''operator'') desk_state)
       \<noteq> Forward"
proof -
  have g: "guarded_path (rq_path (rotation t))" "e_installed (desk_env c)" for t c
    using rotate_path by (simp_all add: rotation_def desk_env_def)
  have b: "bears (rotation ''operator'') raw \<longleftrightarrow> raw = ''operator''" for raw
    by (auto simp: bears_def rotation_def)
  show ?thesis
    using forwarded_exactly_when_proven[OF g, of "\<lambda>_. Some (Trusted 7)" "''operator''" desk_state]
      forwarded_exactly_when_proven[OF g, of "\<lambda>_. Some (Agent 7 3 ''claude'')" "''operator''" desk_state]
      rotate_path(2)
    by (simp add: b) (simp add: rotation_def desk_env_def desk_state_def start_state_def caller_of_def)
qed

theorem tokens_change_only_by_proven_rotation_witness:
  "api_auth (foldl (\<lambda>s (E, rq). serve E rq s) desk_state
     [(desk_env (\<lambda>_. Some (Agent 7 3 ''claude'')), rotation ''operator''),
      (desk_env (\<lambda>_. Some (Trusted 7)), rotation ''r'')]) = start_state"
proof -
  let ?h = "[(desk_env (\<lambda>_. Some (Agent 7 3 ''claude'')), rotation ''operator''),
      (desk_env (\<lambda>_. Some (Trusted 7)), rotation ''r'')]"
  have a: "is_active (api_auth desk_state)"
    by (simp add: is_active_def desk_state_def start_state_def)
  have "\<forall>(E, rq) \<in> set ?h. \<not> authorised (api_auth desk_state) E rq"
    using const_hash_other
    by (auto simp: authorised_def desk_state_def start_state_def desk_env_def rotation_def bears_def
        caller_of_def)
  from tokens_change_only_by_proven_rotation[OF a this] show ?thesis by (simp add: desk_state_def)
qed

theorem generated_token_is_injective_hex_witness:
  "generate_raw_token (replicate 32 7) \<noteq> generate_raw_token (replicate 32 9)"
proof -
  have "list_all (\<lambda>x. x < 256) (replicate 32 (7::nat))" "length (replicate 32 (7::nat)) = 32"
    "list_all (\<lambda>x. x < 256) (replicate 32 (9::nat))" by (simp_all add: list_all_iff)
  from generated_token_is_injective_hex[OF this] show ?thesis by (simp add: replicate_eq_replicate)
qed

theorem tokens_survive_restarts_witness:
  "token_hash (foldl (auth_step const_hash) start_state [Rotate Written ''next'', Register Written ''x''])
     = Some (const_hash ''next'')"
proof -
  have "on_disk start_state"
    using const_hash_ok by (auto simp: on_disk_def provisioned_def start_state_def)
  moreover have "list_all writes_complete [Rotate Written ''next'', Register Written ''x'']" by simp
  ultimately have "token_hash (foldl (auth_step const_hash) start_state
      [Rotate Written ''next'', Register Written ''x''])
    = last_rotation const_hash [Rotate Written ''next'', Register Written ''x''] (token_hash start_state)"
    using tokens_survive_restarts[of const_hash start_state] const_hash_ok by blast
  then show ?thesis by simp
qed

end
