(* ===== verification/PackageGuard.thy ===== *)
theory PackageGuard
  imports Values
begin

text \<open>
  agent/src/policy/package_guard.rs: whether the command line of a package manager adds or fetches
  packages. The argument vector of a process is a list of strings; \<open>lossy\<close> is
  \<open>String::from_utf8_lossy\<close>.
\<close>

section \<open>Programs\<close>

record install =
  ins_tool :: string
  ins_command :: string

definition is_interpreter :: "string \<Rightarrow> bool" where
  "is_interpreter w =
     (w = ''env'' \<or> w = ''node'' \<or> w = ''nodejs'' \<or> w = ''bun'' \<or> starts_with w ''python'')"

definition base_name :: "string \<Rightarrow> string" where
  "base_name arg = last (split_on (\<lambda>c. c = CHR ''/'' \<or> c = CHR 0x5C) arg)"

definition program :: "string \<Rightarrow> string" where
  "program arg =
     (let base = to_ascii_lowercase (base_name arg)
      in if base = ''npm-cli.js'' then ''npm''
         else if base = ''npx-cli.js'' then ''npx''
         else if base = ''yarn.js'' \<or> base = ''yarn.cjs'' then ''yarn''
         else if base = ''pnpm.cjs'' \<or> base = ''pnpm.mjs'' then ''pnpm''
         else base)"

definition TOOLS :: "string list" where
  "TOOLS =
     [''npm'', ''npx'', ''pnpm'', ''pnpx'', ''yarn'', ''bun'', ''bunx'', ''pip'', ''pip3'', ''pipx'',
      ''uv'', ''uvx'', ''poetry'', ''cargo'', ''gem'']"

section \<open>Finding the package manager\<close>

text \<open>\<open>python -m pip ...\<close>: the module after the first -m behind position \<open>i\<close>.\<close>

definition first_index :: "('a \<Rightarrow> bool) \<Rightarrow> 'a list \<Rightarrow> nat option" where
  "first_index P xs =
     (let n = length (takeWhile (\<lambda>x. \<not> P x) xs) in if n < length xs then Some n else None)"

definition python_module :: "string list \<Rightarrow> nat \<Rightarrow> nat option" where
  "python_module argv i =
     (case first_index (\<lambda>x. x = ''-m'') (drop (i + 1) argv) of
        None \<Rightarrow> None
      | Some m \<Rightarrow>
          let j = i + 1 + m + 1
          in if j < length argv \<and> argv ! j \<in> {''pip'', ''pip3'', ''uv''} then Some j else None)"

function find_tool :: "string list \<Rightarrow> nat \<Rightarrow> (nat \<times> string) option" where
  "find_tool argv i =
     (if i \<ge> length argv then None
      else
        let p = program (argv ! i)
        in if p \<in> set TOOLS then Some (i, p)
           else case (if starts_with p ''python'' then python_module argv i else None) of
                  Some j \<Rightarrow> Some (j, program (argv ! j))
                | None \<Rightarrow>
                    if \<not> is_interpreter p \<or> i \<ge> 3 then None else find_tool argv (i + 1))"
  by pat_completeness auto
termination by (relation "measure (\<lambda>(argv, i). length argv - i)") auto

declare find_tool.simps [simp del]

section \<open>What the command does\<close>

definition has_flag :: "string list \<Rightarrow> string \<Rightarrow> bool" where
  "has_flag rest flag = list_ex (\<lambda>a. a = flag \<or> starts_with a (flag @ ''='')) rest"

definition NPM_ADDS :: "string list" where
  "NPM_ADDS =
     [''install'', ''i'', ''in'', ''ins'', ''inst'', ''insta'', ''instal'', ''isnt'', ''isnta'',
      ''isntal'', ''isntall'', ''add'', ''ci'', ''clean-install'', ''ic'', ''install-clean'',
      ''isntall-clean'', ''install-test'', ''it'', ''cit'', ''clean-install-test'', ''sit'',
      ''update'', ''up'', ''upgrade'', ''udpate'', ''exec'', ''x'', ''create'', ''innit'']"

definition second_in :: "string list \<Rightarrow> string list \<Rightarrow> bool" where
  "second_in positional ws = (length positional > 1 \<and> positional ! 1 \<in> set ws)"

definition adds :: "string \<Rightarrow> string list \<Rightarrow> bool" where
  "adds tool rest =
     (let positional = filter (\<lambda>a. \<not> starts_with a ''-'') rest;
          sub = (case positional of [] \<Rightarrow> [] | s # _ \<Rightarrow> s)
      in if tool \<in> {''npx'', ''pnpx'', ''bunx'', ''uvx''} then True
         else if tool = ''npm'' then
           sub \<in> set NPM_ADDS \<or> sub = ''init'' \<and> length positional > 1
         else if tool = ''pnpm'' then
           sub \<in> {''add'', ''install'', ''i'', ''update'', ''up'', ''upgrade'', ''dlx'', ''create'',
                  ''install-test'', ''it''}
         else if tool = ''yarn'' then
           sub = [] \<or> sub \<in> {''add'', ''install'', ''up'', ''upgrade'', ''upgrade-interactive'', ''dlx'',
                  ''create''}
         else if tool = ''bun'' then
           sub \<in> {''add'', ''a'', ''install'', ''i'', ''update'', ''x'', ''create'', ''c''}
         else if tool = ''pip'' \<or> tool = ''pip3'' then sub \<in> {''install'', ''download'', ''wheel''}
         else if tool = ''pipx'' then
           sub \<in> {''install'', ''run'', ''inject'', ''upgrade'', ''upgrade-all'', ''reinstall''}
         else if tool = ''uv'' then
           (if sub = ''add'' \<or> sub = ''sync'' then True
            else if sub = ''pip'' then second_in positional [''install'', ''sync'']
            else if sub = ''tool'' then second_in positional [''install'', ''run'', ''upgrade'']
            else if sub = ''run'' then has_flag rest ''--with'' \<or> has_flag rest ''--with-requirements''
            else False)
         else if tool = ''poetry'' then sub \<in> {''add'', ''install'', ''update'', ''sync''}
         else if tool = ''cargo'' then sub \<in> {''install'', ''add'', ''binstall''}
         else if tool = ''gem'' then sub \<in> {''install'', ''update''}
         else False)"

section \<open>The sentence\<close>

text \<open>
  The longest prefix of at most \<open>i\<close> bytes that ends between characters. \<open>is_char_boundary\<close> is
  true at 0, at the end, and before a byte that does not continue a character.
\<close>

definition is_char_boundary :: "string \<Rightarrow> nat \<Rightarrow> bool" where
  "is_char_boundary s i = (i = 0 \<or> i = length s \<or> i < length s \<and> \<not> is_cont (s ! i))"

function cut_back :: "string \<Rightarrow> nat \<Rightarrow> nat" where
  "cut_back s i = (if is_char_boundary s i then i else cut_back s (i - 1))"
  by pat_completeness auto
termination
  by (relation "measure snd") (auto simp: is_char_boundary_def)

declare cut_back.simps [simp del]

definition shorten :: "string \<Rightarrow> string" where
  "shorten command =
     (if length command > 80 then take (cut_back command 77) command @ ''...'' else command)"

definition install_command :: "string list \<Rightarrow> install option" where
  "install_command argv =
     (case find_tool argv 0 of
        None \<Rightarrow> None
      | Some (i, tool) \<Rightarrow>
          let rest = drop (i + 1) argv
          in if adds tool rest
             then Some \<lparr>ins_tool = tool, ins_command = shorten (join '' '' (tool # take 5 rest))\<rparr>
             else None)"

definition argv_of :: "(string \<Rightarrow> string) \<Rightarrow> string option \<Rightarrow> string list option" where
  "argv_of lossy data =
     (case data of
        None \<Rightarrow> None
      | Some d \<Rightarrow>
          let v = map lossy (filter (\<lambda>t. t \<noteq> []) (split_on (\<lambda>c. c = CHR 0x00) d))
          in if v = [] then None else Some v)"

definition TARGET_PREFIX :: string where
  "TARGET_PREFIX = ''PKG_INSTALL:''"

section \<open>Properties\<close>

lemma find_tool_direct: "program p \<in> set TOOLS \<Longrightarrow> find_tool (p # rest) 0 = Some (0, program p)"
  by (subst find_tool.simps) simp

definition verdict :: "string \<Rightarrow> string list \<Rightarrow> install option" where
  "verdict tool rest =
     (if adds tool rest
      then Some \<lparr>ins_tool = tool, ins_command = shorten (join '' '' (tool # take 5 rest))\<rparr> else None)"

lemma install_command_at:
  "find_tool argv 0 = Some (i, tool) \<Longrightarrow> install_command argv = verdict tool (drop (i + 1) argv)"
  by (simp add: install_command_def verdict_def Let_def)

text \<open>An interpreter in front: a word that is neither a package manager nor python.\<close>

definition plain_interpreter :: "string \<Rightarrow> bool" where
  "plain_interpreter w =
     (is_interpreter (program w) \<and> program w \<notin> set TOOLS \<and> \<not> starts_with (program w) ''python'')"

lemma find_tool_skip:
  assumes "list_all plain_interpreter ws" "length pre + length ws \<le> 3" "program p \<in> set TOOLS"
  shows "find_tool (pre @ ws @ p # rest) (length pre) = Some (length pre + length ws, program p)"
  using assms
proof (induction ws arbitrary: pre)
  case Nil
  then show ?case by (subst find_tool.simps) simp
next
  case (Cons w ws)
  have "find_tool (pre @ (w # ws) @ p # rest) (length pre)
      = find_tool ((pre @ [w]) @ ws @ p # rest) (length (pre @ [w]))"
    using Cons.prems by (subst find_tool.simps) (auto simp: plain_interpreter_def Let_def nth_append)
  also have "\<dots> = Some (length pre + length (w # ws), program p)"
    using Cons.IH[of "pre @ [w]"] Cons.prems by simp
  finally show ?case .
qed

text \<open>
  Up to three interpreters in front of a package manager change nothing: the verdict on
  \<open>env node /usr/bin/npm ...\<close> is the verdict on the package manager run directly, whatever
  directory it is named in and whatever the case of its letters.
\<close>
theorem interpreters_change_no_verdict:
  assumes "list_all plain_interpreter ws" "length ws \<le> 3"
    and "program p \<in> set TOOLS" "program p' = program p"
  shows "install_command (ws @ p # rest) = install_command (p' # rest)
    \<and> install_command (p' # rest) = verdict (program p) rest"
proof -
  have "find_tool (ws @ p # rest) 0 = Some (length ws, program p)"
    using find_tool_skip[of ws "[]" p rest] assms by simp
  then have "install_command (ws @ p # rest) = verdict (program p) rest"
    using install_command_at by fastforce
  moreover have "install_command (p' # rest) = verdict (program p) rest"
    using install_command_at[OF find_tool_direct[of p' rest]] assms by simp
  ultimately show ?thesis by simp
qed

lemma cut_back_le: "cut_back s i \<le> i \<and> is_char_boundary s (cut_back s i)"
  by (induction s i rule: cut_back.induct) (subst (1 2) cut_back.simps; auto)

lemma shorten_bound:
  "length (shorten c) \<le> 80
   \<and> (shorten c = c \<or> (\<exists>k \<le> 77. is_char_boundary c k \<and> shorten c = take k c @ ''...''))"
  using cut_back_le[of c 77] by (auto simp: shorten_def)

lemma module_in_TOOLS: "w \<in> {''pip'', ''pip3'', ''uv''} \<Longrightarrow> program w \<in> set TOOLS"
proof -
  have "program ''pip'' \<in> set TOOLS" "program ''pip3'' \<in> set TOOLS" "program ''uv'' \<in> set TOOLS"
    by code_simp+
  then show "w \<in> {''pip'', ''pip3'', ''uv''} \<Longrightarrow> program w \<in> set TOOLS" by auto
qed

lemma find_tool_in_TOOLS: "find_tool argv k = Some (i, tool) \<Longrightarrow> tool \<in> set TOOLS"
proof (induction argv k rule: find_tool.induct)
  case (1 argv k)
  let ?p = "program (argv ! k)"
  have eq: "find_tool argv k =
    (if k \<ge> length argv then None
     else if ?p \<in> set TOOLS then Some (k, ?p)
     else case (if starts_with ?p ''python'' then python_module argv k else None) of
            Some j \<Rightarrow> Some (j, program (argv ! j))
          | None \<Rightarrow> if \<not> is_interpreter ?p \<or> k \<ge> 3 then None else find_tool argv (k + 1))"
    by (subst find_tool.simps) (simp add: Let_def)
  have "argv ! j \<in> {''pip'', ''pip3'', ''uv''}" if "python_module argv k = Some j" for j
    using that by (auto simp: python_module_def Let_def split: option.splits if_splits)
  then show ?case using 1 module_in_TOOLS unfolding eq
    by (auto split: if_splits option.splits)
qed

text \<open>
  The sentence shown to the person is never longer than 80 bytes, and when it is cut it is cut
  between characters: it is the joined command, or a prefix of it ending at a character boundary
  followed by three dots. (The loop that looks for the boundary always finds one.)
\<close>
theorem sentence_is_bounded:
  assumes "install_command argv = Some ins"
  shows "length (ins_command ins) \<le> 80 \<and> ins_tool ins \<in> set TOOLS
    \<and> (\<exists>words. ins_command ins = join '' '' (ins_tool ins # words)
        \<or> (\<exists>k \<le> 77. is_char_boundary (join '' '' (ins_tool ins # words)) k
             \<and> ins_command ins = take k (join '' '' (ins_tool ins # words)) @ ''...''))"
proof -
  obtain i tool where f: "find_tool argv 0 = Some (i, tool)"
    using assms by (auto simp: install_command_def split: option.splits)
  have "tool \<in> set TOOLS" using find_tool_in_TOOLS[OF f] .
  moreover have "ins = \<lparr>ins_tool = tool, ins_command = shorten (join '' '' (tool # take 5 (drop (i + 1) argv)))\<rparr>"
    using assms install_command_at[OF f] by (auto simp: verdict_def split: if_splits)
  ultimately show ?thesis
    using shorten_bound[of "join '' '' (tool # take 5 (drop (i + 1) argv))"] by auto
qed

text \<open>Every word some tool reads as a subcommand that may add packages.\<close>

definition LISTED :: "string list" where
  "LISTED = NPM_ADDS @
     [''init'', ''dlx'', ''upgrade-interactive'', ''a'', ''c'', ''download'', ''wheel'', ''run'', ''inject'',
      ''upgrade-all'', ''reinstall'', ''sync'', ''pip'', ''tool'', ''binstall'']"

lemma unlisted_never_adds:
  assumes "tool \<notin> {''npx'', ''pnpx'', ''bunx'', ''uvx''}"
    and "starts_with opt ''-''" "\<not> starts_with v ''-''" "v \<noteq> []" "v \<notin> set LISTED"
  shows "\<not> adds tool (opt # v # rest)"
proof -
  have sub: "filter (\<lambda>a. \<not> starts_with a ''-'') (opt # v # rest) = v # filter (\<lambda>a. \<not> starts_with a ''-'') rest"
    using assms by simp
  have n: "v \<notin> set NPM_ADDS" "v \<notin> set (drop (length NPM_ADDS) LISTED)"
    using assms(5) by (auto simp: LISTED_def)
  then show ?thesis using assms(1,4)
    unfolding adds_def Let_def sub by (auto simp: LISTED_def NPM_ADDS_def)
qed

text \<open>
  An option with a value of its own hides the command: when the first word after the options is
  the value of an option, the guard takes it for the subcommand, and a package manager run that way
  is let through whatever comes after it. (The rule is that agents cannot install packages.)
\<close>
theorem option_value_hides_install:
  assumes "program p \<in> set TOOLS" "program p \<notin> {''npx'', ''pnpx'', ''bunx'', ''uvx''}"
    and "starts_with opt ''-''" "\<not> starts_with v ''-''" "v \<noteq> []" "v \<notin> set LISTED"
  shows "install_command (p # opt # v # rest) = None"
  using install_command_at[OF find_tool_direct[OF assms(1)]] unlisted_never_adds[OF assms(2-6)]
  by (simp add: verdict_def)

section \<open>Witnesses\<close>

lemma program_npm: "program ''/usr/bin/npm'' = ''npm''" "program ''NPM'' = ''npm''"
  by code_simp+

theorem option_value_hides_install_witness:
  "install_command [''/usr/bin/npm'', ''--prefix'', ''/srv'', ''install'', ''left-pad''] = None
   \<and> install_command [''/usr/bin/npm'', ''install'', ''--prefix'', ''/srv'', ''left-pad''] \<noteq> None"
proof -
  have "program ''/usr/bin/npm'' \<in> set TOOLS" "program ''/usr/bin/npm'' \<notin> {''npx'', ''pnpx'', ''bunx'', ''uvx''}"
    unfolding program_npm by (simp_all add: TOOLS_def)
  moreover have "''/srv'' \<notin> set LISTED" by (simp add: LISTED_def NPM_ADDS_def)
  ultimately show ?thesis
    using option_value_hides_install[of "''/usr/bin/npm''" "''--prefix''" "''/srv''" "[''install'', ''left-pad'']"]
      install_command_at[OF find_tool_direct, of "''/usr/bin/npm''" "[''install'', ''--prefix'', ''/srv'', ''left-pad'']"]
    by (simp add: verdict_def adds_def program_npm NPM_ADDS_def)
qed

theorem interpreters_change_no_verdict_witness:
  "map_option ins_command (install_command
     [''/usr/bin/env'', ''node'', ''/usr/bin/npm'', ''install'', ''left-pad'']) = Some ''npm install left-pad''"
proof -
  have "list_all plain_interpreter [''/usr/bin/env'', ''node'']" by code_simp
  moreover have "program ''/usr/bin/npm'' \<in> set TOOLS"
    unfolding program_npm by (simp add: TOOLS_def)
  ultimately have "install_command ([''/usr/bin/env'', ''node''] @ ''/usr/bin/npm'' # [''install'', ''left-pad''])
      = verdict ''npm'' [''install'', ''left-pad'']"
    using interpreters_change_no_verdict[of "[''/usr/bin/env'', ''node'']" "''/usr/bin/npm''"
        "''NPM''" "[''install'', ''left-pad'']"]
    by (simp add: program_npm)
  then show ?thesis by (simp add: verdict_def adds_def NPM_ADDS_def shorten_def)
qed

theorem sentence_is_bounded_witness:
  "\<exists>ins. install_command [''npm'', ''install'', ''left-pad''] = Some ins \<and> length (ins_command ins) \<le> 80"
proof -
  have "find_tool [''npm'', ''install'', ''left-pad''] 0 = Some (0, ''npm'')"
    using find_tool_direct[of "''npm''" "[''install'', ''left-pad'']"]
    by (simp add: program_def base_name_def to_ascii_lowercase_def ascii_lower_def byte_def TOOLS_def)
  from install_command_at[OF this] have "install_command [''npm'', ''install'', ''left-pad''] =
      Some \<lparr>ins_tool = ''npm'', ins_command = ''npm install left-pad''\<rparr>"
    by (simp add: verdict_def adds_def NPM_ADDS_def shorten_def)
  from sentence_is_bounded[OF this] this show ?thesis by blast
qed

end
