(* ===== verification/ToolPolicy.thy ===== *)
theory ToolPolicy
  imports NetAddr
begin

text \<open>
  agent/src/analyzer/tool_call.rs and agent/src/analyzer/rule_compiler.rs: the structured action a
  small model emits, recovered from its text, and the kernel rules that action is compiled into. The
  JSON parser is an argument; a parsed object has each key once.
\<close>

section \<open>Calls\<close>

datatype severity = SevLow | SevMedium | SevHigh | SevCritical

definition parse_severity :: "string \<Rightarrow> severity" where
  "parse_severity s =
     (let t = to_ascii_lowercase (trim s)
      in if t = ''low'' then SevLow
         else if t = ''medium'' \<or> t = ''med'' then SevMedium
         else if t = ''high'' then SevHigh
         else if t = ''critical'' \<or> t = ''crit'' then SevCritical
         else SevHigh)"

fun severity_score :: "severity \<Rightarrow> nat" where
  "severity_score SevLow = 20"
| "severity_score SevMedium = 45"
| "severity_score SevHigh = 70"
| "severity_score SevCritical = 92"

datatype security_tool_call =
    TAllow string
  | TAlert severity string string string
  | TBlock severity string string string string
  | TQuarantine "32 word" string string
  | TEscalate string string string

datatype slm_action = SlmAllow | SlmAlert | SlmBlock

fun call_name :: "security_tool_call \<Rightarrow> string" where
  "call_name (TAllow _) = ''allow''"
| "call_name (TAlert _ _ _ _) = ''alert''"
| "call_name (TBlock _ _ _ _ _) = ''block''"
| "call_name (TQuarantine _ _ _) = ''quarantine''"
| "call_name (TEscalate _ _ _) = ''escalate''"

fun call_action :: "security_tool_call \<Rightarrow> slm_action" where
  "call_action (TAllow _) = SlmAllow"
| "call_action (TAlert _ _ _ _) = SlmAlert"
| "call_action (TBlock _ _ _ _ _) = SlmBlock"
| "call_action (TQuarantine _ _ _) = SlmBlock"
| "call_action (TEscalate _ _ _) = SlmAlert"

fun call_risk :: "security_tool_call \<Rightarrow> nat" where
  "call_risk (TAllow _) = 5"
| "call_risk (TAlert sev _ _ _) = severity_score sev"
| "call_risk (TBlock sev _ _ _ _) = severity_score sev"
| "call_risk (TQuarantine _ _ _) = 95"
| "call_risk (TEscalate _ _ _) = 50"

fun call_rationale :: "security_tool_call \<Rightarrow> string" where
  "call_rationale (TAllow r) = r"
| "call_rationale (TAlert _ _ _ r) = r"
| "call_rationale (TBlock _ _ _ _ r) = r"
| "call_rationale (TQuarantine _ _ r) = r"
| "call_rationale (TEscalate _ _ r) = r"

section \<open>The first JSON object in a text\<close>

text \<open>
  The scan over bytes: \<open>acc\<close> is what has been read since the first brace, in reverse. The depth is
  a machine integer that would underflow at 0; the model subtracts naturals, and the first property
  below shows that the scan never subtracts at 0.
\<close>

fun scan_object :: "string \<Rightarrow> nat \<Rightarrow> bool \<Rightarrow> bool \<Rightarrow> string \<Rightarrow> string option" where
  "scan_object [] depth in_str escaped acc = None"
| "scan_object (c # cs) depth in_str escaped acc =
     (if in_str then
        (if escaped then scan_object cs depth True False (c # acc)
         else if c = CHR 0x5C then scan_object cs depth True True (c # acc)
         else if c = CHR 0x22 then scan_object cs depth False False (c # acc)
         else scan_object cs depth True False (c # acc))
      else if c = CHR 0x22 then scan_object cs depth True escaped (c # acc)
      else if c = CHR 0x7B then scan_object cs (depth + 1) False escaped (c # acc)
      else if c = CHR 0x7D then
        (if depth - 1 = 0 then Some (rev (c # acc))
         else scan_object cs (depth - 1) False escaped (c # acc))
      else scan_object cs depth False escaped (c # acc))"

definition extract_json_object :: "string \<Rightarrow> string option" where
  "extract_json_object text =
     (let t = dropWhile (\<lambda>c. c \<noteq> CHR 0x7B) text
      in if t = [] then None else scan_object t 0 False False [])"

section \<open>Parsing a call\<close>

datatype call_error = NoObject | NotJson | MissingName | UnknownTool string

definition str_field :: "json \<Rightarrow> string \<Rightarrow> string" where
  "str_field args key =
     trim (case Option.bind (json_get args key) as_str of Some s \<Rightarrow> s | None \<Rightarrow> [])"

definition U64_MAX :: nat where
  "U64_MAX = 2 ^ 64 - 1"

definition pid_value :: "json \<Rightarrow> nat" where
  "pid_value p =
     (case (case p of JNum n \<Rightarrow> parse_uint U64_MAX n | _ \<Rightarrow> None) of
        Some n \<Rightarrow> n
      | None \<Rightarrow> (case Option.bind (as_str p) (\<lambda>s. parse_uint U64_MAX (trim s)) of
                  Some n \<Rightarrow> n | None \<Rightarrow> 0))"

definition pid_field :: "json \<Rightarrow> 32 word" where
  "pid_field args =
     (case json_get args ''pid'' of None \<Rightarrow> 0 | Some p \<Rightarrow> word_of_nat (pid_value p))"

definition or_else :: "'a option \<Rightarrow> 'a option \<Rightarrow> 'a option" where
  "or_else x y = (case x of None \<Rightarrow> y | Some _ \<Rightarrow> x)"

definition build_call :: "string \<Rightarrow> json \<Rightarrow> call_error + security_tool_call" where
  "build_call name args =
     (let f = str_field args
      in if name = ''allow'' then Inr (TAllow (f ''rationale''))
         else if name = ''alert'' then
           Inr (TAlert (parse_severity (f ''severity'')) (f ''category'') (f ''mitre_id'')
                  (f ''rationale''))
         else if name = ''block'' then
           Inr (TBlock (parse_severity (f ''severity'')) (f ''category'') (f ''mitre_id'')
                  (f ''target'') (f ''rationale''))
         else if name = ''quarantine'' then
           Inr (TQuarantine (pid_field args) (f ''category'') (f ''rationale''))
         else if name = ''escalate'' then
           Inr (TEscalate (f ''action_requested'') (f ''category'') (f ''rationale''))
         else Inl (UnknownTool name))"

definition parse_tool_call ::
  "(string \<Rightarrow> json option) \<Rightarrow> string \<Rightarrow> call_error + security_tool_call" where
  "parse_tool_call from_str text =
     (case extract_json_object text of
        None \<Rightarrow> Inl NoObject
      | Some json_str \<Rightarrow>
         (case from_str json_str of
            None \<Rightarrow> Inl NotJson
          | Some v \<Rightarrow>
             (case Option.bind (or_else (json_get v ''name'') (json_get v ''tool'')) as_str of
                None \<Rightarrow> Inl MissingName
              | Some s \<Rightarrow>
                  build_call (to_ascii_lowercase (trim s))
                    (case or_else (json_get v ''arguments'') (json_get v ''args'') of
                       Some a \<Rightarrow> a | None \<Rightarrow> v))))"

section \<open>The rules a call compiles to\<close>

datatype l0_rule = BlockFile string | BlockIp string | ContainPid "32 word"

record compiled_policy =
  cp_commands :: "l0_rule list"
  cp_notes :: "string list"

definition empty_policy :: compiled_policy where
  "empty_policy = \<lparr>cp_commands = [], cp_notes = []\<rparr>"

definition install_rule :: "l0_rule \<Rightarrow> string \<Rightarrow> compiled_policy \<Rightarrow> compiled_policy" where
  "install_rule cmd desc P =
     P\<lparr>cp_commands := cp_commands P @ [cmd], cp_notes := cp_notes P @ [''install '' @ desc]\<rparr>"

definition refuse_rule :: "string \<Rightarrow> string \<Rightarrow> compiled_policy \<Rightarrow> compiled_policy" where
  "refuse_rule what why P =
     P\<lparr>cp_notes := cp_notes P @ [''refuse '' @ what @ '' '' @ EM_DASH @ '' '' @ why]\<rparr>"

datatype target = TargetFile string | TargetIp string | TargetHostname | TargetInvalid

definition classify_target :: "string \<Rightarrow> target" where
  "classify_target raw =
     (let t = trim raw
      in if t = [] then TargetInvalid
         else case parse_ip t of
                Some ip \<Rightarrow> TargetIp (show_ip ip)
              | None \<Rightarrow>
                  if starts_with t ''/'' then TargetFile t
                  else if contains t ''.'' \<and> \<not> contains t ''/'' \<and> length (split_whitespace t) \<le> 1
                  then TargetHostname
                  else TargetInvalid)"

definition BRICKS_AGENT :: "string list" where
  "BRICKS_AGENT =
     [''bash'', ''sh'', ''zsh'', ''dash'', ''fish'', ''python'', ''python3'', ''node'', ''ruby'', ''perl'',
      ''ld.so.cache'', ''ld-linux-x86-64.so.2'', ''ld-linux.so.2'', ''libc.so.6'', ''libc.so'',
      ''libm.so.6'', ''libpthread.so.0'']"

definition CRITICAL :: "string list" where
  "CRITICAL =
     [''/bin'', ''/sbin'', ''/usr'', ''/usr/bin'', ''/usr/sbin'', ''/usr/lib'', ''/lib'', ''/lib64'',
      ''/libx32'', ''/etc'', ''/boot'', ''/dev'', ''/proc'', ''/sys'', ''/var'', ''/run'', ''/opt'',
      ''/home'', ''/root'']"

definition dangerous_path :: "string \<Rightarrow> string option" where
  "dangerous_path raw =
     (let p = trim_end_char (CHR ''/'') (trim raw)
      in if p = [] then Some ''filesystem root''
         else if last_segment p \<in> set BRICKS_AGENT then
           Some ''basename the monitored agent needs to run (would brick it)''
         else if p \<in> set CRITICAL then Some ''critical system path''
         else None)"

definition is_unspecified :: "ip_addr \<Rightarrow> bool" where
  "is_unspecified ip = (case ip of V4 w \<Rightarrow> w = 0 | V6 w \<Rightarrow> w = 0)"

definition dangerous_ip :: "ip_addr \<Rightarrow> string option" where
  "dangerous_ip ip =
     (if is_unspecified ip then
        Some (''unspecified address (0.0.0.0/::) '' @ EM_DASH @ '' would match all traffic'')
      else if is_loopback ip then Some (''loopback '' @ EM_DASH @ '' blocking it breaks local IPC'')
      else case ip of
             V4 w \<Rightarrow> if w = 0xFFFFFFFF then Some ''broadcast address'' else None
           | V6 _ \<Rightarrow> None)"

text \<open>Characters, for the truncation of a target in a note.\<close>

fun count_chars :: "string \<Rightarrow> nat" where
  "count_chars [] = 0"
| "count_chars (c # cs) = (if is_cont c then 0 else 1) + count_chars cs"

fun take_chars :: "nat \<Rightarrow> string \<Rightarrow> string" where
  "take_chars n [] = []"
| "take_chars n (c # cs) =
     (if is_cont c then c # take_chars n cs
      else case n of 0 \<Rightarrow> [] | Suc m \<Rightarrow> c # take_chars m cs)"

definition truncate_note :: "nat \<Rightarrow> string \<Rightarrow> string" where
  "truncate_note max_chars s =
     (let t = trim s
      in if count_chars t \<le> max_chars then t else take_chars max_chars t @ [CHR 0xE2, CHR 0x80, CHR 0xA6])"

definition only_note :: "string \<Rightarrow> compiled_policy" where
  "only_note n = empty_policy\<lparr>cp_notes := [n]\<rparr>"

text \<open>\<open>None\<close> is the panic of \<open>expect\<close> on an address that does not parse again.\<close>

definition compile_block :: "string \<Rightarrow> compiled_policy option" where
  "compile_block tgt =
     (let out = empty_policy
      in case classify_target tgt of
           TargetFile p \<Rightarrow>
             Some (case dangerous_path p of
                     Some why \<Rightarrow> refuse_rule (''BlockFile('' @ p @ '')'') why out
                   | None \<Rightarrow> install_rule (BlockFile p) (''BlockFile('' @ p @ '')'') out)
         | TargetIp ip \<Rightarrow>
             map_option (\<lambda>parsed.
               case dangerous_ip parsed of
                 Some why \<Rightarrow> refuse_rule (''BlockIp('' @ ip @ '')'') why out
               | None \<Rightarrow> install_rule (BlockIp ip) (''BlockIp('' @ ip @ '')'') out) (parse_ip ip)
         | TargetHostname \<Rightarrow>
             Some (refuse_rule (''Block hostname '' @ [CHR 0x27] @ truncate_note 40 tgt @ [CHR 0x27])
               ''eBPF enforces on IPs; hostnames are handled by the inspection proxy, not L0'' out)
         | TargetInvalid \<Rightarrow>
             Some (refuse_rule (''Block target '' @ [CHR 0x27] @ truncate_note 40 tgt @ [CHR 0x27])
               ''empty or unrecognised target'' out))"

definition show_pid :: "32 word \<Rightarrow> string" where
  "show_pid p = show_nat (unat p)"

definition compile_quarantine :: "32 word \<Rightarrow> compiled_policy" where
  "compile_quarantine pid =
     (if pid \<le> 1 then
        refuse_rule (''ContainPid('' @ show_pid pid @ '')'')
          (if pid = 0 then
             ''session-wide sentinel '' @ EM_DASH
             @ '' expand to session pids upstream, not a single ContainPid''
           else ''refusing to contain pid 1 (init)'') empty_policy
      else install_rule (ContainPid pid) (''ContainPid('' @ show_pid pid @ '')'') empty_policy)"

fun compile_call :: "security_tool_call \<Rightarrow> compiled_policy option" where
  "compile_call (TAllow _) = Some (only_note (''allow '' @ EM_DASH @ '' advisory, no L0 rule installed''))"
| "compile_call (TAlert _ _ _ _) =
     Some (only_note (''alert '' @ EM_DASH @ '' detection-only, no L0 enforcement''))"
| "compile_call (TBlock _ _ _ tgt _) = compile_block tgt"
| "compile_call (TQuarantine pid _ _) = Some (compile_quarantine pid)"
| "compile_call (TEscalate _ _ _) =
     Some (only_note (''escalate '' @ EM_DASH @ '' awaiting human/L3, no autonomous L0 rule''))"

record slm_verdict =
  sv_risk :: nat
  sv_explanation :: string
  sv_action :: slm_action
  sv_model :: string
  sv_latency :: nat
  sv_compiled :: "string list"
  sv_rules :: "l0_rule list"

definition to_verdict :: "string \<Rightarrow> nat \<Rightarrow> security_tool_call \<Rightarrow> slm_verdict option" where
  "to_verdict model latency c =
     map_option (\<lambda>P. \<lparr>sv_risk = call_risk c,
        sv_explanation = ''['' @ call_name c @ ''] '' @ call_rationale c,
        sv_action = call_action c, sv_model = model, sv_latency = latency,
        sv_compiled = cp_notes P, sv_rules = cp_commands P\<rparr>) (compile_call c)"

section \<open>Properties\<close>

lemmas policy_simps = empty_policy_def install_rule_def refuse_rule_def only_note_def

text \<open>What a kernel rule may be, whatever the model wrote.\<close>

fun safe_rule :: "l0_rule \<Rightarrow> bool" where
  "safe_rule (BlockFile p) =
     (starts_with p ''/'' \<and> trim p = p \<and> trim_end_char (CHR ''/'') p \<noteq> []
      \<and> last_segment (trim_end_char (CHR ''/'') p) \<notin> set BRICKS_AGENT
      \<and> trim_end_char (CHR ''/'') p \<notin> set CRITICAL)"
| "safe_rule (BlockIp s) =
     (\<exists>ip. parse_ip s = Some ip \<and> \<not> is_unspecified ip \<and> \<not> is_loopback ip \<and> ip \<noteq> V4 0xFFFFFFFF)"
| "safe_rule (ContainPid pid) = (1 < pid)"

lemma classify_file: "classify_target raw = TargetFile p \<Longrightarrow> p = trim raw \<and> starts_with p ''/''"
  by (auto simp: classify_target_def Let_def split: if_splits option.splits)

lemma dangerous_path_None:
  "dangerous_path p = None \<longleftrightarrow>
     (let q = trim_end_char (CHR ''/'') (trim p)
      in q \<noteq> [] \<and> last_segment q \<notin> set BRICKS_AGENT \<and> q \<notin> set CRITICAL)"
  by (simp add: dangerous_path_def Let_def)

lemma dangerous_ip_None:
  "dangerous_ip ip = None \<Longrightarrow> \<not> is_unspecified ip \<and> \<not> is_loopback ip \<and> ip \<noteq> V4 0xFFFFFFFF"
  by (auto simp: dangerous_ip_def split: if_splits ip_addr.splits)

lemma compile_block_safe:
  assumes "compile_block t = Some P"
  shows "length (cp_commands P) \<le> 1 \<and> (\<forall>r \<in> set (cp_commands P). safe_rule r)"
proof (cases "classify_target t")
  case (TargetFile p)
  note f = classify_file[OF TargetFile]
  show ?thesis
  proof (cases "dangerous_path p")
    case None
    then have "P = install_rule (BlockFile p) (''BlockFile('' @ p @ '')'') empty_policy"
      using assms TargetFile by (simp add: compile_block_def)
    then show ?thesis using None f by (auto simp: policy_simps dangerous_path_None Let_def)
  qed (use assms TargetFile in \<open>auto simp: compile_block_def policy_simps\<close>)
next
  case (TargetIp s)
  then obtain ip where ip: "parse_ip s = Some ip"
    using assms by (auto simp: compile_block_def)
  then show ?thesis using assms TargetIp dangerous_ip_None[of ip]
    by (cases "dangerous_ip ip") (auto simp: compile_block_def policy_simps)
qed (use assms in \<open>auto simp: compile_block_def policy_simps\<close>)

text \<open>
  C11. Whatever the model emits, at most one kernel rule is installed, only for a block or a
  quarantine, and the rule is safe: a file rule names an absolute path that is neither a system
  directory nor a basename the agent needs to run; an address rule is a parsable address that is not
  unspecified, loopback or broadcast; a containment is never of pid 0 or 1.
\<close>
theorem compiled_rules_are_safe:
  assumes "compile_call c = Some P"
  shows "length (cp_commands P) \<le> 1 \<and> list_all safe_rule (cp_commands P)
    \<and> (cp_commands P \<noteq> [] \<longrightarrow> call_action c = SlmBlock)"
proof (cases c)
  case (TBlock sev cat mitre tgt rat)
  then show ?thesis using assms compile_block_safe[of tgt P] by (simp add: list_all_iff)
next
  case (TQuarantine pid cat rat)
  then show ?thesis using assms
    by (auto simp: compile_quarantine_def policy_simps not_le split: if_splits)
qed (use assms in \<open>auto simp: policy_simps\<close>)

theorem compiled_rules_are_safe_witness:
  "compile_call (TQuarantine 7 [] []) = Some (compile_quarantine 7)
   \<and> length (cp_commands (compile_quarantine 7)) \<le> 1
   \<and> list_all safe_rule (cp_commands (compile_quarantine 7))"
  using compiled_rules_are_safe[of "TQuarantine 7 [] []" "compile_quarantine 7"] by simp

text \<open>
  The scan said as an automaton over bytes: the depth of braces, inside a string, after a backslash.
\<close>

fun scan_step :: "nat \<times> bool \<times> bool \<Rightarrow> char \<Rightarrow> nat \<times> bool \<times> bool" where
  "scan_step (d, True, True) c = (d, True, False)"
| "scan_step (d, True, False) c =
     (if c = CHR 0x5C then (d, True, True)
      else if c = CHR 0x22 then (d, False, False) else (d, True, False))"
| "scan_step (d, False, e) c =
     (if c = CHR 0x22 then (d, True, e)
      else if c = CHR 0x7B then (d + 1, False, e)
      else if c = CHR 0x7D then (d - 1, False, e) else (d, False, e))"

definition depth_of :: "string \<Rightarrow> nat" where
  "depth_of s = fst (foldl scan_step (0, False, False) s)"

lemma scan_object_step:
  "scan_object (c # cs) d i e acc =
     (if \<not> i \<and> c = CHR 0x7D \<and> d - 1 = 0 then Some (rev (c # acc))
      else case scan_step (d, i, e) c of (d', i', e') \<Rightarrow> scan_object cs d' i' e' (c # acc))"
  by (cases i; cases e) auto

declare scan_object.simps(2) [simp del]

lemma scan_step_end: "fst (scan_step (d, i, e) c) = 0 \<Longrightarrow> 0 < d \<Longrightarrow> \<not> i \<and> c = CHR 0x7D \<and> d - 1 = 0"
  by (cases i; cases e) (auto split: if_splits)

lemma scan_step_not_end:
  "\<not> (\<not> i \<and> c = CHR 0x7D \<and> d - 1 = 0) \<Longrightarrow> 0 < d \<Longrightarrow> 0 < fst (scan_step (d, i, e) c)"
  using scan_step_end[of d i e c] by (cases "fst (scan_step (d, i, e) c)") auto

lemma scan_step_at_end:
  "0 < d \<Longrightarrow> \<not> i \<and> c = CHR 0x7D \<and> d - 1 = 0 \<Longrightarrow> fst (scan_step (d, i, e) c) = 0"
  by (cases e) auto

text \<open>\<open>m\<close> is the shortest non-empty prefix that brings the depth to 0.\<close>

definition closes :: "nat \<times> bool \<times> bool \<Rightarrow> string \<Rightarrow> bool" where
  "closes st m = (m \<noteq> [] \<and> fst (foldl scan_step st m) = 0
     \<and> (\<forall>n < length m. 0 < fst (foldl scan_step st (take n m))))"

lemma closes_Cons:
  "0 < d \<Longrightarrow> closes (d, i, e) (c # m) \<longleftrightarrow>
     (if \<not> i \<and> c = CHR 0x7D \<and> d - 1 = 0 then m = [] else closes (scan_step (d, i, e) c) m)"
proof -
  assume d: "0 < d"
  have all: "(\<forall>n < Suc k. Q n) \<longleftrightarrow> Q 0 \<and> (\<forall>n < k. Q (Suc n))" for k and Q :: "nat \<Rightarrow> bool"
    by (auto simp: less_Suc_eq_0_disj)
  show ?thesis
  proof (cases "\<not> i \<and> c = CHR 0x7D \<and> d - 1 = 0")
    case True
    then show ?thesis using scan_step_at_end[OF d True, of e] d
      by (cases m) (auto simp: closes_def all)
  next
    case False
    then show ?thesis using scan_step_not_end[OF False d, of e] d
      by (cases m) (auto simp: closes_def all)
  qed
qed

lemma scan_object_sound:
  "scan_object cs d i e acc = Some out \<Longrightarrow> 0 < d \<Longrightarrow>
     \<exists>m r. cs = m @ r \<and> out = rev acc @ m \<and> closes (d, i, e) m"
proof (induction cs arbitrary: d i e acc)
  case (Cons c cs)
  obtain d' i' e' where st: "scan_step (d, i, e) c = (d', i', e')" by (cases "scan_step (d, i, e) c")
  show ?case
  proof (cases "\<not> i \<and> c = CHR 0x7D \<and> d - 1 = 0")
    case True
    then show ?thesis using Cons.prems closes_Cons[OF Cons.prems(2), of i e c "[]"]
      by (intro exI[of _ "[c]"] exI[of _ cs]) (simp add: scan_object_step)
  next
    case False
    then have "scan_object cs d' i' e' (c # acc) = Some out" "0 < d'"
      using Cons.prems st scan_step_not_end[OF False, of e]
      by (simp_all only: scan_object_step if_not_P[OF False] if_False prod.case fst_conv simp_thms)
    from Cons.IH[OF this] obtain m r where m: "cs = m @ r" "out = rev (c # acc) @ m"
      "closes (d', i', e') m" by blast
    then have "closes (d, i, e) (c # m)"
      using closes_Cons[OF Cons.prems(2), of i e c m] st by (simp only: if_not_P[OF False])
    with m show ?thesis by (intro exI[of _ "c # m"] exI[of _ r]) simp
  qed
qed simp

lemma scan_object_complete:
  "closes (d, i, e) m \<Longrightarrow> 0 < d \<Longrightarrow> scan_object (m @ r) d i e acc = Some (rev acc @ m)"
proof (induction m arbitrary: d i e acc)
  case Nil
  then show ?case by (simp add: closes_def)
next
  case (Cons c m)
  obtain d' i' e' where st: "scan_step (d, i, e) c = (d', i', e')" by (cases "scan_step (d, i, e) c")
  show ?case
  proof (cases "\<not> i \<and> c = CHR 0x7D \<and> d - 1 = 0")
    case True
    then show ?thesis using Cons.prems closes_Cons[OF Cons.prems(2), of i e c m]
      by (simp add: scan_object_step)
  next
    case False
    then have "closes (d', i', e') m" "0 < d'"
      using Cons.prems closes_Cons[OF Cons.prems(2), of i e c m] st
        scan_step_not_end[OF False Cons.prems(2), of e]
      by (simp_all only: if_not_P[OF False] if_False fst_conv simp_thms)
    from Cons.IH[OF this, of "c # acc"] show ?thesis
      using st by (simp only: append_Cons scan_object_step if_not_P[OF False] prod.case) simp
  qed
qed

text \<open>
  The text handed to the JSON parser is exactly the first balanced object: whatever is around
  it, the extraction returns the part from the first opening brace to the first closing brace that
  brings the depth of braces outside strings back to 0; and from the first brace to there the depth
  is positive, so the machine integer that holds it never underflows.
\<close>
theorem extraction_is_first_balanced_object:
  "extract_json_object text = Some obj \<longleftrightarrow>
     (\<exists>before m r. text = before @ CHR 0x7B # m @ r \<and> CHR 0x7B \<notin> set before
        \<and> obj = CHR 0x7B # m \<and> closes (1, False, False) m)"
proof -
  have drop: "dropWhile (\<lambda>c. c \<noteq> CHR 0x7B) (before @ CHR 0x7B # t) = CHR 0x7B # t"
    if "CHR 0x7B \<notin> set before" for before t
    using that by (induction before) auto
  show ?thesis
  proof
    assume ex: "extract_json_object text = Some obj"
    let ?t = "dropWhile (\<lambda>c. c \<noteq> CHR 0x7B) text"
    from ex have "?t \<noteq> []" by (auto simp: extract_json_object_def Let_def split: if_splits)
    then obtain cs where t: "?t = CHR 0x7B # cs"
      using hd_dropWhile[of "\<lambda>c. c \<noteq> CHR 0x7B" "text"] by (cases ?t) auto
    then have "scan_object cs 1 False False [CHR 0x7B] = Some obj"
      using ex by (simp add: extract_json_object_def scan_object.simps(2))
    from scan_object_sound[OF this] obtain m r where "cs = m @ r" "obj = CHR 0x7B # m"
      "closes (1, False, False) m" by auto
    moreover have "text = takeWhile (\<lambda>c. c \<noteq> CHR 0x7B) text @ CHR 0x7B # cs"
      using takeWhile_dropWhile_id[of "\<lambda>c. c \<noteq> CHR 0x7B" "text"] t by simp
    moreover have "CHR 0x7B \<notin> set (takeWhile (\<lambda>c. c \<noteq> CHR 0x7B) text)"
      by (auto dest: set_takeWhileD)
    ultimately show "\<exists>before m r. text = before @ CHR 0x7B # m @ r \<and> CHR 0x7B \<notin> set before
        \<and> obj = CHR 0x7B # m \<and> closes (1, False, False) m" by metis
  next
    assume "\<exists>before m r. text = before @ CHR 0x7B # m @ r \<and> CHR 0x7B \<notin> set before
        \<and> obj = CHR 0x7B # m \<and> closes (1, False, False) m"
    then obtain before m r where *: "text = before @ CHR 0x7B # m @ r" "CHR 0x7B \<notin> set before"
      "obj = CHR 0x7B # m" "closes (1, False, False) m" by blast
    then show "extract_json_object text = Some obj"
      using scan_object_complete[OF *(4), of r "[CHR 0x7B]"]
      by (simp add: extract_json_object_def drop scan_object.simps(2))
  qed
qed

end
