(* ===== verification/FileRules.thy ===== *)
theory FileRules
  imports ToolPolicy
begin

text \<open>
  agent/src/policy/file_rule.rs and the handlers of agent/src/api/routes.rs that list and save the
  file-access rules: what a rule means, whether something can enforce it, when two rules are one,
  and what a save pushes to the kernel. The file system is an argument: the entries of /home, the
  metadata of paths, the resolution of links. \<open>dbg\<close> is the \<open>{:?}\<close> printer of strings.
\<close>

section \<open>The file system as the daemon sees it\<close>

record file_meta =
  fm_dir :: bool
  fm_file :: bool
  fm_dev :: "64 word"
  fm_ino :: "64 word"

text \<open>
  \<open>fw_home\<close> lists the readable entries of /home in directory order, each with whether it is a
  directory and its path; \<open>None\<close> when /home cannot be read. \<open>fw_stat\<close> follows links, \<open>fw_lstat\<close>
  does not. \<open>fw_env_home\<close> is the HOME of the daemon.
\<close>

record fs_world =
  fw_home :: "(bool \<times> string) list option"
  fw_stat :: "string \<Rightarrow> file_meta option"
  fw_lstat :: "string \<Rightarrow> file_meta option"
  fw_env_home :: "string option"
  fw_canonical :: "string \<Rightarrow> string option"

definition path_exists :: "fs_world \<Rightarrow> string \<Rightarrow> bool" where
  "path_exists W p = (fw_stat W p \<noteq> None)"

definition path_is_dir :: "fs_world \<Rightarrow> string \<Rightarrow> bool" where
  "path_is_dir W p = (case fw_stat W p of None \<Rightarrow> False | Some m \<Rightarrow> fm_dir m)"

definition home_dirs :: "fs_world \<Rightarrow> string list" where
  "home_dirs W = (case fw_home W of None \<Rightarrow> [] | Some es \<Rightarrow> map snd (filter fst es))"

definition root_home :: "fs_world \<Rightarrow> string" where
  "root_home W = (case fw_env_home W of Some h \<Rightarrow> h | None \<Rightarrow> ''/root'')"

text \<open>\<open>replacen('~', h, 1)\<close> on a path that begins with a tilde.\<close>

definition with_home :: "string \<Rightarrow> string \<Rightarrow> string" where
  "with_home path h = h @ tl path"

definition expand_tilde :: "fs_world \<Rightarrow> string \<Rightarrow> string" where
  "expand_tilde W path =
     (if \<not> starts_with path ''~'' then path
      else case List.find (path_exists W) (map (with_home path) (home_dirs W)) of
             Some c \<Rightarrow> c
           | None \<Rightarrow>
               if path_exists W (with_home path ''/root'') then with_home path ''/root''
               else (case home_dirs W of
                       h # _ \<Rightarrow> with_home path h
                     | [] \<Rightarrow> with_home path (root_home W)))"

text \<open>The copy in the API handlers.\<close>

definition expand_rule_tilde :: "fs_world \<Rightarrow> string \<Rightarrow> string" where
  "expand_rule_tilde W path =
     (if \<not> starts_with path ''~'' then path
      else case List.find (path_exists W) (map (with_home path) (home_dirs W)) of
             Some c \<Rightarrow> c
           | None \<Rightarrow> with_home path (root_home W))"

section \<open>Rules\<close>

datatype rule_kind = KFile | KDir

fun kind_str :: "rule_kind \<Rightarrow> string" where
  "kind_str KFile = ''file''"
| "kind_str KDir = ''dir''"

definition parse_kind :: "string \<Rightarrow> rule_kind option" where
  "parse_kind s = (if s = ''file'' then Some KFile else if s = ''dir'' then Some KDir else None)"

datatype rule_status = Enforced | Unresolved

fun status_str :: "rule_status \<Rightarrow> string" where
  "status_str Enforced = ''enforced''"
| "status_str Unresolved = ''unresolved''"

definition has_glob :: "string \<Rightarrow> bool" where
  "has_glob s = list_ex (\<lambda>c. c = CHR ''*'' \<or> c = CHR ''?'' \<or> c = CHR ''['') s"

definition strip_dir_glob :: "string \<Rightarrow> string" where
  "strip_dir_glob p = trim_end_char (CHR ''/'') (trim_end_matches ''/*'' p)"

definition dir_target :: "fs_world \<Rightarrow> string \<Rightarrow> string" where
  "dir_target W pattern = expand_tilde W (strip_dir_glob (trim pattern))"

definition is_concrete_path :: "fs_world \<Rightarrow> string \<Rightarrow> bool" where
  "is_concrete_path W pattern =
     (let e = expand_tilde W (trim pattern) in starts_with e ''/'' \<and> \<not> has_glob e)"

text \<open>The kind, and whether it was read from the old marker in the description.\<close>

definition infer_kind ::
  "fs_world \<Rightarrow> string \<Rightarrow> string option \<Rightarrow> string option \<Rightarrow> rule_kind \<times> bool" where
  "infer_kind W pattern explicit_kind description =
     (case Option.bind explicit_kind parse_kind of
        Some k \<Rightarrow> (k, False)
      | None \<Rightarrow>
          if (case description of None \<Rightarrow> False | Some d \<Rightarrow> contains d ''[dir-block]'') then (KDir, True)
          else let p = trim pattern
               in if ends_with p ''/*'' then (KDir, False)
                  else if p \<noteq> [] \<and> path_is_dir W (expand_tilde W p) then (KDir, False)
                  else (KFile, False))"

definition index_str :: "json \<Rightarrow> string \<Rightarrow> string option" where
  "index_str v k = Option.bind (json_get v k) as_str"

definition is_dir_rule :: "fs_world \<Rightarrow> json \<Rightarrow> bool" where
  "is_dir_rule W rule =
     (fst (infer_kind W (case index_str rule ''pattern'' of Some p \<Rightarrow> p | None \<Rightarrow> [])
             (index_str rule ''kind'') (index_str rule ''description'')) = KDir)"

definition identity :: "fs_world \<Rightarrow> string \<Rightarrow> rule_kind \<Rightarrow> string \<Rightarrow> string \<times> string \<times> string" where
  "identity W pattern kind action =
     (let resolved = (case kind of KDir \<Rightarrow> dir_target W pattern | KFile \<Rightarrow> expand_tilde W (trim pattern))
      in (case fw_canonical W resolved of Some p \<Rightarrow> p | None \<Rightarrow> resolved, kind_str kind, trim action))"

definition same_rule ::
  "fs_world \<Rightarrow> string \<Rightarrow> rule_kind \<Rightarrow> string \<Rightarrow> string \<Rightarrow> rule_kind \<Rightarrow> string \<Rightarrow> bool" where
  "same_rule W p k a p' k' a' = (identity W p k a = identity W p' k' a')"

section \<open>File names a pattern stands for\<close>

definition SSH_NAMES :: "string list" where
  "SSH_NAMES = [''id_rsa'', ''id_ed25519'', ''id_ecdsa'', ''id_dsa'', ''known_hosts'', ''authorized_keys'']"

definition ENV_NAMES :: "string list" where
  "ENV_NAMES = [''.env'', ''.env.local'', ''.env.production'', ''.env.development'', ''.env.staging'']"

definition expand_basenames :: "string \<Rightarrow> bool \<Rightarrow> string list" where
  "expand_basenames pattern generic =
     (let pat = trim pattern
      in if contains pat ''.ssh'' then SSH_NAMES
         else if contains pat ''.aws'' then [''credentials'']
         else if contains pat ''.kube'' then []
         else if pat = ''.git-credentials'' then [''.git-credentials'']
         else if starts_with pat ''.env'' \<or> ends_with pat ''.env'' then ENV_NAMES
         else if starts_with pat ''*.'' then []
         else if \<not> generic then []
         else let b = last_segment pat
              in if b \<noteq> [] \<and> b \<noteq> ''*'' \<and> b \<noteq> ''**'' then [b] else [])"

definition pattern_to_basenames :: "string \<Rightarrow> string list" where
  "pattern_to_basenames pattern = expand_basenames pattern True"

definition dir_rule_basenames :: "string \<Rightarrow> string list" where
  "dir_rule_basenames pattern = expand_basenames pattern False"

section \<open>Refusing a rule nothing can enforce\<close>

definition validate_rule :: "(string \<Rightarrow> string) \<Rightarrow> fs_world \<Rightarrow> string \<Rightarrow> rule_kind \<Rightarrow> string \<Rightarrow> string + unit" where
  "validate_rule dbg W pattern kind action =
     (let p = trim pattern
      in if p = [] then Inl ''a rule needs a pattern''
         else if action \<noteq> ''block'' \<and> action \<noteq> ''allow'' then
           Inl (''action must be block or allow, got '' @ dbg action)
         else if action = ''allow'' then Inr ()
         else case kind of
           KDir \<Rightarrow>
             (let t = dir_target W p
              in if t = [] \<or> t = ''/'' then
                   Inl (dbg p @ '' is not a directory this can block. Name the directory, for example ~/projects/*'')
                 else if has_glob t then
                   Inl (dbg p @ '' still has a glob in it after the trailing /*. A directory rule ''
                        @ ''names one directory, for example ~/projects/*'')
                 else Inr ())
         | KFile \<Rightarrow>
             if is_concrete_path W p then Inr ()
             else if pattern_to_basenames p \<noteq> [] then Inr ()
             else if starts_with p ''*.'' then
               Inl (dbg p @ '' cannot be enforced: the kernel matches whole file names, not ''
                    @ ''extensions. Name the file itself, or block the directory it lives in ''
                    @ ''with a trailing /*'')
             else
               Inl (dbg p @ '' cannot be enforced: it expands to no file name the kernel can ''
                    @ ''match. If you meant everything inside a directory, add a trailing /* ''
                    @ ''to make it a directory rule''))"

definition status :: "fs_world \<Rightarrow> string \<Rightarrow> rule_kind \<Rightarrow> string \<Rightarrow> rule_status" where
  "status W pattern kind action =
     (if action \<noteq> ''block'' then Enforced
      else case kind of
        KDir \<Rightarrow> if path_is_dir W (dir_target W pattern) then Enforced else Unresolved
      | KFile \<Rightarrow>
          if pattern_to_basenames pattern \<noteq> [] then Enforced
          else if is_concrete_path W pattern \<and> path_exists W (expand_tilde W (trim pattern)) then Enforced
          else Unresolved)"

definition unresolved_reason :: "fs_world \<Rightarrow> string \<Rightarrow> rule_kind \<Rightarrow> string" where
  "unresolved_reason W pattern kind =
     (case kind of
        KDir \<Rightarrow> ''no directory at '' @ dir_target W pattern @ '' yet, so the kernel holds nothing for this rule''
      | KFile \<Rightarrow> ''no file at '' @ expand_tilde W (trim pattern) @ '' yet, so the kernel holds nothing for this rule'')"

section \<open>Listing and saving\<close>

record file_access_rule =
  fr_id :: string
  fr_pattern :: string
  fr_action :: string
  fr_source :: string
  fr_kind :: "string option"
  fr_description :: "string option"

record rule_row =
  rr_rule :: file_access_rule
  rr_kind :: string
  rr_status :: string
  rr_reason :: "string option"
  rr_legacy :: bool

definition rule_kind_of :: "fs_world \<Rightarrow> file_access_rule \<Rightarrow> rule_kind \<times> bool" where
  "rule_kind_of W r = infer_kind W (fr_pattern r) (fr_kind r) (fr_description r)"

definition rule_row_of :: "fs_world \<Rightarrow> file_access_rule \<Rightarrow> rule_row" where
  "rule_row_of W r =
     (let (k, legacy) = rule_kind_of W r; st = status W (fr_pattern r) k (fr_action r)
      in \<lparr>rr_rule = r, rr_kind = kind_str k, rr_status = status_str st,
          rr_reason = (if st = Unresolved then Some (unresolved_reason W (fr_pattern r) k) else None),
          rr_legacy = legacy\<rparr>)"

text \<open>The rules file: missing or unreadable, not JSON of the right shape, or a list of rules.\<close>

definition get_file_access_rules ::
  "fs_world \<Rightarrow> (string \<Rightarrow> file_access_rule list option) \<Rightarrow> string option \<Rightarrow> rule_row list" where
  "get_file_access_rules W from_str data =
     map (rule_row_of W)
       (case Option.bind data from_str of Some rs \<Rightarrow> rs | None \<Rightarrow> [])"

text \<open>What a save may push: the closures behind \<open>ebpf_block_file\<close> and the two directory hooks.\<close>

datatype kernel_push = PushBlockFile string | PushAllowedDir string | PushBlockedDir string

datatype save_error =
    InvalidRules
  | RefusedBasename string string
  | CannotEnforce string string string
  | WriteFailed

text \<open>The first basename of a block rule that would brick the agents.\<close>

definition bricking :: "file_access_rule \<Rightarrow> (string \<times> string) option" where
  "bricking r =
     (if fr_action r = ''block''
      then find_map (\<lambda>n. map_option (\<lambda>why. (fr_pattern r, why)) (dangerous_path n))
             (pattern_to_basenames (fr_pattern r))
      else None)"

fun check_rules ::
  "(string \<Rightarrow> string) \<Rightarrow> fs_world \<Rightarrow> file_access_rule list \<Rightarrow> save_error + file_access_rule list" where
  "check_rules dbg W [] = Inr []"
| "check_rules dbg W (r # rs) =
     (let k = fst (rule_kind_of W r)
      in case validate_rule dbg W (fr_pattern r) k (fr_action r) of
           Inl reason \<Rightarrow> Inl (CannotEnforce reason (fr_pattern r) (kind_str k))
         | Inr _ \<Rightarrow>
             (case check_rules dbg W rs of
                Inl e \<Rightarrow> Inl e
              | Inr rs' \<Rightarrow> Inr (r\<lparr>fr_kind := Some (kind_str k)\<rparr> # rs')))"

definition rule_identity :: "fs_world \<Rightarrow> file_access_rule \<Rightarrow> string \<times> string \<times> string" where
  "rule_identity W r =
     (let k = (case parse_kind (case fr_kind r of Some s \<Rightarrow> s | None \<Rightarrow> ''file'') of
                 Some k \<Rightarrow> k | None \<Rightarrow> KFile)
      in identity W (fr_pattern r) k (fr_action r))"

definition take_note :: "file_access_rule \<Rightarrow> file_access_rule \<Rightarrow> file_access_rule" where
  "take_note r first =
     (if fr_description r \<noteq> None \<and> fr_description r \<noteq> fr_description first
      then first\<lparr>fr_description := fr_description r\<rparr> else first)"

fun merge_rule :: "fs_world \<Rightarrow> file_access_rule \<Rightarrow> file_access_rule list \<Rightarrow> file_access_rule list" where
  "merge_rule W r [] = [r]"
| "merge_rule W r (f # fs) =
     (if rule_identity W f = rule_identity W r then take_note r f # fs else f # merge_rule W r fs)"

definition dedup :: "fs_world \<Rightarrow> file_access_rule list \<Rightarrow> file_access_rule list" where
  "dedup W rs = foldl (\<lambda>acc r. merge_rule W r acc) [] rs"

definition file_pushes :: "fs_world \<Rightarrow> file_access_rule \<Rightarrow> kernel_push list" where
  "file_pushes W r =
     (let is_dir = (fst (rule_kind_of W r) = KDir)
      in if is_dir \<and> fr_action r = ''block'' then map PushBlockFile (dir_rule_basenames (fr_pattern r))
         else if fr_action r = ''block'' \<and> fr_pattern r \<noteq> [] then
           (let e = expand_rule_tilde W (trim (fr_pattern r))
            in if starts_with e ''/'' \<and> \<not> has_glob e then [PushBlockFile e]
               else map PushBlockFile (pattern_to_basenames (fr_pattern r)))
         else [])"

definition allowed_dir_pushes :: "fs_world \<Rightarrow> file_access_rule list \<Rightarrow> kernel_push list" where
  "allowed_dir_pushes W rs =
     (let ds = filter (\<lambda>r. fr_action r = ''allow'' \<and> fr_pattern r \<noteq> []) rs
      in if ds = [] then [PushAllowedDir []]
         else map (\<lambda>r. PushAllowedDir (expand_rule_tilde W (strip_dir_glob (fr_pattern r)))) ds)"

definition blocked_dir_pushes :: "fs_world \<Rightarrow> file_access_rule list \<Rightarrow> kernel_push list" where
  "blocked_dir_pushes W rs =
     (let ds = filter (\<lambda>r. fr_action r = ''block'' \<and> fr_kind r = Some ''dir'') rs
      in if ds = [] then [PushBlockedDir []]
         else map (\<lambda>r. PushBlockedDir (expand_rule_tilde W (strip_dir_glob (fr_pattern r)))) ds)"

text \<open>
  A save with the kernel connected: the error, or the stored rules and what is pushed.
  \<open>saved\<close> is the outcome of writing the file.
\<close>

definition update_file_access_rules ::
  "(string \<Rightarrow> string) \<Rightarrow> fs_world \<Rightarrow> (file_access_rule list \<Rightarrow> bool) \<Rightarrow> file_access_rule list option
   \<Rightarrow> save_error + (file_access_rule list \<times> kernel_push list)" where
  "update_file_access_rules dbg W saved body =
     (case body of
        None \<Rightarrow> Inl InvalidRules
      | Some rules \<Rightarrow>
          (case find_map bricking rules of
             Some (pat, why) \<Rightarrow> Inl (RefusedBasename pat why)
           | None \<Rightarrow>
               (case check_rules dbg W rules of
                  Inl e \<Rightarrow> Inl e
                | Inr checked \<Rightarrow>
                    let rs = dedup W checked
                    in if \<not> saved rs then Inl WriteFailed
                       else Inr (rs, concat (map (file_pushes W) rs) @ allowed_dir_pushes W rs
                                     @ blocked_dir_pushes W rs))))"

section \<open>One row per target\<close>

named_theorems rule_simps \<open>what saving leaves of a rule\<close>

lemma take_note_fields [rule_simps]:
  "fr_pattern (take_note r f) = fr_pattern f" "fr_action (take_note r f) = fr_action f"
  "fr_kind (take_note r f) = fr_kind f" "fr_id (take_note r f) = fr_id f"
  by (simp_all add: take_note_def)

lemma identity_take_note [rule_simps]: "rule_identity W (take_note r f) = rule_identity W f"
  by (simp add: rule_identity_def rule_simps)

lemma merge_rule_identities:
  "map (rule_identity W) (merge_rule W r fs) =
     (if rule_identity W r \<in> set (map (rule_identity W) fs) then map (rule_identity W) fs
      else map (rule_identity W) fs @ [rule_identity W r])"
  by (induction fs) (auto simp: rule_simps)

text \<open>What a save keeps of a rule: all but the description.\<close>

definition same_effect :: "file_access_rule \<Rightarrow> file_access_rule \<Rightarrow> bool" where
  "same_effect r s =
     (fr_id s = fr_id r \<and> fr_pattern s = fr_pattern r \<and> fr_action s = fr_action r \<and> fr_kind s = fr_kind r)"

lemma merge_rule_source:
  "s \<in> set (merge_rule W r fs) \<Longrightarrow> same_effect r s \<or> (\<exists>f \<in> set fs. same_effect f s)"
  by (induction fs) (auto simp: same_effect_def rule_simps split: if_splits)

lemma same_effect_trans: "same_effect a b \<Longrightarrow> same_effect b c \<Longrightarrow> same_effect a c"
  by (simp add: same_effect_def)

lemma dedup_snoc: "dedup W (rs @ [r]) = merge_rule W r (dedup W rs)"
  by (simp add: dedup_def)

lemma dedup_identities:
  "distinct (map (rule_identity W) (dedup W rs))
   \<and> set (map (rule_identity W) (dedup W rs)) = set (map (rule_identity W) rs)"
proof (induction rs rule: rev_induct)
  case (snoc r rs)
  then show ?case by (simp add: dedup_snoc merge_rule_identities del: set_map) (auto simp: insert_absorb)
qed (simp add: dedup_def)

lemma dedup_source: "s \<in> set (dedup W rs) \<Longrightarrow> \<exists>r \<in> set rs. same_effect r s"
proof (induction rs arbitrary: s rule: rev_induct)
  case (snoc r rs)
  from merge_rule_source[OF snoc.prems[unfolded dedup_snoc]] show ?case
    using snoc.IH same_effect_trans by fastforce
qed (simp add: dedup_def)

lemma check_rules_Inr:
  "check_rules dbg W rs = Inr rs' \<Longrightarrow>
     rs' = map (\<lambda>r. r\<lparr>fr_kind := Some (kind_str (fst (rule_kind_of W r)))\<rparr>) rs
     \<and> (\<forall>r \<in> set rs. validate_rule dbg W (fr_pattern r) (fst (rule_kind_of W r)) (fr_action r) = Inr ())"
  by (induction rs arbitrary: rs') (auto simp: Let_def split: sum.splits)

definition with_kind :: "fs_world \<Rightarrow> file_access_rule \<Rightarrow> file_access_rule" where
  "with_kind W r = r\<lparr>fr_kind := Some (kind_str (fst (rule_kind_of W r)))\<rparr>"

lemma update_Inr:
  assumes "update_file_access_rules dbg W saved (Some rules) = Inr (rs, ps)"
  shows "find_map bricking rules = None" "rs = dedup W (map (with_kind W) rules)"
    "\<forall>r \<in> set rules. validate_rule dbg W (fr_pattern r) (fst (rule_kind_of W r)) (fr_action r) = Inr ()"
    "ps = concat (map (file_pushes W) rs) @ allowed_dir_pushes W rs @ blocked_dir_pushes W rs"
  using assms check_rules_Inr[of dbg W rules]
  by (auto simp: update_file_access_rules_def Let_def with_kind_def[abs_def] split: option.splits sum.splits if_splits)

lemma parse_kind_str [simp]: "parse_kind (kind_str k) = Some k"
  by (cases k) (simp_all add: parse_kind_def)

lemma rule_kind_of_stored: "fr_kind r = Some (kind_str k) \<Longrightarrow> rule_kind_of W r = (k, False)"
  by (simp add: rule_kind_of_def infer_kind_def)

lemmas rule_kind_of_file [simp] = rule_kind_of_stored[where k = KFile, unfolded kind_str.simps]
lemmas rule_kind_of_dir [simp] = rule_kind_of_stored[where k = KDir, unfolded kind_str.simps]

lemma kind_str_dir [simp]: "kind_str k = ''dir'' \<longleftrightarrow> k = KDir"
  by (cases k) simp_all

lemma stored_rule:
  assumes "update_file_access_rules dbg W saved (Some rules) = Inr (rs, ps)" "s \<in> set rs"
  obtains r k where "r \<in> set rules" "k = fst (rule_kind_of W r)" "fr_kind s = Some (kind_str k)"
    "fr_pattern s = fr_pattern r" "fr_action s = fr_action r"
    "validate_rule dbg W (fr_pattern s) k (fr_action s) = Inr ()"
proof -
  note u = update_Inr[OF assms(1)]
  from assms(2) dedup_source obtain r where "r \<in> set rules" "same_effect (with_kind W r) s"
    unfolding u(2) by fastforce
  then show thesis using u(3) that by (auto simp: same_effect_def with_kind_def)
qed

text \<open>
  C32. A save stores no two rows that do the same thing and loses none: the stored rules have
  pairwise different identities, every submitted rule has the identity of exactly one of them, and
  each stored rule is a submitted one up to its description, with its kind written down.
\<close>
theorem save_keeps_one_row_per_target:
  assumes "update_file_access_rules dbg W saved (Some rules) = Inr (rs, ps)"
  shows "distinct (map (rule_identity W) rs)
    \<and> set (map (rule_identity W) rs) = set (map (rule_identity W \<circ> with_kind W) rules)
    \<and> list_all (\<lambda>s. list_ex (\<lambda>r. same_effect (with_kind W r) s) rules) rs"
  using dedup_identities[of W "map (with_kind W) rules"] dedup_source[of _ W "map (with_kind W) rules"]
  unfolding update_Inr(2)[OF assms] by (fastforce simp: list_all_iff list_ex_iff)

section \<open>Every stored rule has a mechanism\<close>

lemma blocked_dir_pushed:
  assumes "s \<in> set rs" "fr_action s = ''block''" "fr_kind s = Some ''dir''"
  shows "PushBlockedDir (expand_rule_tilde W (strip_dir_glob (fr_pattern s))) \<in> set (blocked_dir_pushes W rs)"
proof -
  have "s \<in> set (filter (\<lambda>r. fr_action r = ''block'' \<and> fr_kind r = Some ''dir'') rs)"
    using assms by simp
  moreover from this have "filter (\<lambda>r. fr_action r = ''block'' \<and> fr_kind r = Some ''dir'') rs \<noteq> []"
    by (metis empty_iff empty_set)
  ultimately show ?thesis
    unfolding blocked_dir_pushes_def Let_def by (simp del: set_filter filter.simps)
qed

lemma expand_rule_cases:
  "expand_rule_tilde W p = expand_tilde W p \<or> expand_rule_tilde W p = with_home p (root_home W)"
  by (auto simp: expand_rule_tilde_def expand_tilde_def split: option.splits list.splits)

lemma has_glob_append [simp]: "has_glob (a @ b) \<longleftrightarrow> has_glob a \<or> has_glob b"
  by (auto simp: has_glob_def)

lemma expand_tilde_tail: "starts_with p ''~'' \<Longrightarrow> \<exists>h. expand_tilde W p = h @ tl p"
  by (auto simp: expand_tilde_def with_home_def dest!: find_SomeD split: option.splits list.splits)

lemma concrete_for_both:
  assumes "is_concrete_path W p" "starts_with (root_home W) ''/''" "\<not> has_glob (root_home W)"
  shows "starts_with (expand_rule_tilde W (trim p)) ''/'' \<and> \<not> has_glob (expand_rule_tilde W (trim p))"
proof (cases "starts_with (trim p) ''~''")
  case True
  then obtain h where h: "expand_tilde W (trim p) = h @ tl (trim p)" using expand_tilde_tail by blast
  then have "\<not> has_glob (tl (trim p))" using assms(1) by (auto simp: is_concrete_path_def Let_def)
  then have "starts_with (with_home (trim p) (root_home W)) ''/'' \<and> \<not> has_glob (with_home (trim p) (root_home W))"
    using assms(2,3) unfolding with_home_def by (simp only: has_glob_append) (auto simp: starts_with_iff)
  then show ?thesis using expand_rule_cases[of W "trim p"] assms(1)
    by (auto simp: is_concrete_path_def Let_def)
next
  case False
  then show ?thesis using assms(1)
    by (simp add: is_concrete_path_def Let_def expand_tilde_def expand_rule_tilde_def)
qed

lemma pattern_to_basenames_trim [simp]: "pattern_to_basenames (trim p) = pattern_to_basenames p"
  by (simp add: pattern_to_basenames_def expand_basenames_def)

lemma is_concrete_path_trim [simp]: "is_concrete_path W (trim p) = is_concrete_path W p"
  by (simp add: is_concrete_path_def)

lemma validate_file:
  "validate_rule dbg W p KFile ''block'' = Inr () \<Longrightarrow> trim p \<noteq> [] \<and> (is_concrete_path W p \<or> pattern_to_basenames p \<noteq> [])"
  by (auto simp: validate_rule_def Let_def split: if_splits)

text \<open>
  Nothing is stored without something pushed for it (when the daemon's own home is an absolute
  path without glob characters): a save that succeeds pushes, for each stored block rule, its
  directory or at least one file name.
\<close>
theorem stored_rule_is_pushed:
  assumes "update_file_access_rules dbg W saved (Some rules) = Inr (rs, ps)"
    and "starts_with (root_home W) ''/''" "\<not> has_glob (root_home W)"
    and "s \<in> set rs" "fr_action s = ''block''"
  shows "fr_kind s = Some ''dir''
      \<and> PushBlockedDir (expand_rule_tilde W (strip_dir_glob (fr_pattern s))) \<in> set ps
    \<or> fr_kind s = Some ''file'' \<and> (\<exists>n. PushBlockFile n \<in> set (file_pushes W s) \<inter> set ps)"
proof -
  obtain k where k: "fr_kind s = Some (kind_str k)" "validate_rule dbg W (fr_pattern s) k ''block'' = Inr ()"
    using stored_rule[OF assms(1,4)] assms(5) by metis
  note ps = update_Inr(4)[OF assms(1)]
  show ?thesis
  proof (cases k)
    case KDir
    then have "PushBlockedDir (expand_rule_tilde W (strip_dir_glob (fr_pattern s)))
        \<in> set (blocked_dir_pushes W rs)"
      using k assms(4,5) by (intro blocked_dir_pushed) simp_all
    then show ?thesis using k KDir ps by simp
  next
    case KFile
    note f = validate_file[OF k(2)[unfolded KFile]]
    have ne: "fr_pattern s \<noteq> []" using f by auto
    have rk: "fr_kind s = Some ''file''" using k(1) KFile by simp
    have "\<exists>n. PushBlockFile n \<in> set (file_pushes W s)"
    proof (cases "is_concrete_path W (fr_pattern s)")
      case True
      then show ?thesis using concrete_for_both[OF True assms(2,3)] rk ne assms(5)
        by (simp add: file_pushes_def Let_def)
    next
      case False
      then obtain n ns where "pattern_to_basenames (fr_pattern s) = n # ns"
        using f by (cases "pattern_to_basenames (fr_pattern s)") auto
      then show ?thesis using rk ne assms(5) by (auto simp: file_pushes_def Let_def)
    qed
    then show ?thesis using k KFile ps assms(4) by auto
  qed
qed

lemma enforced_directory:
  assumes "status W p KDir ''block'' = Enforced" "trim p = p" "root_home W = ''/root''"
  shows "expand_rule_tilde W (strip_dir_glob p) = dir_target W p \<and> path_is_dir W (dir_target W p)"
proof -
  have d: "path_is_dir W (dir_target W p)" using assms(1) by (auto simp: status_def split: if_splits)
  let ?q = "strip_dir_glob p"
  have ex: "path_exists W (expand_tilde W ?q)"
    using d assms(2) by (auto simp: path_is_dir_def path_exists_def dir_target_def split: option.splits)
  have "expand_rule_tilde W ?q = expand_tilde W ?q"
  proof (cases "List.find (path_exists W) (map (with_home ?q) (home_dirs W))")
    case None
    then have no: "\<not> path_exists W (with_home ?q h)" if "h \<in> set (home_dirs W)" for h
      using that by (simp add: find_NoneD)
    then have "expand_tilde W ?q = with_home ?q ''/root''" if "starts_with ?q ''~''"
      using that ex None assms(3) by (cases "home_dirs W") (auto simp: expand_tilde_def split: if_splits)
    then show ?thesis using None assms(3) by (auto simp: expand_rule_tilde_def expand_tilde_def)
  qed (simp add: expand_rule_tilde_def expand_tilde_def)
  then show ?thesis using d assms(2) by (simp add: dir_target_def)
qed

text \<open>
  What is reported as enforced is what is pushed, for a directory rule written without white
  space around it and a daemon whose home is /root: the directory handed to the kernel is the
  directory the status was computed for.
\<close>
theorem enforced_directory_is_the_pushed_one:
  assumes "status W p KDir ''block'' = Enforced" "trim p = p" "root_home W = ''/root''"
  shows "expand_rule_tilde W (strip_dir_glob p) = dir_target W p \<and> path_is_dir W (dir_target W p)"
  using assms by (rule enforced_directory)

section \<open>Rules that are stored and pushed as something else\<close>

lemma strip_seqs_keep: "c \<notin> set w \<Longrightarrow> \<exists>t. strip_seqs [w] (s @ [c]) = t @ [c]"
proof (induction "[w]" s rule: strip_seqs.induct)
  case (1 s)
  show ?case
  proof (cases "w \<noteq> [] \<and> starts_with (s @ [c]) w")
    case True
    then obtain t where t: "s @ [c] = w @ t" by (auto simp: starts_with_iff)
    moreover from this "1.prems" have "t \<noteq> []"
      by (metis append_Nil2 in_set_conv_decomp)
    ultimately obtain t' where t': "t = t' @ [c]" "s = w @ t'"
      by (metis append.assoc butlast_append last_appendR last_snoc append_butlast_last_id butlast_snoc)
    then have "List.find (\<lambda>v. v \<noteq> [] \<and> starts_with s v) [w] = Some w" using True by simp
    from "1.hyps"[OF this "1.prems"] t' have "\<exists>u. strip_seqs [w] (t' @ [c]) = u @ [c]" by simp
    moreover have "strip_seqs [w] (s @ [c]) = strip_seqs [w] (t' @ [c])"
      using True t' by (subst strip_seqs.simps) simp
    ultimately show ?thesis by simp
  next
    case False
    then show ?thesis by (subst strip_seqs.simps) auto
  qed
qed

lemma strip_dir_glob_space: "\<exists>q. strip_dir_glob (CHR 0x20 # p) = CHR 0x20 # q"
proof -
  obtain t where "strip_seqs [rev ''/*''] (rev p @ [CHR 0x20]) = t @ [CHR 0x20]"
    using strip_seqs_keep[of "CHR 0x20" "rev ''/*''" "rev p"] by auto
  then have "trim_end_matches ''/*'' (CHR 0x20 # p) = CHR 0x20 # rev t"
    by (simp add: trim_end_matches_def)
  then show ?thesis by (simp add: strip_dir_glob_def trim_end_char_def dropWhile_append3)
qed

lemma trim_space: "trim (CHR 0x20 # p) = trim p"
proof -
  have "strip_seqs ws_seqs (CHR 0x20 # p) = strip_seqs ws_seqs p"
    by (subst strip_seqs.simps) (simp add: ws_seqs_def)
  then show ?thesis by (simp add: trim_def trim_start_def)
qed

text \<open>
  White space around a pattern disarms a directory rule at the moment it is saved: the kind, the
  check, the identity and the reported status all look at the trimmed pattern, and the kernel is
  handed the untrimmed one, a relative path that begins with the space.
\<close>
theorem untrimmed_directory_is_pushed_as_written:
  assumes "update_file_access_rules dbg W saved (Some rules) = Inr (rs, ps)"
    and "s \<in> set rs" "fr_action s = ''block''" "fr_kind s = Some ''dir''" "fr_pattern s = CHR 0x20 # p"
  shows "\<exists>q. expand_rule_tilde W (strip_dir_glob (fr_pattern s)) = CHR 0x20 # q
     \<and> PushBlockedDir (CHR 0x20 # q) \<in> set ps
     \<and> status W (fr_pattern s) KDir ''block'' = status W p KDir ''block''
     \<and> identity W (fr_pattern s) KDir ''block'' = identity W p KDir ''block''"
proof -
  obtain q where q: "strip_dir_glob (fr_pattern s) = CHR 0x20 # q"
    using strip_dir_glob_space assms(5) by metis
  then have e: "expand_rule_tilde W (strip_dir_glob (fr_pattern s)) = CHR 0x20 # q"
    by (simp add: expand_rule_tilde_def)
  have "PushBlockedDir (CHR 0x20 # q) \<in> set (blocked_dir_pushes W rs)"
    using blocked_dir_pushed[OF assms(2,3,4), of W] e by simp
  then show ?thesis using e update_Inr(4)[OF assms(1)] assms(5)
    by (auto simp: status_def identity_def dir_target_def trim_space Let_def)
qed

definition plain_name :: "string \<Rightarrow> bool" where
  "plain_name p =
     (p \<noteq> [] \<and> trim p = p \<and> CHR ''/'' \<notin> set p \<and> \<not> starts_with p ''~'' \<and> \<not> contains p ''.ssh''
      \<and> \<not> contains p ''.aws'' \<and> \<not> contains p ''.kube'' \<and> p \<noteq> ''*'' \<and> p \<noteq> ''**''
      \<and> p \<noteq> ''.git-credentials'' \<and> \<not> starts_with p ''*.'')"

lemma plain_not_concrete:
  "plain_name p \<Longrightarrow> \<not> starts_with (expand_rule_tilde W p) ''/'' \<and> \<not> is_concrete_path W p"
  by (cases p) (auto simp: plain_name_def expand_rule_tilde_def expand_tilde_def is_concrete_path_def)

text \<open>
  What a file rule for a bare name blocks: a name that begins or ends with .env stands for the
  five .env names and for nothing else, so a rule for \<open>prod.env\<close> or \<open>.envrc\<close> is accepted, reported
  as enforced, and never blocks that file; every other name, glob characters included, is pushed as
  it is written.
\<close>
theorem bare_name_is_pushed_as:
  assumes "plain_name (fr_pattern r)" "fr_action r = ''block''" "fr_kind r = Some ''file''"
  shows "file_pushes W r =
       map PushBlockFile (if starts_with (fr_pattern r) ''.env'' \<or> ends_with (fr_pattern r) ''.env''
                          then ENV_NAMES else [fr_pattern r])
     \<and> validate_rule dbg W (fr_pattern r) KFile ''block'' = Inr ()
     \<and> status W (fr_pattern r) KFile ''block'' = Enforced"
proof -
  have b: "pattern_to_basenames (fr_pattern r) =
      (if starts_with (fr_pattern r) ''.env'' \<or> ends_with (fr_pattern r) ''.env'' then ENV_NAMES else [fr_pattern r])"
    using assms(1) by (auto simp: plain_name_def pattern_to_basenames_def expand_basenames_def last_segment_plain)
  moreover have "ENV_NAMES \<noteq> []" by (simp add: ENV_NAMES_def)
  ultimately show ?thesis using plain_not_concrete[OF assms(1)] assms
    by (auto simp: file_pushes_def Let_def validate_rule_def status_def plain_name_def)
qed

section \<open>Witnesses\<close>

text \<open>A machine with one home, a directory in it, and nothing else.\<close>

definition W_dev :: fs_world where
  "W_dev = \<lparr>fw_home = Some [(True, ''/home/dev'')],
     fw_stat = (\<lambda>p. if p \<in> {''/home/dev'', ''/home/dev/projects''}
                    then Some \<lparr>fm_dir = True, fm_file = False, fm_dev = 1, fm_ino = 7\<rparr> else None),
     fw_lstat = (\<lambda>p. None), fw_env_home = None, fw_canonical = (\<lambda>p. None)\<rparr>"

definition rule_of :: "string \<Rightarrow> string \<Rightarrow> file_access_rule" where
  "rule_of pat desc = \<lparr>fr_id = ''1'', fr_pattern = pat, fr_action = ''block'', fr_source = ''custom'',
     fr_kind = None, fr_description = Some desc\<rparr>"

lemma W_dev_home: "root_home W_dev = ''/root''"
  by code_simp

abbreviation save_dev :: "file_access_rule list \<Rightarrow> save_error + (file_access_rule list \<times> kernel_push list)" where
  "save_dev rs \<equiv> update_file_access_rules id W_dev (\<lambda>_. True) (Some rs)"

definition two_spellings :: "file_access_rule list" where
  "two_spellings = [rule_of ''~/projects/*'' ''a'', rule_of ''/home/dev/projects'' ''b'']"

definition stored_row :: file_access_rule where
  "stored_row = (rule_of ''~/projects/*'' ''b'')\<lparr>fr_kind := Some ''dir''\<rparr>"

lemma save_dev_dir:
  "save_dev two_spellings = Inr ([stored_row], [PushAllowedDir [], PushBlockedDir ''/home/dev/projects''])"
  by code_simp

theorem save_keeps_one_row_per_target_witness:
  "\<exists>rs ps. save_dev two_spellings = Inr (rs, ps) \<and> distinct (map (rule_identity W_dev) rs) \<and> length rs = 1"
  using save_keeps_one_row_per_target[OF save_dev_dir] save_dev_dir by auto

theorem stored_rule_is_pushed_witness:
  "PushBlockedDir (expand_rule_tilde W_dev (strip_dir_glob ''~/projects/*''))
     \<in> set [PushAllowedDir [], PushBlockedDir ''/home/dev/projects'']"
proof -
  have k: "fr_kind stored_row = Some ''dir''" "fr_action stored_row = ''block''"
    "fr_pattern stored_row = ''~/projects/*''"
    by (simp_all add: stored_row_def rule_of_def)
  have "\<not> has_glob (root_home W_dev)" "starts_with (root_home W_dev) ''/''"
    by (simp_all add: W_dev_home has_glob_def)
  with stored_rule_is_pushed[OF save_dev_dir, of stored_row] k show ?thesis by simp
qed

theorem enforced_directory_is_the_pushed_one_witness:
  "expand_rule_tilde W_dev (strip_dir_glob ''~/projects/*'') = ''/home/dev/projects''"
proof -
  have "status W_dev ''~/projects/*'' KDir ''block'' = Enforced" "trim ''~/projects/*'' = ''~/projects/*''"
    "dir_target W_dev ''~/projects/*'' = ''/home/dev/projects''"
    by code_simp+
  with enforced_directory_is_the_pushed_one[of W_dev "''~/projects/*''"] W_dev_home show ?thesis by simp
qed

definition spaced_row :: file_access_rule where
  "spaced_row = (rule_of '' /home/dev/projects'' [])\<lparr>fr_kind := Some ''dir''\<rparr>"

lemma save_dev_spaced:
  "save_dev [rule_of '' /home/dev/projects'' []]
     = Inr ([spaced_row], [PushAllowedDir [], PushBlockedDir '' /home/dev/projects''])"
  by code_simp

theorem untrimmed_directory_is_pushed_as_written_witness:
  "status W_dev '' /home/dev/projects'' KDir ''block'' = Enforced
   \<and> (\<exists>q. PushBlockedDir (CHR 0x20 # q) \<in> set [PushAllowedDir [], PushBlockedDir '' /home/dev/projects''])"
proof -
  have "status W_dev '' /home/dev/projects'' KDir ''block'' = Enforced" by code_simp
  moreover have "fr_kind spaced_row = Some ''dir''" "fr_action spaced_row = ''block''"
    "fr_pattern spaced_row = CHR 0x20 # ''/home/dev/projects''"
    by (simp_all add: spaced_row_def rule_of_def)
  ultimately show ?thesis
    using untrimmed_directory_is_pushed_as_written[OF save_dev_spaced, of spaced_row "''/home/dev/projects''"]
    by auto
qed

theorem bare_name_is_pushed_as_witness:
  "status W_dev ''prod.env'' KFile ''block'' = Enforced
   \<and> PushBlockFile ''prod.env''
      \<notin> set (file_pushes W_dev ((rule_of ''prod.env'' [])\<lparr>fr_kind := Some ''file''\<rparr>))"
proof -
  let ?r = "(rule_of ''prod.env'' [])\<lparr>fr_kind := Some ''file''\<rparr>"
  have f: "fr_pattern ?r = ''prod.env''" "fr_action ?r = ''block''" "fr_kind ?r = Some ''file''"
    by (simp_all add: rule_of_def)
  have "plain_name ''prod.env''" "ends_with ''prod.env'' ''.env''" "''prod.env'' \<notin> set ENV_NAMES"
    by code_simp+
  then show ?thesis using bare_name_is_pushed_as[of ?r W_dev id] f by auto
qed

end
