(* ===== verification/KernelMaps.thy ===== *)
theory KernelMaps
  imports FileRules Caller
begin

text \<open>
  agent/src/ebpf_loader.rs: the maps the kernel programs read and every command that changes them,
  the seeding at start-up, and the parts of GPL/bpf/ringzero.bpf.c that look the maps up for a file
  open and a connection. A map holds its entries, its capacity and the key a full map gives up for a
  new one (a plain hash gives up none and refuses the new entry). Calls to libc, the metadata of
  paths and the clock are arguments.
\<close>

section \<open>Maps\<close>

record ('k, 'v) bpf_map =
  bm_present :: bool
  bm_max :: nat
  bm_evict :: "('k \<times> 'v) list \<Rightarrow> 'k option"
  bm_entries :: "('k \<times> 'v) list"

definition bm_get :: "('k, 'v) bpf_map \<Rightarrow> 'k \<Rightarrow> 'v option" where
  "bm_get m k = map_of (bm_entries m) k"

definition bm_has :: "('k, 'v) bpf_map \<Rightarrow> 'k \<Rightarrow> bool" where
  "bm_has m k = (bm_get m k \<noteq> None)"

definition bm_insert :: "'k \<Rightarrow> 'v \<Rightarrow> ('k, 'v) bpf_map \<Rightarrow> ('k, 'v) bpf_map" where
  "bm_insert k v m =
     (if \<not> bm_present m then m
      else if bm_has m k \<or> length (bm_entries m) < bm_max m
      then m\<lparr>bm_entries := AList.update k v (bm_entries m)\<rparr>
      else case bm_evict m (bm_entries m) of
             None \<Rightarrow> m
           | Some k' \<Rightarrow> m\<lparr>bm_entries := AList.update k v (AList.delete k' (bm_entries m))\<rparr>)"

definition bm_remove :: "'k \<Rightarrow> ('k, 'v) bpf_map \<Rightarrow> ('k, 'v) bpf_map" where
  "bm_remove k m = (if bm_present m then m\<lparr>bm_entries := AList.delete k (bm_entries m)\<rparr> else m)"

section \<open>Keys and values\<close>

definition MAX_PATH_LEN :: nat where
  "MAX_PATH_LEN = 128"

definition MAX_COMM_LEN :: nat where
  "MAX_COMM_LEN = 16"

text \<open>The bytes of a name in a fixed array, cut to leave a NUL at the end.\<close>

definition padded :: "nat \<Rightarrow> string \<Rightarrow> string" where
  "padded n s = take (n - 1) s @ replicate (n - min (length s) (n - 1)) (CHR 0x00)"

definition blocked_file_key :: "string \<Rightarrow> string" where
  "blocked_file_key name = last_segment (trim_end_char (CHR ''/'') name)"

definition make_file_key :: "string \<Rightarrow> string" where
  "make_file_key name = padded MAX_PATH_LEN (blocked_file_key name)"

definition comm_key :: "string \<Rightarrow> string" where
  "comm_key name = padded MAX_COMM_LEN name"

record ino_key =
  ik_ino :: "64 word"
  ik_dev :: "32 word"

definition sentinel :: ino_key where
  "sentinel = \<lparr>ik_ino = 0, ik_dev = 0\<rparr>"

text \<open>
  The surroundings of the loader: whether the host is little-endian, the file system, libc's
  \<open>major\<close> and \<open>minor\<close>, the time in seconds, and whether the daemon's mode is "enforce".
\<close>

record loader_env =
  lv_le :: bool
  lv_fs :: fs_world
  lv_major :: "64 word \<Rightarrow> 32 word"
  lv_minor :: "64 word \<Rightarrow> 32 word"
  lv_now :: "32 word"
  lv_enforcing :: bool

definition kernel_ino_key :: "loader_env \<Rightarrow> 64 word \<Rightarrow> 64 word \<Rightarrow> ino_key" where
  "kernel_ino_key E dev ino =
     \<lparr>ik_ino = ino, ik_dev = or (push_bit 20 (lv_major E dev)) (and (lv_minor E dev) 0xFFFFF)\<rparr>"

definition resolve_inode_key :: "loader_env \<Rightarrow> string \<Rightarrow> ino_key option" where
  "resolve_inode_key E p =
     (case fw_lstat (lv_fs E) p of
        None \<Rightarrow> None
      | Some md \<Rightarrow> if fm_file md then Some (kernel_ino_key E (fm_dev md) (fm_ino md)) else None)"

definition resolve_dir_inode_key :: "loader_env \<Rightarrow> string \<Rightarrow> ino_key option" where
  "resolve_dir_inode_key E p =
     (case fw_stat (lv_fs E) p of
        None \<Rightarrow> None
      | Some md \<Rightarrow> if fm_dir md then Some (kernel_ino_key E (fm_dev md) (fm_ino md)) else None)"

text \<open>
  \<open>parse_ip\<close> reads the octets as a big-endian number; \<open>from_ne_bytes\<close> reads them in the order of the
  host, which is how the kernel loads the address of a socket.
\<close>

definition parse_ip_key :: "string \<Rightarrow> 32 word option" where
  "parse_ip_key s = (case parse_ip s of Some (V4 w) \<Rightarrow> Some w | _ \<Rightarrow> None)"

definition ne_key :: "loader_env \<Rightarrow> ipv4 \<Rightarrow> 32 word" where
  "ne_key E w = (if lv_le E then swap_bytes w else w)"

definition to_ipv4_mapped :: "ipv6 \<Rightarrow> ipv4 option" where
  "to_ipv4_mapped w =
     (if take 6 (segments w) = [0, 0, 0, 0, 0, 65535] then Some (word_of_nat (unat w mod 4294967296)) else None)"

record taint_info =
  ti_tainted :: bool
  ti_has_keys :: bool
  ti_time :: "32 word"

record write_verdict =
  wv_enforce :: bool
  wv_review :: bool
  wv_severity :: nat

record kernel_config =
  kc_enforce_blocks :: bool
  kc_dlp_enabled :: bool
  kc_quarantine_enforce :: bool
  kc_egress_enforce :: bool
  kc_taint_on_egress :: bool
  kc_tamper_protect :: bool

record profile_policy =
  pp_programs_enforce :: bool
  pp_allow_spawn :: bool
  pp_network_enforce :: bool

record controls_section =
  cs_admin_tools :: bool
  cs_escape_tools :: bool
  cs_instruction_files :: bool
  cs_package_installs :: bool

text \<open>
  Everything the loader writes. \<open>None\<close> is an array map that is missing; \<open>k_guard_on\<close> is the daemon's
  own switch for the interpreter check.
\<close>

record kernel =
  k_blocked_files :: "(string, nat) bpf_map"
  k_blocked_inodes :: "(ino_key, nat) bpf_map"
  k_blocked_dirs :: "(ino_key, nat) bpf_map"
  k_allowed_dirs :: "(ino_key, nat) bpf_map"
  k_blocked_ips :: "(32 word, nat) bpf_map"
  k_key_ips :: "(32 word, nat) bpf_map"
  k_egress_ips :: "(32 word, nat) bpf_map"
  k_blocked_sends :: "(32 word \<times> 32 word, nat) bpf_map"
  k_descendants :: "(32 word, nat) bpf_map"
  k_contained :: "(32 word, nat) bpf_map"
  k_contained_exec :: "(string, nat) bpf_map"
  k_verdicts :: "(ino_key, write_verdict) bpf_map"
  k_taint :: "(32 word, taint_info) bpf_map"
  k_denied_programs :: "(string, nat) bpf_map"
  k_readonly_names :: "(string, nat) bpf_map"
  k_mcp4 :: "(32 word, nat) bpf_map"
  k_mcp6 :: "(ipv6, nat) bpf_map"
  k_programs :: "(nat \<times> string, nat) bpf_map"
  k_hosts :: "(nat \<times> nat \<times> 32 word, nat) bpf_map"
  k_by_name :: "(string, nat) bpf_map"
  k_policies :: "(nat \<Rightarrow> profile_policy) option"
  k_config :: "kernel_config option"
  k_pkg_guard :: "bool option"
  k_daemon_pid :: "32 word option"
  k_guard_on :: bool

section \<open>Commands\<close>

datatype ebpf_command =
    CBlockFile string
  | CUnblockFile string
  | CBlockIp string
  | CUnblockIp string
  | CSetEnforce bool
  | CSetDlpEnabled bool
  | CAllowKeyIp string
  | CBlockSend "32 word" string
  | CSetAllowedDir string
  | CClearAllowedDirs
  | CBlockDir string
  | CClearBlockedDirs
  | CTrackAgentPid "32 word"
  | CContainPid "32 word"
  | CReleasePid "32 word"
  | CSetDaemonPid "32 word"
  | CSetWriteVerdict "32 word" "64 word" write_verdict
  | CClearWriteVerdict "32 word" "64 word"
  | CSetQuarantineEnforce bool
  | CSetEgressEnforce bool
  | CSetTamperProtect bool
  | CSetControls controls_section
  | CSetMcpUpstreams "ip_addr list"
  | CSyncProfiles kernel_profiles
  | CTagProfileSlot "32 word" nat
  | CSetTaintOnEgress bool
  | CAllowEgressIp string
  | CRevokeEgressIp string
  | CSetTaint "32 word" bool
  | CAllowContainedExec string
  | CDenyContainedExec string

subsection \<open>Files and directories\<close>

definition block_inode_path :: "loader_env \<Rightarrow> string \<Rightarrow> kernel \<Rightarrow> kernel" where
  "block_inode_path E p K =
     (case resolve_inode_key E p of
        None \<Rightarrow> K
      | Some key \<Rightarrow> K\<lparr>k_blocked_inodes := bm_insert key 1 (k_blocked_inodes K)\<rparr>)"

definition SELF_PROTECTED_DIRS :: "string list" where
  "SELF_PROTECTED_DIRS =
     [''/etc/ringzero'', ''/var/lib/ringzero'', ''/etc/systemd/system/ringzero-daemon.service.d'']"

definition SELF_PROTECTED_FILES :: "string list" where
  "SELF_PROTECTED_FILES =
     [''/etc/systemd/system/ringzero-daemon.service'', ''/lib/systemd/system/ringzero-daemon.service'']"

definition path_is_file :: "fs_world \<Rightarrow> string \<Rightarrow> bool" where
  "path_is_file W p = (case fw_stat W p of None \<Rightarrow> False | Some m \<Rightarrow> fm_file m)"

definition self_dir_keys :: "loader_env \<Rightarrow> ino_key list" where
  "self_dir_keys E = List.map_filter (resolve_dir_inode_key E) SELF_PROTECTED_DIRS"

definition insert_all :: "('k \<times> 'v) list \<Rightarrow> ('k, 'v) bpf_map \<Rightarrow> ('k, 'v) bpf_map" where
  "insert_all kvs m = fold (\<lambda>(k, v). bm_insert k v) kvs m"

definition apply_self_protection :: "loader_env \<Rightarrow> kernel \<Rightarrow> kernel" where
  "apply_self_protection E K =
     (let K = fold (\<lambda>f K. if path_is_file (lv_fs E) f then block_inode_path E f K else K)
                SELF_PROTECTED_FILES K;
          keys = self_dir_keys E
      in if keys = [] then K
         else K\<lparr>k_blocked_dirs := bm_insert sentinel 1
                  (insert_all (map (\<lambda>k. (k, 1)) keys) (k_blocked_dirs K))\<rparr>)"

definition block_file_cmd :: "loader_env \<Rightarrow> string \<Rightarrow> kernel \<Rightarrow> kernel" where
  "block_file_cmd E name K =
     (let K = K\<lparr>k_blocked_files := bm_insert (make_file_key name) 1 (k_blocked_files K)\<rparr>
      in if starts_with name ''/'' \<and> path_exists (lv_fs E) name then block_inode_path E name K else K)"

definition add_dir :: "loader_env \<Rightarrow> string \<Rightarrow> (ino_key, nat) bpf_map \<Rightarrow> (ino_key, nat) bpf_map" where
  "add_dir E p m =
     (if \<not> path_is_dir (lv_fs E) p then m
      else case resolve_dir_inode_key E p of
             None \<Rightarrow> m
           | Some key \<Rightarrow> bm_insert key 1 (bm_insert sentinel 1 m))"

subsection \<open>Controls, servers and profiles\<close>

definition ADMIN_TOOLS :: "string list" where
  "ADMIN_TOOLS = [''sudo'', ''su'', ''pkexec'', ''doas'', ''run0'']"

definition ESCAPE_TOOLS :: "string list" where
  "ESCAPE_TOOLS = [''systemd-run'', ''at'', ''batch'', ''crontab'']"

definition INSTRUCTION_FILES :: "string list" where
  "INSTRUCTION_FILES =
     [''CLAUDE.md'', ''CLAUDE.local.md'', ''AGENTS.md'', ''GEMINI.md'', ''.cursorrules'',
      ''.windsurfrules'', ''SKILL.md'', ''.mcp.json'', ''copilot-instructions.md'']"

text \<open>Insert each key with its value, or remove each.\<close>

definition switch_keys :: "bool \<Rightarrow> ('k \<times> 'v) list \<Rightarrow> ('k, 'v) bpf_map \<Rightarrow> ('k, 'v) bpf_map" where
  "switch_keys on kvs m = (if on then insert_all kvs m else fold bm_remove (map fst kvs) m)"

definition apply_controls :: "loader_env \<Rightarrow> controls_section \<Rightarrow> kernel \<Rightarrow> kernel" where
  "apply_controls E c K =
     K\<lparr>k_denied_programs :=
          switch_keys (cs_escape_tools c) (map (\<lambda>n. (comm_key n, 2)) ESCAPE_TOOLS)
            (switch_keys (cs_admin_tools c) (map (\<lambda>n. (comm_key n, 1)) ADMIN_TOOLS) (k_denied_programs K)),
       k_readonly_names :=
          switch_keys (cs_instruction_files c) (map (\<lambda>n. (make_file_key n, 1)) INSTRUCTION_FILES)
            (k_readonly_names K),
       k_guard_on := (cs_package_installs c \<and> lv_enforcing E),
       k_pkg_guard := map_option (\<lambda>_. cs_package_installs c) (k_pkg_guard K)\<rparr>"

text \<open>Add what is wanted, then drop every other key (\<open>replace_set\<close> is the shared shape).\<close>

definition drop_stale :: "'k list \<Rightarrow> ('k, 'v) bpf_map \<Rightarrow> ('k, 'v) bpf_map" where
  "drop_stale want m =
     fold bm_remove (filter (\<lambda>k. k \<notin> set want) (map fst (bm_entries m))) m"

definition replace_set :: "('k \<times> 'v) list \<Rightarrow> ('k, 'v) bpf_map \<Rightarrow> ('k, 'v) bpf_map" where
  "replace_set want m = drop_stale (map fst want) (insert_all want m)"

definition mcp_v4 :: "loader_env \<Rightarrow> ip_addr list \<Rightarrow> 32 word list" where
  "mcp_v4 E ips =
     remdups (List.map_filter (\<lambda>ip. case ip of V4 a \<Rightarrow> Some (ne_key E a)
                                   | V6 a \<Rightarrow> map_option (ne_key E) (to_ipv4_mapped a)) ips)"

definition mcp_v6 :: "ip_addr list \<Rightarrow> ipv6 list" where
  "mcp_v6 ips =
     remdups (List.map_filter (\<lambda>ip. case ip of V6 a \<Rightarrow> if to_ipv4_mapped a = None then Some a else None
                                   | V4 _ \<Rightarrow> None) ips)"

definition apply_mcp_upstreams :: "loader_env \<Rightarrow> ip_addr list \<Rightarrow> kernel \<Rightarrow> kernel" where
  "apply_mcp_upstreams E ips K =
     K\<lparr>k_mcp4 := replace_set (map (\<lambda>k. (k, 1)) (mcp_v4 E ips)) (k_mcp4 K),
       k_mcp6 := replace_set (map (\<lambda>k. (k, 1)) (mcp_v6 ips)) (k_mcp6 K)\<rparr>"

definition program_keys :: "kernel_profiles \<Rightarrow> (nat \<times> string) list" where
  "program_keys st = remdups (map (\<lambda>(slot, n). (slot, comm_key n)) (kp_programs st))"

definition host_keys :: "loader_env \<Rightarrow> kernel_profiles \<Rightarrow> (nat \<times> nat \<times> 32 word) list" where
  "host_keys E st = remdups (map (\<lambda>(slot, net, len). (32 + len, slot, ne_key E net)) (kp_hosts st))"

definition name_slots :: "kernel_profiles \<Rightarrow> (string \<times> nat) list" where
  "name_slots st = foldl (\<lambda>m (n, s). AList.update (comm_key n) s m) [] (kp_names st)"

definition policy_at :: "kernel_profiles \<Rightarrow> nat \<Rightarrow> profile_policy" where
  "policy_at st slot =
     (case List.find (\<lambda>(s, _). s = slot) (kp_policies st) of
        Some (_, pe, sp, ne) \<Rightarrow> \<lparr>pp_programs_enforce = pe, pp_allow_spawn = sp, pp_network_enforce = ne\<rparr>
      | None \<Rightarrow> \<lparr>pp_programs_enforce = False, pp_allow_spawn = False, pp_network_enforce = False\<rparr>)"

text \<open>
  The names: the stale ones are the keys read before the insertion, so the order (insert, then
  remove) and the result are those of \<open>replace_set\<close>.
\<close>

definition apply_profiles :: "loader_env \<Rightarrow> kernel_profiles \<Rightarrow> kernel \<Rightarrow> kernel" where
  "apply_profiles E st K =
     (let progs = map (\<lambda>k. (k, 1)) (program_keys st); hosts = map (\<lambda>k. (k, 1)) (host_keys E st);
          K = K\<lparr>k_programs := insert_all progs (k_programs K), k_hosts := insert_all hosts (k_hosts K)\<rparr>;
          K = K\<lparr>k_by_name := replace_set (name_slots st) (k_by_name K),
                k_policies := map_option (\<lambda>f slot. if slot < 256 then policy_at st slot else f slot)
                                (k_policies K)\<rparr>
      in K\<lparr>k_programs := drop_stale (map fst progs) (k_programs K),
           k_hosts := drop_stale (map fst hosts) (k_hosts K)\<rparr>)"

subsection \<open>One command\<close>

definition with_ip :: "string \<Rightarrow> (32 word \<Rightarrow> 'a \<Rightarrow> 'a) \<Rightarrow> 'a \<Rightarrow> 'a" where
  "with_ip s f x = (case parse_ip_key s of None \<Rightarrow> x | Some ip \<Rightarrow> f ip x)"

definition with_config :: "(kernel_config \<Rightarrow> kernel_config) \<Rightarrow> kernel \<Rightarrow> kernel" where
  "with_config f K = K\<lparr>k_config := map_option f (k_config K)\<rparr>"

definition raise_taint :: "loader_env \<Rightarrow> 32 word \<Rightarrow> bool \<Rightarrow> (32 word, taint_info) bpf_map \<Rightarrow> (32 word, taint_info) bpf_map" where
  "raise_taint E pid has_keys m =
     (let existing = bm_get m pid
      in bm_insert pid
           \<lparr>ti_tainted = True,
            ti_has_keys = ((case existing of Some t \<Rightarrow> ti_has_keys t | None \<Rightarrow> False) \<or> has_keys),
            ti_time = (case existing of Some t \<Rightarrow> if ti_time t \<noteq> 0 then ti_time t else lv_now E
                       | None \<Rightarrow> lv_now E)\<rparr> m)"

fun apply_command :: "loader_env \<Rightarrow> ebpf_command \<Rightarrow> kernel \<Rightarrow> kernel" where
  "apply_command E (CBlockFile name) K = block_file_cmd E name K"
| "apply_command E (CUnblockFile name) K =
     K\<lparr>k_blocked_files := bm_remove (make_file_key name) (k_blocked_files K)\<rparr>"
| "apply_command E (CBlockIp s) K = K\<lparr>k_blocked_ips := with_ip s (\<lambda>ip. bm_insert ip 1) (k_blocked_ips K)\<rparr>"
| "apply_command E (CUnblockIp s) K = K\<lparr>k_blocked_ips := with_ip s bm_remove (k_blocked_ips K)\<rparr>"
| "apply_command E (CSetEnforce b) K = with_config (\<lambda>c. c\<lparr>kc_enforce_blocks := b\<rparr>) K"
| "apply_command E (CSetDlpEnabled b) K = with_config (\<lambda>c. c\<lparr>kc_dlp_enabled := b\<rparr>) K"
| "apply_command E (CAllowKeyIp s) K = K\<lparr>k_key_ips := with_ip s (\<lambda>ip. bm_insert ip 1) (k_key_ips K)\<rparr>"
| "apply_command E (CBlockSend pid s) K =
     K\<lparr>k_blocked_sends := with_ip s (\<lambda>ip. bm_insert (pid, ip) 1) (k_blocked_sends K)\<rparr>"
| "apply_command E (CSetAllowedDir p) K = K\<lparr>k_allowed_dirs := add_dir E p (k_allowed_dirs K)\<rparr>"
| "apply_command E CClearAllowedDirs K = K\<lparr>k_allowed_dirs := bm_remove sentinel (k_allowed_dirs K)\<rparr>"
| "apply_command E (CBlockDir p) K = K\<lparr>k_blocked_dirs := add_dir E p (k_blocked_dirs K)\<rparr>"
| "apply_command E CClearBlockedDirs K =
     apply_self_protection E (K\<lparr>k_blocked_dirs := bm_remove sentinel (k_blocked_dirs K)\<rparr>)"
| "apply_command E (CTrackAgentPid pid) K =
     K\<lparr>k_descendants := (if bm_has (k_descendants K) pid then k_descendants K
                         else bm_insert pid 1 (k_descendants K))\<rparr>"
| "apply_command E (CContainPid pid) K = K\<lparr>k_contained := bm_insert pid 1 (k_contained K)\<rparr>"
| "apply_command E (CReleasePid pid) K = K\<lparr>k_contained := bm_remove pid (k_contained K)\<rparr>"
| "apply_command E (CSetDaemonPid pid) K = K\<lparr>k_daemon_pid := map_option (\<lambda>_. pid) (k_daemon_pid K)\<rparr>"
| "apply_command E (CSetWriteVerdict dev ino v) K =
     K\<lparr>k_verdicts := bm_insert \<lparr>ik_ino = ino, ik_dev = dev\<rparr> v (k_verdicts K)\<rparr>"
| "apply_command E (CClearWriteVerdict dev ino) K =
     K\<lparr>k_verdicts := bm_remove \<lparr>ik_ino = ino, ik_dev = dev\<rparr> (k_verdicts K)\<rparr>"
| "apply_command E (CSetQuarantineEnforce b) K = with_config (\<lambda>c. c\<lparr>kc_quarantine_enforce := b\<rparr>) K"
| "apply_command E (CSetEgressEnforce b) K = with_config (\<lambda>c. c\<lparr>kc_egress_enforce := b\<rparr>) K"
| "apply_command E (CSetTamperProtect b) K = with_config (\<lambda>c. c\<lparr>kc_tamper_protect := b\<rparr>) K"
| "apply_command E (CSetControls c) K = apply_controls E c K"
| "apply_command E (CSetMcpUpstreams ips) K = apply_mcp_upstreams E ips K"
| "apply_command E (CSyncProfiles st) K = apply_profiles E st K"
| "apply_command E (CTagProfileSlot pid slot) K =
     K\<lparr>k_descendants := bm_insert pid slot (k_descendants K)\<rparr>"
| "apply_command E (CSetTaintOnEgress b) K = with_config (\<lambda>c. c\<lparr>kc_taint_on_egress := b\<rparr>) K"
| "apply_command E (CAllowEgressIp s) K =
     K\<lparr>k_egress_ips := with_ip s (\<lambda>ip. bm_insert ip 1) (k_egress_ips K)\<rparr>"
| "apply_command E (CRevokeEgressIp s) K = K\<lparr>k_egress_ips := with_ip s bm_remove (k_egress_ips K)\<rparr>"
| "apply_command E (CSetTaint pid has_keys) K = K\<lparr>k_taint := raise_taint E pid has_keys (k_taint K)\<rparr>"
| "apply_command E (CAllowContainedExec name) K =
     K\<lparr>k_contained_exec := bm_insert (comm_key name) 1 (k_contained_exec K)\<rparr>"
| "apply_command E (CDenyContainedExec name) K =
     K\<lparr>k_contained_exec := bm_remove (comm_key name) (k_contained_exec K)\<rparr>"

definition apply_commands :: "loader_env \<Rightarrow> ebpf_command list \<Rightarrow> kernel \<Rightarrow> kernel" where
  "apply_commands E cs K = fold (apply_command E) cs K"

text \<open>The closures the API is given (agent/src/main.rs).\<close>

fun command_of :: "kernel_push \<Rightarrow> ebpf_command" where
  "command_of (PushBlockFile p) = CBlockFile p"
| "command_of (PushAllowedDir p) = (if p = [] then CClearAllowedDirs else CSetAllowedDir p)"
| "command_of (PushBlockedDir p) = (if p = [] then CClearBlockedDirs else CBlockDir p)"

section \<open>Start-up\<close>

definition UNCONDITIONAL_BLOCK_FILES :: "(string \<times> string) list" where
  "UNCONDITIONAL_BLOCK_FILES =
     [(''id_rsa'', ''T1552.004''), (''id_ed25519'', ''T1552.004''), (''id_ecdsa'', ''T1552.004''),
      (''id_dsa'', ''T1552.004''), (''credentials'', ''T1552.001''), (''.env'', ''T1552.001''),
      (''ld.so.preload'', ''T1574.006''), (''authorized_keys'', ''T1098.004'')]"

definition block_default_files :: "kernel \<Rightarrow> kernel" where
  "block_default_files K =
     K\<lparr>k_blocked_files := insert_all (map (\<lambda>(n, _). (make_file_key n, 1)) UNCONDITIONAL_BLOCK_FILES)
                            (k_blocked_files K)\<rparr>"

definition CRED_NAMES :: "string list" where
  "CRED_NAMES = [''id_rsa'', ''id_ed25519'', ''id_ecdsa'', ''id_dsa'', ''credentials'', ''.env'']"

definition block_default_inodes :: "loader_env \<Rightarrow> kernel \<Rightarrow> kernel" where
  "block_default_inodes E K =
     fold (block_inode_path E)
       (concat (map (\<lambda>home. concat (map (\<lambda>n. [path_join (path_join home ''.ssh'') n, path_join home n])
                                      CRED_NAMES))
                  (''/root'' # home_dirs (lv_fs E)))) K"

text \<open>The loader's own copy of the tilde expansion.\<close>

definition loader_tilde :: "fs_world \<Rightarrow> string \<Rightarrow> string" where
  "loader_tilde W path =
     (if \<not> starts_with path ''~'' then path
      else case List.find (path_exists W) (map (with_home path) (home_dirs W)) of
             Some c \<Rightarrow> c
           | None \<Rightarrow>
               if path_exists W (with_home path ''/root'') then with_home path ''/root''
               else (case home_dirs W of
                       h # _ \<Rightarrow> with_home path h
                     | [] \<Rightarrow> with_home path ''/root''))"

definition rule_basenames :: "fs_world \<Rightarrow> json \<Rightarrow> string list" where
  "rule_basenames W rule =
     (case index_str rule ''pattern'' of
        None \<Rightarrow> []
      | Some p \<Rightarrow> if is_dir_rule W rule then dir_rule_basenames p else pattern_to_basenames p)"

definition pin_rule :: "loader_env \<Rightarrow> json \<Rightarrow> kernel \<Rightarrow> kernel" where
  "pin_rule E rule K =
     (case index_str rule ''pattern'' of
        None \<Rightarrow> K
      | Some p \<Rightarrow>
          let e = loader_tilde (lv_fs E) (trim p)
          in if starts_with e ''/'' \<and> \<not> has_glob e then block_inode_path E e K else K)"

definition load_dirs :: "loader_env \<Rightarrow> string list \<Rightarrow> (ino_key, nat) bpf_map \<Rightarrow> (ino_key, nat) bpf_map" where
  "load_dirs E ds m =
     (if ds = [] then m
      else insert_all (map (\<lambda>k. (k, 1)) (List.map_filter (resolve_dir_inode_key E) ds)) (bm_insert sentinel 1 m))"

definition loaded_allowed_dirs :: "fs_world \<Rightarrow> json list \<Rightarrow> string list" where
  "loaded_allowed_dirs W rules =
     filter (\<lambda>s. s \<noteq> ''/**'' \<and> s \<noteq> ''/*'' \<and> s \<noteq> ''*'')
       (List.map_filter (\<lambda>r. map_option (\<lambda>s. loader_tilde W (strip_dir_glob s)) (index_str r ''pattern''))
         (filter (\<lambda>r. index_str r ''action'' = Some ''allow''
                    \<and> (case index_str r ''pattern'' of Some p \<Rightarrow> p \<noteq> [] | None \<Rightarrow> False)) rules))"

text \<open>\<open>data\<close> is the parsed rules file; \<open>None\<close> when it is missing or is not a JSON array.\<close>

definition load_file_access_rules :: "loader_env \<Rightarrow> json list option \<Rightarrow> kernel \<Rightarrow> kernel" where
  "load_file_access_rules E data K =
     (case data of
        None \<Rightarrow> K
      | Some rules \<Rightarrow>
          if \<not> bm_present (k_blocked_files K) then K
          else
            let W = lv_fs E;
                block = filter (\<lambda>r. index_str r ''action'' = Some ''block'') rules;
                K = K\<lparr>k_blocked_files := insert_all
                        (map (\<lambda>n. (make_file_key n, 1)) (concat (map (rule_basenames W) block)))
                        (k_blocked_files K)\<rparr>;
                K = fold (pin_rule E) block K;
                dirs = List.map_filter (\<lambda>r. map_option (dir_target W) (index_str r ''pattern''))
                         (filter (is_dir_rule W) block)
            in K\<lparr>k_blocked_dirs := load_dirs E dirs (k_blocked_dirs K),
                 k_allowed_dirs := load_dirs E (loaded_allowed_dirs W rules) (k_allowed_dirs K)\<rparr>)"

text \<open>The part of \<open>start\<close> between attaching the programs and the event loop.\<close>

definition default_config :: kernel_config where
  "default_config = \<lparr>kc_enforce_blocks = True, kc_dlp_enabled = True, kc_quarantine_enforce = False,
     kc_egress_enforce = False, kc_taint_on_egress = False, kc_tamper_protect = False\<rparr>"

definition seed_kernel ::
  "loader_env \<Rightarrow> json list option \<Rightarrow> controls_section \<Rightarrow> kernel_profiles \<Rightarrow> 32 word \<Rightarrow> kernel \<Rightarrow> kernel" where
  "seed_kernel E data controls st pid K =
     (let K = K\<lparr>k_config := map_option (\<lambda>_. default_config) (k_config K)\<rparr>;
          K = block_default_inodes E (block_default_files K);
          K = load_file_access_rules E data K;
          K = apply_profiles E st (apply_controls E controls (apply_self_protection E K))
      in K\<lparr>k_daemon_pid := map_option (\<lambda>_. pid) (k_daemon_pid K)\<rparr>)"

section \<open>What the kernel programs look up\<close>

text \<open>
  A file as an open sees it: its name, its identity, and the identities of the directories above it,
  nearest first, up to and without the root.
\<close>

record dentry =
  de_name :: string
  de_inode :: "ino_key option"
  de_parents :: "ino_key option list"

definition MAX_DIR_WALK :: nat where
  "MAX_DIR_WALK = 32"

definition under_dirs :: "(ino_key, nat) bpf_map \<Rightarrow> dentry \<Rightarrow> bool" where
  "under_dirs m d =
     list_ex (\<lambda>p. case p of Some k \<Rightarrow> bm_has m k | None \<Rightarrow> False) (take MAX_DIR_WALK (de_parents d))"

definition dentry_under_blocked_dir :: "kernel \<Rightarrow> dentry \<Rightarrow> bool" where
  "dentry_under_blocked_dir K d =
     (bm_has (k_blocked_dirs K) sentinel \<and> under_dirs (k_blocked_dirs K) d)"

definition name_key :: "string \<Rightarrow> string" where
  "name_key n = padded MAX_PATH_LEN n"

definition has_inode :: "(ino_key, 'v) bpf_map \<Rightarrow> dentry \<Rightarrow> bool" where
  "has_inode m d = (case de_inode d of Some k \<Rightarrow> bm_has m k | None \<Rightarrow> False)"

definition is_dentry_protected :: "kernel \<Rightarrow> dentry \<Rightarrow> bool" where
  "is_dentry_protected K d =
     (bm_has (k_blocked_files K) (name_key (de_name d)) \<or> has_inode (k_blocked_inodes K) d
      \<or> dentry_under_blocked_dir K d)"

text \<open>Names the open hook lets through before any rule is looked at.\<close>

definition noisy_name :: "string \<Rightarrow> bool" where
  "noisy_name n = (starts_with n ''sta'' \<or> starts_with n ''fd'' \<or> starts_with n ''null'' \<or> starts_with n ''pipe'')"

definition blocked_entry :: "kernel \<Rightarrow> dentry \<Rightarrow> nat option" where
  "blocked_entry K d =
     (case bm_get (k_blocked_files K) (name_key (de_name d)) of
        Some v \<Rightarrow> Some v
      | None \<Rightarrow> Option.bind (de_inode d) (bm_get (k_blocked_inodes K)))"

definition quarantined :: "kernel \<Rightarrow> dentry \<Rightarrow> bool" where
  "quarantined K d =
     (case Option.bind (de_inode d) (bm_get (k_verdicts K)) of Some v \<Rightarrow> wv_enforce v | None \<Rightarrow> False)"

text \<open>The decision of the open hook for a process already known to be an agent's.\<close>

definition open_refused :: "kernel \<Rightarrow> bool \<Rightarrow> dentry \<Rightarrow> bool" where
  "open_refused K writing d =
     (case k_config K of
        None \<Rightarrow> False
      | Some c \<Rightarrow>
          \<not> noisy_name (de_name d)
          \<and> (kc_enforce_blocks c \<and> writing \<and> bm_has (k_readonly_names K) (name_key (de_name d))
             \<or> kc_enforce_blocks c \<and> (case blocked_entry K d of Some v \<Rightarrow> v \<noteq> 0 | None \<Rightarrow> False)
             \<or> kc_quarantine_enforce c \<and> quarantined K d
             \<or> kc_enforce_blocks c \<and> bm_has (k_allowed_dirs K) sentinel \<and> \<not> under_dirs (k_allowed_dirs K) d
             \<or> kc_enforce_blocks c \<and> dentry_under_blocked_dir K d))"

text \<open>
  The lookups of a connection to an IPv4 address: the key is the address as loaded. (A blocked
  address is refused while enforcement is on, an address off the egress list while the process is
  tainted and egress enforcement is on.)
\<close>

definition address_blocked :: "loader_env \<Rightarrow> kernel \<Rightarrow> ipv4 \<Rightarrow> bool" where
  "address_blocked E K a = (case bm_get (k_blocked_ips K) (ne_key E a) of Some v \<Rightarrow> v \<noteq> 0 | None \<Rightarrow> False)"

text \<open>
  The longest-prefix match of a profile's hosts: the entry's slot, and its first bits in the order of
  the bytes in memory (the stored address is in the host's order of them).
\<close>

definition trie_admits :: "loader_env \<Rightarrow> kernel \<Rightarrow> nat \<Rightarrow> ipv4 \<Rightarrow> bool" where
  "trie_admits E K slot a =
     list_ex (\<lambda>((plen, s, ip), _). s = slot \<and> in_cidr (V4 a) (V4 (ne_key E ip)) (plen - 32))
       (bm_entries (k_hosts K))"

definition egress_allowed :: "loader_env \<Rightarrow> kernel \<Rightarrow> ipv4 \<Rightarrow> bool" where
  "egress_allowed E K a =
     (is_loopback (V4 a) \<or> bm_has (k_key_ips K) (ne_key E a) \<or> bm_has (k_egress_ips K) (ne_key E a))"

section \<open>Laws of the maps\<close>

text \<open>A plain hash map: a full one refuses a new key.\<close>

definition plain :: "('k, 'v) bpf_map \<Rightarrow> bool" where
  "plain m = (bm_present m \<and> (\<forall>l. bm_evict m l = None))"

definition room :: "nat \<Rightarrow> ('k, 'v) bpf_map \<Rightarrow> bool" where
  "room n m = (plain m \<and> length (bm_entries m) + n \<le> bm_max m)"

named_theorems bm_simps \<open>what insertion and removal leave of a map\<close>

lemma update_length:
  "length (AList.update k v al) = (if map_of al k = None then Suc (length al) else length al)"
  by (induction al) auto

lemma delete_length: "map_of al k \<noteq> None \<Longrightarrow> length (AList.delete k al) < length al"
  by (induction al) (auto simp: less_Suc_eq_le AList.delete_eq length_filter_le)

lemma delete_length_le: "length (AList.delete k al) \<le> length al"
  by (simp add: AList.delete_eq length_filter_le)

lemma bm_shape [bm_simps]:
  "bm_present (bm_insert k v m) = bm_present m" "bm_max (bm_insert k v m) = bm_max m"
  "bm_evict (bm_insert k v m) = bm_evict m"
  "bm_present (bm_remove k m) = bm_present m" "bm_max (bm_remove k m) = bm_max m"
  "bm_evict (bm_remove k m) = bm_evict m"
  by (simp_all add: bm_insert_def bm_remove_def split: option.split)

lemma plain_keep [bm_simps]: "plain (bm_insert k v m) = plain m" "plain (bm_remove k m) = plain m"
  by (simp_all add: plain_def bm_simps)

lemma bm_get_insert:
  "plain m \<Longrightarrow> bm_get (bm_insert k v m) k' =
     (if k' = k \<and> (bm_has m k \<or> length (bm_entries m) < bm_max m) then Some v else bm_get m k')"
  by (simp add: bm_insert_def bm_get_def plain_def update_conv')

lemma bm_get_remove: "bm_present m \<Longrightarrow> bm_get (bm_remove k m) k' = (if k' = k then None else bm_get m k')"
  by (simp add: bm_remove_def bm_get_def delete_conv')

lemma bm_has_insert:
  "plain m \<Longrightarrow> bm_has (bm_insert k v m) k' \<longleftrightarrow>
     bm_has m k' \<or> k' = k \<and> length (bm_entries m) < bm_max m"
  by (auto simp: bm_has_def bm_get_insert)

lemma bm_has_remove: "plain m \<Longrightarrow> bm_has (bm_remove k m) k' \<longleftrightarrow> k' \<noteq> k \<and> bm_has m k'"
  by (simp add: bm_has_def bm_get_remove plain_def)

lemma insert_length:
  "plain m \<Longrightarrow> length (bm_entries (bm_insert k v m)) =
     (if \<not> bm_has m k \<and> length (bm_entries m) < bm_max m then Suc (length (bm_entries m))
      else length (bm_entries m))"
  by (simp add: bm_insert_def plain_def update_length bm_has_def bm_get_def)

lemma remove_length:
  "plain m \<Longrightarrow> length (bm_entries (bm_remove k m)) \<le> length (bm_entries m)
     \<and> (bm_has m k \<longrightarrow> length (bm_entries (bm_remove k m)) < length (bm_entries m))"
  by (simp add: bm_remove_def plain_def bm_has_def bm_get_def delete_length delete_length_le)

lemma insert_all_simps [simp]:
  "insert_all [] m = m" "insert_all ((k, v) # kvs) m = insert_all kvs (bm_insert k v m)"
  by (simp_all add: insert_all_def)

lemma insert_all_shape [bm_simps]:
  "bm_max (insert_all kvs m) = bm_max m" "plain (insert_all kvs m) = plain m"
  "bm_present (insert_all kvs m) = bm_present m"
  by (induction kvs arbitrary: m) (auto simp: bm_simps)

lemma insert_all_keeps: "plain m \<Longrightarrow> bm_has m k \<Longrightarrow> bm_has (insert_all kvs m) k"
  by (induction kvs arbitrary: m) (auto simp: bm_has_insert bm_simps)

lemma insert_all_length: "plain m \<Longrightarrow> length (bm_entries (insert_all kvs m)) \<le> length (bm_entries m) + length kvs"
proof (induction kvs arbitrary: m)
  case (Cons kv kvs)
  obtain k v where kv: "kv = (k, v)" by (cases kv)
  have "length (bm_entries (insert_all kvs (bm_insert k v m)))
      \<le> length (bm_entries (bm_insert k v m)) + length kvs"
    using Cons by (simp add: bm_simps)
  then show ?case using Cons.prems kv by (simp add: insert_length split: if_splits)
qed simp

lemma insert_all_has:
  "room (length kvs) m \<Longrightarrow> bm_has (insert_all kvs m) k \<longleftrightarrow> bm_has m k \<or> k \<in> fst ` set kvs"
proof (induction kvs arbitrary: m)
  case (Cons kv kvs)
  obtain k' v where kv: "kv = (k', v)" by (cases kv)
  have "room (length kvs) (bm_insert k' v m)"
    using Cons.prems by (auto simp: room_def bm_simps insert_length)
  from Cons.IH[OF this] Cons.prems kv show ?case by (auto simp: bm_has_insert room_def)
qed simp

lemma fold_remove:
  "plain m \<Longrightarrow> plain (fold bm_remove ks m) \<and> (bm_has (fold bm_remove ks m) k \<longleftrightarrow> k \<notin> set ks \<and> bm_has m k)
     \<and> (k \<notin> set ks \<longrightarrow> bm_get (fold bm_remove ks m) k = bm_get m k)"
  by (induction ks arbitrary: m) (auto simp: bm_simps bm_has_remove bm_get_remove plain_def)

lemma bm_has_entries: "bm_has m k \<longleftrightarrow> k \<in> set (map fst (bm_entries m))"
  by (auto simp: bm_has_def bm_get_def map_of_eq_None_iff)

lemma drop_stale_has:
  "plain m \<Longrightarrow> bm_has (drop_stale want m) k \<longleftrightarrow> k \<in> set want \<and> bm_has m k"
  using fold_remove[of m "filter (\<lambda>k. k \<notin> set want) (map fst (bm_entries m))" k]
  by (auto simp: drop_stale_def bm_has_entries)

lemma drop_stale_get: "plain m \<Longrightarrow> k \<in> set want \<Longrightarrow> bm_get (drop_stale want m) k = bm_get m k"
  using fold_remove[of m "filter (\<lambda>k. k \<notin> set want) (map fst (bm_entries m))" k]
  by (auto simp: drop_stale_def)

lemma replace_set_has:
  "room (length want) m \<Longrightarrow> bm_has (replace_set want m) k \<longleftrightarrow> k \<in> fst ` set want"
  using insert_all_has[of want m k]
  by (auto simp: replace_set_def drop_stale_has bm_simps room_def)

section \<open>Which map a command touches\<close>

named_theorems frame \<open>the maps an operation leaves alone\<close>

lemma block_inode_frame [frame]:
  "k_taint (block_inode_path E p K) = k_taint K" "k_blocked_dirs (block_inode_path E p K) = k_blocked_dirs K"
  "k_config (block_inode_path E p K) = k_config K" "k_blocked_files (block_inode_path E p K) = k_blocked_files K"
  by (simp_all add: block_inode_path_def split: option.split)

lemma block_file_frame [frame]:
  "k_taint (block_file_cmd E p K) = k_taint K" "k_blocked_dirs (block_file_cmd E p K) = k_blocked_dirs K"
  "k_config (block_file_cmd E p K) = k_config K"
  "k_blocked_files (block_file_cmd E p K) = bm_insert (make_file_key p) 1 (k_blocked_files K)"
  by (simp_all add: block_file_cmd_def Let_def frame)

lemma self_protection_frame [frame]:
  "k_taint (apply_self_protection E K) = k_taint K"
  "k_config (apply_self_protection E K) = k_config K"
  "k_blocked_files (apply_self_protection E K) = k_blocked_files K"
  "k_blocked_dirs (apply_self_protection E K) =
     (if self_dir_keys E = [] then k_blocked_dirs K
      else bm_insert sentinel 1 (insert_all (map (\<lambda>k. (k, 1)) (self_dir_keys E)) (k_blocked_dirs K)))"
  by (simp_all add: apply_self_protection_def Let_def SELF_PROTECTED_FILES_def frame)

lemma bulk_frame [frame]:
  "k_taint (apply_controls E c K) = k_taint K" "k_blocked_dirs (apply_controls E c K) = k_blocked_dirs K"
  "k_config (apply_controls E c K) = k_config K" "k_blocked_files (apply_controls E c K) = k_blocked_files K"
  "k_taint (apply_mcp_upstreams E ips K) = k_taint K"
  "k_blocked_dirs (apply_mcp_upstreams E ips K) = k_blocked_dirs K"
  "k_config (apply_mcp_upstreams E ips K) = k_config K"
  "k_blocked_files (apply_mcp_upstreams E ips K) = k_blocked_files K"
  "k_taint (apply_profiles E st K) = k_taint K" "k_blocked_dirs (apply_profiles E st K) = k_blocked_dirs K"
  "k_config (apply_profiles E st K) = k_config K" "k_blocked_files (apply_profiles E st K) = k_blocked_files K"
  by (simp_all add: apply_controls_def apply_mcp_upstreams_def apply_profiles_def Let_def)

lemma taint_frame:
  "k_taint (apply_command E c K) =
     (case c of CSetTaint pid h \<Rightarrow> raise_taint E pid h (k_taint K) | _ \<Rightarrow> k_taint K)"
  by (cases c) (simp_all add: frame with_config_def)

lemma blocked_dirs_frame:
  "k_blocked_dirs (apply_command E c K) =
     (case c of CBlockDir p \<Rightarrow> add_dir E p (k_blocked_dirs K)
      | CClearBlockedDirs \<Rightarrow>
          k_blocked_dirs (apply_self_protection E (K\<lparr>k_blocked_dirs := bm_remove sentinel (k_blocked_dirs K)\<rparr>))
      | _ \<Rightarrow> k_blocked_dirs K)"
  by (cases c) (simp_all add: frame with_config_def)

lemma blocked_files_frame:
  "k_blocked_files (apply_command E c K) =
     (case c of CBlockFile p \<Rightarrow> bm_insert (make_file_key p) 1 (k_blocked_files K)
      | CUnblockFile p \<Rightarrow> bm_remove (make_file_key p) (k_blocked_files K)
      | _ \<Rightarrow> k_blocked_files K)"
  by (cases c) (simp_all add: frame with_config_def)

section \<open>Taint is raised and never lowered\<close>

text \<open>Present, tainted, holding keys: what may be known of a process.\<close>

definition taint_bits :: "kernel \<Rightarrow> (32 word \<times> bool option) set" where
  "taint_bits K = {(pid, b). case bm_get (k_taint K) pid of None \<Rightarrow> False
     | Some t \<Rightarrow> (case b of None \<Rightarrow> True | Some True \<Rightarrow> ti_has_keys t | Some False \<Rightarrow> ti_tainted t)}"

lemma raise_taint_bits:
  "plain (k_taint K) \<Longrightarrow> taint_bits K \<subseteq> taint_bits (K\<lparr>k_taint := raise_taint E pid h (k_taint K)\<rparr>)"
proof (rule subsetI, clarify)
  fix q b
  assume p: "plain (k_taint K)" and q: "(q, b) \<in> taint_bits K"
  then obtain t where t: "bm_get (k_taint K) q = Some t" by (auto simp: taint_bits_def split: option.splits)
  show "(q, b) \<in> taint_bits (K\<lparr>k_taint := raise_taint E pid h (k_taint K)\<rparr>)"
    using q t by (cases "q = pid"; cases b rule: option.exhaust[where 'a = bool])
      (auto simp: taint_bits_def raise_taint_def Let_def bm_get_insert[OF p] split: bool.splits)
qed

interpretation taint: monotone_system "\<lambda>K c. apply_command E c K" "\<lambda>K. plain (k_taint K)" taint_bits
  for E :: loader_env
proof unfold_locales
  fix K :: kernel and c :: ebpf_command
  assume p: "plain (k_taint K)"
  then show "plain (k_taint (apply_command E c K))"
    unfolding taint_frame by (cases c) (simp_all add: raise_taint_def Let_def bm_simps)
  have "taint_bits (apply_command E c K) = taint_bits (K\<lparr>k_taint := k_taint (apply_command E c K)\<rparr>)"
    by (simp add: taint_bits_def)
  then show "taint_bits K \<le> taint_bits (apply_command E c K)"
    unfolding taint_frame using raise_taint_bits[OF p] by (cases c) simp_all
qed

lemma apply_commands_foldl: "apply_commands E cs K = foldl (\<lambda>K c. apply_command E c K) K cs"
  by (simp add: apply_commands_def foldl_conv_fold)

lemma apply_commands_append: "apply_commands E (cs @ ds) K = apply_commands E ds (apply_commands E cs K)"
  by (simp add: apply_commands_def)

text \<open>
  C21. The one rule: no sequence of commands, in any order, clears the taint of a process or takes
  back that it holds keys.
\<close>
theorem taint_is_never_lowered:
  assumes "plain (k_taint K)" "bm_get (k_taint K) pid = Some t"
  shows "\<exists>t'. bm_get (k_taint (apply_commands E cs K)) pid = Some t'
     \<and> (ti_tainted t \<longrightarrow> ti_tainted t') \<and> (ti_has_keys t \<longrightarrow> ti_has_keys t')"
proof -
  have "taint_bits K \<subseteq> taint_bits (apply_commands E cs K)"
    using taint.run_mono[OF assms(1), of E cs] by (simp add: apply_commands_foldl)
  then have s: "(pid, b) \<in> taint_bits K \<Longrightarrow> (pid, b) \<in> taint_bits (apply_commands E cs K)" for b
    by blast
  from s[of None] s[of "Some True"] s[of "Some False"] assms(2) show ?thesis
    by (auto simp: taint_bits_def split: option.splits)
qed

section \<open>Directory blocks\<close>

text \<open>
  The map of blocked directories while Ring Zero's own directories are protected: switched on, and
  holding the key of each of them.
\<close>

definition guarded :: "loader_env \<Rightarrow> kernel \<Rightarrow> bool" where
  "guarded E K =
     (let m = k_blocked_dirs K
      in plain m \<and> length (bm_entries m) \<le> bm_max m \<and> bm_has m sentinel
         \<and> self_dir_keys E \<noteq> [] \<and> list_all (bm_has m) (self_dir_keys E))"

definition blocked_keys :: "kernel \<Rightarrow> ino_key set" where
  "blocked_keys K = {k. bm_has (k_blocked_dirs K) k}"

text \<open>Re-inserting known keys and one that has just been removed: the map stays within \<open>n\<close>.\<close>

definition gap :: "nat \<Rightarrow> 'k \<Rightarrow> ('k, 'v) bpf_map \<Rightarrow> bool" where
  "gap n s m = (plain m \<and> n \<le> bm_max m \<and> length (bm_entries m) \<le> n
     \<and> (bm_has m s \<or> length (bm_entries m) < n))"

lemma gap_insert_known: "gap n s m \<Longrightarrow> bm_has m k \<or> k = s \<Longrightarrow> gap n s (bm_insert k v m)"
  by (auto simp: gap_def bm_simps bm_has_insert insert_length)

lemma gap_insert_all:
  "gap n s m \<Longrightarrow> (\<forall>k \<in> fst ` set kvs. bm_has m k \<or> k = s) \<Longrightarrow>
     gap n s (insert_all kvs m) \<and> (\<forall>k \<in> fst ` set kvs. bm_has (insert_all kvs m) k)"
proof (induction kvs arbitrary: m)
  case (Cons kv kvs)
  obtain k v where kv: "kv = (k, v)" by (cases kv)
  have g: "gap n s (bm_insert k v m)" using Cons.prems kv by (intro gap_insert_known) auto
  have p: "plain m" using Cons.prems(1) by (simp add: gap_def)
  have k: "bm_has (bm_insert k v m) k"
    using Cons.prems kv p by (auto simp: bm_has_insert gap_def)
  moreover have "\<forall>k' \<in> fst ` set kvs. bm_has (bm_insert k v m) k' \<or> k' = s"
    using Cons.prems(2) kv p by (auto simp: bm_has_insert)
  from Cons.IH[OF g this] kv k p show ?case
    using insert_all_keeps[of "bm_insert k v m" k kvs] by (auto simp: bm_simps)
qed simp

lemma clear_keeps_guard:
  assumes "guarded E K"
  defines "K' \<equiv> apply_command E CClearBlockedDirs K"
  shows "guarded E K'" "blocked_keys K \<subseteq> blocked_keys K'"
    "length (bm_entries (k_blocked_dirs K')) \<le> length (bm_entries (k_blocked_dirs K))"
proof -
  let ?m = "k_blocked_dirs K" and ?kvs = "map (\<lambda>k. (k, 1::nat)) (self_dir_keys E)"
  let ?r = "bm_remove sentinel ?m"
  let ?n = "length (bm_entries ?m)"
  have m: "plain ?m" "?n \<le> bm_max ?m" "bm_has ?m sentinel" "self_dir_keys E \<noteq> []"
    "\<forall>k \<in> set (self_dir_keys E). bm_has ?m k"
    using assms(1) by (auto simp: guarded_def Let_def list_all_iff)
  have "length (bm_entries ?r) < ?n" using remove_length[OF m(1)] m(3) by blast
  then have g: "gap ?n sentinel ?r" using m by (simp add: gap_def bm_simps)
  have known: "\<forall>k \<in> fst ` set ?kvs. bm_has ?r k \<or> k = sentinel" using m by (auto simp: bm_has_remove)
  define A where "A = insert_all ?kvs ?r"
  have all: "gap ?n sentinel A" "\<forall>k \<in> set (self_dir_keys E). bm_has A k"
    using gap_insert_all[OF g known] by (auto simp: A_def)
  have d: "k_blocked_dirs K' = bm_insert sentinel 1 A"
    using m(4) unfolding K'_def blocked_dirs_frame A_def by (simp add: frame)
  have g': "gap ?n sentinel (k_blocked_dirs K')" unfolding d using all by (intro gap_insert_known) auto
  have p: "plain A" using all by (simp add: gap_def)
  have has: "bm_has (k_blocked_dirs K') k \<longleftrightarrow> bm_has A k \<or> k = sentinel" for k
    using all unfolding d by (auto simp: bm_has_insert[OF p] gap_def)
  have keep: "bm_has ?m k \<Longrightarrow> bm_has (k_blocked_dirs K') k" for k
    using insert_all_keeps[of ?r k ?kvs] m(1) unfolding has A_def by (auto simp: bm_has_remove bm_simps)
  show "guarded E K'"
    using g' all m(4) has unfolding guarded_def gap_def Let_def list_all_iff by auto
  show "blocked_keys K \<subseteq> blocked_keys K'" using keep by (auto simp: blocked_keys_def)
  show "length (bm_entries (k_blocked_dirs K')) \<le> ?n" using g' by (simp add: gap_def)
qed

lemma add_dir_guard:
  fixes p :: string
  assumes "guarded E K"
  defines "K' \<equiv> K\<lparr>k_blocked_dirs := add_dir E p (k_blocked_dirs K)\<rparr>"
  shows "guarded E K'" "blocked_keys K \<subseteq> blocked_keys K'"
    "length (bm_entries (k_blocked_dirs K')) \<le> Suc (length (bm_entries (k_blocked_dirs K)))"
proof -
  let ?m = "k_blocked_dirs K"
  have m: "plain ?m" "length (bm_entries ?m) \<le> bm_max ?m" "bm_has ?m sentinel"
    using assms(1) by (auto simp: guarded_def Let_def)
  then have s: "length (bm_entries (bm_insert sentinel 1 ?m)) = length (bm_entries ?m)"
    by (simp add: insert_length)
  have has: "bm_has ?m k \<Longrightarrow> bm_has (add_dir E p ?m) k" for k
    using m(1) by (auto simp: add_dir_def bm_has_insert bm_simps split: option.split)
  have "plain (add_dir E p ?m) \<and> bm_max (add_dir E p ?m) = bm_max ?m"
    using m(1) by (simp add: add_dir_def bm_simps split: option.split)
  moreover have "length (bm_entries (add_dir E p ?m)) \<le> bm_max ?m"
    using m s by (auto simp: add_dir_def insert_length bm_simps split: option.split)
  ultimately show "guarded E K'" using assms(1) has
    unfolding K'_def guarded_def Let_def by (auto simp: list_all_iff)
  show "blocked_keys K \<subseteq> blocked_keys K'" using has by (auto simp: blocked_keys_def K'_def)
  show "length (bm_entries (k_blocked_dirs K')) \<le> Suc (length (bm_entries ?m))"
    using m s by (auto simp: K'_def add_dir_def insert_length bm_simps split: option.split)
qed

lemma guarded_cong: "k_blocked_dirs K' = k_blocked_dirs K \<Longrightarrow> guarded E K' = guarded E K"
  by (simp add: guarded_def)

lemma command_guard:
  assumes "guarded E K"
  shows "guarded E (apply_command E c K) \<and> blocked_keys K \<subseteq> blocked_keys (apply_command E c K)
    \<and> length (bm_entries (k_blocked_dirs (apply_command E c K))) \<le> Suc (length (bm_entries (k_blocked_dirs K)))"
proof -
  consider (clear) "c = CClearBlockedDirs" | (add) p where "c = CBlockDir p"
    | (other) "k_blocked_dirs (apply_command E c K) = k_blocked_dirs K"
    unfolding blocked_dirs_frame by (cases c) auto
  then show ?thesis
  proof cases
    case other
    then show ?thesis using assms guarded_cong[OF other] by (simp add: blocked_keys_def)
  next
    case clear
    then show ?thesis using clear_keeps_guard[OF assms] by (simp del: apply_command.simps)
  next
    case (add p)
    then show ?thesis using add_dir_guard[OF assms, of p] by simp
  qed
qed

interpretation dirs: monotone_system "\<lambda>K c. apply_command E c K" "guarded E" blocked_keys
  for E :: loader_env
  by unfold_locales (use command_guard in blast)+

lemma guard_run:
  "guarded E K \<Longrightarrow> guarded E (apply_commands E cs K) \<and> blocked_keys K \<subseteq> blocked_keys (apply_commands E cs K)"
  using dirs.run_inv[of E K cs] dirs.run_mono[of E K cs] by (simp add: apply_commands_foldl)

lemma guard_length:
  "guarded E K \<Longrightarrow> length (bm_entries (k_blocked_dirs (apply_commands E cs K)))
     \<le> length (bm_entries (k_blocked_dirs K)) + length cs"
proof (induction cs arbitrary: K)
  case (Cons c cs)
  have "guarded E (apply_command E c K)" using command_guard[OF Cons.prems] by blast
  from Cons.IH[OF this] command_guard[OF Cons.prems, of c] show ?case
    by (simp add: apply_commands_def del: apply_command.simps)
qed (simp add: apply_commands_def)

lemma under_blocked_mono:
  "guarded E K' \<Longrightarrow> blocked_keys K \<subseteq> blocked_keys K' \<Longrightarrow> under_dirs (k_blocked_dirs K) d \<Longrightarrow>
     dentry_under_blocked_dir K' d"
  by (auto simp: dentry_under_blocked_dir_def guarded_def Let_def under_dirs_def list_ex_iff blocked_keys_def
      split: option.splits)

lemma guarded_parent:
  "guarded E K \<Longrightarrow> bm_has (k_blocked_dirs K) k \<Longrightarrow> Some k \<in> set (take MAX_DIR_WALK (de_parents d)) \<Longrightarrow>
     dentry_under_blocked_dir K d"
  by (auto simp: dentry_under_blocked_dir_def guarded_def Let_def under_dirs_def list_ex_iff
      intro!: bexI[of _ "Some k"])

subsection \<open>The start-up sequence arms it\<close>

lemma load_dirs_room:
  assumes "room (n + 1 + length ds) m"
  shows "room n (load_dirs E ds m)"
proof (cases "ds = []")
  case False
  have p: "plain m" using assms by (simp add: room_def)
  let ?kvs = "map (\<lambda>k. (k, 1::nat)) (List.map_filter (resolve_dir_inode_key E) ds)"
  have "length ?kvs \<le> length ds" by (simp add: map_filter_def length_filter_le)
  moreover have "length (bm_entries (bm_insert sentinel 1 m)) \<le> Suc (length (bm_entries m))"
    using p by (simp add: insert_length)
  moreover have "length (bm_entries (insert_all ?kvs (bm_insert sentinel 1 m)))
      \<le> length (bm_entries (bm_insert sentinel 1 m)) + length ?kvs"
    using p by (intro insert_all_length) (simp add: bm_simps)
  ultimately show ?thesis using assms False unfolding load_dirs_def room_def by (simp add: bm_simps)
qed (use assms in \<open>simp add: load_dirs_def room_def\<close>)

lemma pin_frame [frame]:
  "k_blocked_dirs (fold (pin_rule E) rs K) = k_blocked_dirs K"
  by (induction rs arbitrary: K) (simp_all add: pin_rule_def frame Let_def split: option.split)

lemma pinned_config [frame]:
  "k_config (fold (block_inode_path E) ps K) = k_config K" "k_config (block_default_files K) = k_config K"
  by (induction ps arbitrary: K) (simp_all add: frame block_default_files_def)

lemma default_frame [frame]:
  "k_blocked_dirs (fold (block_inode_path E) ps K) = k_blocked_dirs K"
  "k_blocked_dirs (block_default_files K) = k_blocked_dirs K"
  by (induction ps arbitrary: K) (simp_all add: frame block_default_files_def)

lemma loaded_dirs:
  "\<exists>ds. length ds \<le> length (case data of None \<Rightarrow> [] | Some rs \<Rightarrow> rs)
     \<and> k_blocked_dirs (load_file_access_rules E data K) = load_dirs E ds (k_blocked_dirs K)"
proof -
  have nil: "load_dirs E [] m = m" for m by (simp add: load_dirs_def)
  show ?thesis
  proof (cases data)
    case (Some rules)
    let ?ds = "List.map_filter (\<lambda>r. map_option (dir_target (lv_fs E)) (index_str r ''pattern''))
      (filter (is_dir_rule (lv_fs E)) (filter (\<lambda>r. index_str r ''action'' = Some ''block'') rules))"
    have "length ?ds \<le> length rules"
      by (simp add: map_filter_def le_trans[OF length_filter_le])
    moreover have "k_blocked_dirs (load_file_access_rules E data K) =
        (if bm_present (k_blocked_files K) then load_dirs E ?ds (k_blocked_dirs K) else k_blocked_dirs K)"
      using Some by (simp add: load_file_access_rules_def Let_def frame)
    ultimately show ?thesis using Some nil
      by (cases "bm_present (k_blocked_files K)") (fastforce, metis list.size(3) option.simps(5) zero_le)
  qed (use nil in \<open>force simp: load_file_access_rules_def\<close>)
qed

lemma self_dir_keys_length: "length (self_dir_keys E) \<le> 3"
  by (simp add: self_dir_keys_def map_filter_def SELF_PROTECTED_DIRS_def)

lemma seed_guarded:
  assumes "self_dir_keys E \<noteq> []"
    and "room (5 + length (case data of None \<Rightarrow> [] | Some rs \<Rightarrow> rs)) (k_blocked_dirs K)"
  shows "guarded E (seed_kernel E data controls st pid K)"
proof -
  let ?K1 = "block_default_inodes E (block_default_files (K\<lparr>k_config := map_option (\<lambda>_. default_config) (k_config K)\<rparr>))"
  let ?kvs = "map (\<lambda>k. (k, 1::nat)) (self_dir_keys E)"
  obtain ds where ds: "length ds \<le> length (case data of None \<Rightarrow> [] | Some rs \<Rightarrow> rs)"
    "k_blocked_dirs (load_file_access_rules E data ?K1) = load_dirs E ds (k_blocked_dirs ?K1)"
    using loaded_dirs by blast
  define m where "m = load_dirs E ds (k_blocked_dirs K)"
  have "k_blocked_dirs ?K1 = k_blocked_dirs K"
    by (simp add: block_default_inodes_def frame)
  then have seeded: "k_blocked_dirs (seed_kernel E data controls st pid K) =
      bm_insert sentinel 1 (insert_all ?kvs m)"
    using assms(1) ds(2) by (simp add: seed_kernel_def Let_def frame m_def)
  have rm: "room 4 m" using assms(2) ds(1) unfolding m_def
    by (intro load_dirs_room) (simp add: room_def)
  define A where "A = insert_all ?kvs m"
  have p: "plain A" "bm_max A = bm_max m" using rm by (simp_all add: A_def bm_simps room_def)
  have len: "length (bm_entries A) < bm_max m"
    using insert_all_length[of m ?kvs] rm self_dir_keys_length[of E] by (simp add: A_def room_def)
  have "room (length ?kvs) m" using rm self_dir_keys_length[of E] by (simp add: room_def)
  then have keys: "bm_has A k" if "k \<in> set (self_dir_keys E)" for k
    using insert_all_has[of ?kvs m k] that by (force simp: A_def)
  show ?thesis
    unfolding guarded_def Let_def seeded A_def[symmetric] list_all_iff
    using p len keys assms(1) by (auto simp: bm_simps bm_has_insert[OF p(1)] insert_length[OF p(1)])
qed

text \<open>
  C9. Ring Zero's own directories stay out of every agent's reach: after the start-up, whatever
  commands follow, the clearing of the operator's directory rules included, a file within 32 levels
  of one of them is protected. (The map of directories has room for the rules file.)
\<close>
theorem self_protection_cannot_be_cleared:
  assumes "room (5 + length (case data of None \<Rightarrow> [] | Some rs \<Rightarrow> rs)) (k_blocked_dirs K)"
    and "k \<in> set (self_dir_keys E)" "Some k \<in> set (take MAX_DIR_WALK (de_parents d))"
  shows "is_dentry_protected (apply_commands E cs (seed_kernel E data controls st pid K)) d"
proof -
  let ?K = "seed_kernel E data controls st pid K"
  have g: "guarded E ?K" using assms by (intro seed_guarded) auto
  have "bm_has (k_blocked_dirs ?K) k" using g assms(2) by (auto simp: guarded_def Let_def list_all_iff)
  then have "k \<in> blocked_keys (apply_commands E cs ?K)" using guard_run[OF g, of cs] by (auto simp: blocked_keys_def)
  then show ?thesis using guarded_parent[of E "apply_commands E cs ?K" k d] guard_run[OF g, of cs] assms(3)
    by (auto simp: is_dentry_protected_def blocked_keys_def)
qed

text \<open>
  A directory rule that is taken away keeps refusing until the daemon restarts: whatever rules a
  save stores, none included, a file that was refused for the directory it is in before the save is
  still refused after it.
\<close>
theorem removed_directory_rule_still_refuses:
  assumes "update_file_access_rules dbg W saved (Some rules) = Inr (rs, ps)"
    and "guarded E K" "dentry_under_blocked_dir K d"
  shows "dentry_under_blocked_dir (apply_commands E (map command_of ps) K) d"
  using assms(3) under_blocked_mono[of E _ K d] guard_run[OF assms(2)]
  by (auto simp: dentry_under_blocked_dir_def)

section \<open>From a saved rule to a refused open\<close>

lemma config_frame:
  "k_config (apply_commands E (map command_of ps) K) = k_config K"
proof (induction ps arbitrary: K)
  case (Cons p ps)
  have "k_config (apply_command E (command_of p) K) = k_config K" by (cases p) (simp_all add: frame)
  with Cons show ?case by (simp add: apply_commands_def)
qed (simp add: apply_commands_def)

lemma block_dir_arms:
  assumes "guarded E K" "length (bm_entries (k_blocked_dirs K)) < bm_max (k_blocked_dirs K)"
    and "path_is_dir (lv_fs E) p" "resolve_dir_inode_key E p = Some k"
  shows "bm_has (k_blocked_dirs (apply_command E (CBlockDir p) K)) k"
proof -
  have "plain (k_blocked_dirs K)" "bm_has (k_blocked_dirs K) sentinel"
    using assms(1) by (auto simp: guarded_def Let_def)
  then show ?thesis using assms(2-4) by (auto simp: add_dir_def bm_has_insert bm_simps insert_length)
qed

lemma dirs_max: "bm_max (k_blocked_dirs (apply_commands E cs K)) = bm_max (k_blocked_dirs K)"
proof (induction cs arbitrary: K)
  case (Cons c cs)
  have "bm_max (k_blocked_dirs (apply_command E c K)) = bm_max (k_blocked_dirs K)"
    unfolding blocked_dirs_frame by (cases c) (simp_all add: frame add_dir_def bm_simps split: option.split)
  with Cons show ?case by (simp add: apply_commands_def del: apply_command.simps)
qed (simp add: apply_commands_def)

lemma pushed_dir_arms:
  assumes "guarded E K" "length (bm_entries (k_blocked_dirs K)) + length cs \<le> bm_max (k_blocked_dirs K)"
    and "CBlockDir p \<in> set cs" "path_is_dir (lv_fs E) p" "resolve_dir_inode_key E p = Some k"
  shows "bm_has (k_blocked_dirs (apply_commands E cs K)) k"
proof -
  obtain xs ys where cs: "cs = xs @ CBlockDir p # ys" using assms(3) by (meson split_list)
  let ?K1 = "apply_commands E xs K" and ?K2 = "apply_command E (CBlockDir p) (apply_commands E xs K)"
  have g1: "guarded E ?K1" using guard_run[OF assms(1)] by blast
  note max = dirs_max[of E xs K]
  have "bm_has (k_blocked_dirs ?K2) k"
    using guard_length[OF assms(1), of xs] assms(2) cs max
    by (intro block_dir_arms[OF g1 _ assms(4,5)]) simp
  moreover have "guarded E ?K2" using command_guard[OF g1] by blast
  then have "blocked_keys ?K2 \<subseteq> blocked_keys (apply_commands E ys ?K2)" using guard_run by blast
  ultimately show ?thesis by (auto simp: cs apply_commands_def blocked_keys_def simp del: apply_command.simps)
qed


section \<open>Profiles reach the kernel exactly\<close>

lemma swap_bytes_rev: "octets (swap_bytes w) = rev (octets w)"
proof -
  obtain a b c d where o: "octets w = [a, b, c, d]" by (simp add: octets_def Let_def)
  then show ?thesis using octets_less[of w] octets_of[of d c b a] by (simp add: swap_bytes_def)
qed

lemma octets_inj: "octets v = octets w \<Longrightarrow> v = w"
proof -
  assume e: "octets v = octets w"
  obtain a b c d where o: "octets w = [a, b, c, d]" by (simp add: octets_def Let_def)
  then have "octets v = [a, b, c, d]" using e by (rule trans[rotated])
  from ipv4_of_octets[OF this] ipv4_of_octets[OF o] show ?thesis by (rule subst)
qed

lemma swap_bytes_twice [simp]: "swap_bytes (swap_bytes w) = w"
  by (rule octets_inj) (simp add: swap_bytes_rev)

lemma ne_key_twice [simp]: "ne_key E (ne_key E w) = w"
  by (simp add: ne_key_def)

lemma name_slots_keys: "fst ` set (name_slots st) = comm_key ` fst ` set (kp_names st)"
proof -
  have "fst ` set (foldl (\<lambda>m (n, s). AList.update (comm_key n) s m) al ns) = fst ` set al \<union> comm_key ` fst ` set ns"
    for al :: "(string \<times> nat) list" and ns
    by (induction ns arbitrary: al) (auto simp: dom_update[unfolded dom_map_of_conv_image_fst] case_prod_beta)
  then show ?thesis by (simp add: name_slots_def)
qed

lemma sync_maps:
  assumes "room (length (program_keys st)) (k_programs K)" "room (length (host_keys E st)) (k_hosts K)"
    "room (length (name_slots st)) (k_by_name K)"
  defines "K' \<equiv> apply_command E (CSyncProfiles st) K"
  shows "bm_has (k_programs K') pk \<longleftrightarrow> pk \<in> set (program_keys st)"
    and "bm_has (k_hosts K') hk \<longleftrightarrow> hk \<in> set (host_keys E st)"
    and "bm_has (k_by_name K') nk \<longleftrightarrow> nk \<in> fst ` set (name_slots st)"
  using replace_set_has[of "map (\<lambda>k. (k, 1)) (program_keys st)" "k_programs K" pk]
    replace_set_has[of "map (\<lambda>k. (k, 1)) (host_keys E st)" "k_hosts K" hk]
    replace_set_has[of "name_slots st" "k_by_name K" nk] assms(1-3)
  by (simp_all add: K'_def apply_profiles_def Let_def replace_set_def image_image)


section \<open>Addresses\<close>

lemma parse_ip_key_show: "parse_ip_key (show_ipv4 w) = Some w"
  by (simp add: parse_ip_key_def parse_show_ipv4)

text \<open>
  On a little-endian machine a rule about an address acts on the address with its octets
  reversed: blocking \<open>1.2.3.4\<close> blocks connections to \<open>4.3.2.1\<close> and no other, and admitting an
  address learned from DNS admits its reverse. (The key is built with \<open>from_be_bytes\<close>, the kernel
  looks up the address as it is in memory; the profile hosts and the MCP servers are built with
  \<open>from_ne_bytes\<close> and do match.)
\<close>
theorem address_rules_act_on_reversed_octets:
  assumes "lv_le E" "room 1 (k_blocked_ips K)" "room 1 (k_egress_ips K)"
  shows "address_blocked E (apply_command E (CBlockIp (show_ipv4 w)) K) a
      = (address_blocked E K a \<or> octets a = rev (octets w))
    \<and> egress_allowed E (apply_command E (CAllowEgressIp (show_ipv4 w)) K) a
      = (egress_allowed E K a \<or> octets a = rev (octets w))"
proof -
  have "swap_bytes a = w \<longleftrightarrow> octets a = rev (octets w)"
    using swap_bytes_rev[of a] octets_inj[of "swap_bytes a" w] by (metis rev_rev_ident)
  moreover have "plain (k_blocked_ips K)" "length (bm_entries (k_blocked_ips K)) < bm_max (k_blocked_ips K)"
    "plain (k_egress_ips K)" "length (bm_entries (k_egress_ips K)) < bm_max (k_egress_ips K)"
    using assms(2,3) by (auto simp: room_def)
  ultimately show ?thesis using assms(1)
    by (auto simp: address_blocked_def egress_allowed_def ne_key_def with_ip_def parse_ip_key_show bm_has_insert
        bm_get_insert)
qed

section \<open>Names the agents need\<close>

lemma make_key_of_path: "CHR ''/'' \<notin> set n \<Longrightarrow> n \<noteq> [] \<Longrightarrow> make_file_key (p @ CHR ''/'' # n) = name_key n"
proof -
  assume n: "CHR ''/'' \<notin> set n" "n \<noteq> []"
  then have "trim_end_char (CHR ''/'') (p @ CHR ''/'' # n) = p @ CHR ''/'' # n"
    by (cases n rule: rev_cases) (auto simp: trim_end_char_def)
  then show ?thesis using n by (simp add: make_file_key_def blocked_file_key_def name_key_def last_segment_app)
qed

definition ssh_path :: "string \<Rightarrow> string" where
  "ssh_path n = ''/opt/.ssh/'' @ n"

lemma ssh_path_simps [simp]: "starts_with (ssh_path n) ''/''" "\<not> starts_with (ssh_path n) ''~''" "ssh_path n \<noteq> []"
  by (simp_all add: ssh_path_def)

definition ssh_rule :: "string \<Rightarrow> file_access_rule" where
  "ssh_rule n = \<lparr>fr_id = ''1'', fr_pattern = ssh_path n, fr_action = ''block'', fr_source = ''custom'',
     fr_kind = Some ''file'', fr_description = None\<rparr>"

lemma ssh_rule_simps [simp]:
  "fr_pattern (ssh_rule n) = ssh_path n" "fr_action (ssh_rule n) = ''block''"
  "fr_kind (ssh_rule n) = Some ''file''"
  by (simp_all add: ssh_rule_def)

lemma ssh_rule_kind [simp]: "ssh_rule n\<lparr>fr_kind := Some ''file''\<rparr> = ssh_rule n"
  by (simp add: ssh_rule_def)

lemma BRICKS_names:
  "n \<in> set BRICKS_AGENT \<Longrightarrow> trim (ssh_path n) = ssh_path n \<and> CHR ''/'' \<notin> set n \<and> n \<noteq> []
     \<and> \<not> has_glob (ssh_path n) \<and> \<not> noisy_name n \<and> contains (ssh_path n) ''.ssh''"
proof -
  have "list_all (\<lambda>n. trim (ssh_path n) = ssh_path n \<and> CHR ''/'' \<notin> set n \<and> n \<noteq> []
     \<and> \<not> has_glob (ssh_path n) \<and> \<not> noisy_name n \<and> contains (ssh_path n) ''.ssh'') BRICKS_AGENT"
    by code_simp
  then show "n \<in> set BRICKS_AGENT \<Longrightarrow> ?thesis" by (simp only: list_all_iff) blast
qed

lemma SSH_not_bricking: "find_map (\<lambda>n. map_option (\<lambda>why. (p, why)) (dangerous_path n)) SSH_NAMES = None"
proof -
  have "list_all (\<lambda>n. dangerous_path n = None) SSH_NAMES" by code_simp
  then show ?thesis by (auto simp: find_map_None list_all_iff)
qed

text \<open>
  The refusal to block what the agents need to run looks at the names a pattern is expanded to,
  and a path with \<open>.ssh\<close> in it is expanded to the key files whatever it ends in: for every program
  and library on the list, the rule for that name under \<open>/opt/.ssh\<close> is stored, and from then on every
  agent open of any file of that name, anywhere, is refused.
\<close>
theorem brick_guard_is_bypassed:
  assumes "n \<in> set BRICKS_AGENT" "de_name d = n"
    and "room 1 (k_blocked_files K)" "k_config K = Some c" "kc_enforce_blocks c"
  shows "\<exists>ps. update_file_access_rules dbg W (\<lambda>_. True) (Some [ssh_rule n]) = Inr ([ssh_rule n], ps)
    \<and> open_refused (apply_commands E (map command_of ps) K) w d"
proof -
  note b = BRICKS_names[OF assms(1)]
  let ?p = "ssh_path n"
  have names: "pattern_to_basenames ?p = SSH_NAMES"
    using b by (simp add: pattern_to_basenames_def expand_basenames_def)
  have e: "expand_rule_tilde W ?p = ?p" by (simp add: expand_rule_tilde_def)
  have push: "file_pushes W (ssh_rule n) = [PushBlockFile ?p]"
    using b by (simp add: file_pushes_def e Let_def)
  have "bricking (ssh_rule n) = None"
    using SSH_not_bricking by (simp add: bricking_def names)
  moreover have "validate_rule dbg W ?p KFile ''block'' = Inr ()"
    using b names by (simp add: validate_rule_def Let_def SSH_NAMES_def)
  ultimately have upd: "update_file_access_rules dbg W (\<lambda>_. True) (Some [ssh_rule n]) =
      Inr ([ssh_rule n], [PushBlockFile ?p, PushAllowedDir [], PushBlockedDir []])"
    by (simp add: update_file_access_rules_def dedup_def push allowed_dir_pushes_def blocked_dir_pushes_def
        Let_def)
  let ?K = "apply_commands E (map command_of [PushBlockFile ?p, PushAllowedDir [], PushBlockedDir []]) K"
  have "make_file_key ?p = name_key n" using make_key_of_path[of n "''/opt/.ssh''"] b by (simp add: ssh_path_def)
  then have "k_blocked_files ?K = bm_insert (name_key n) 1 (k_blocked_files K)"
    by (simp add: apply_commands_def frame)
  then have "blocked_entry ?K d = Some 1"
    using assms(2,3) by (simp add: blocked_entry_def bm_get_insert room_def)
  moreover have "k_config ?K = Some c" using config_frame assms(4) by metis
  ultimately have "open_refused ?K w d" using assms(2,5) b by (simp add: open_refused_def)
  with upd show ?thesis by blast
qed

section \<open>Witnesses\<close>

definition new_map :: "('k, 'v) bpf_map" where
  "new_map = \<lparr>bm_present = True, bm_max = 64, bm_evict = (\<lambda>_. None), bm_entries = []\<rparr>"

definition K_new :: kernel where
  "K_new = \<lparr>k_blocked_files = new_map, k_blocked_inodes = new_map, k_blocked_dirs = new_map,
     k_allowed_dirs = new_map, k_blocked_ips = new_map, k_key_ips = new_map, k_egress_ips = new_map,
     k_blocked_sends = new_map, k_descendants = new_map, k_contained = new_map,
     k_contained_exec = new_map, k_verdicts = new_map, k_taint = new_map, k_denied_programs = new_map,
     k_readonly_names = new_map, k_mcp4 = new_map, k_mcp6 = new_map, k_programs = new_map,
     k_hosts = new_map, k_by_name = new_map, k_policies = None, k_config = Some default_config,
     k_pkg_guard = None, k_daemon_pid = None, k_guard_on = False\<rparr>"

text \<open>The machine of the file-rule witnesses, with Ring Zero's own directory.\<close>

definition W_rz :: fs_world where
  "W_rz = W_dev\<lparr>fw_stat := (\<lambda>p. if p = ''/etc/ringzero''
     then Some \<lparr>fm_dir = True, fm_file = False, fm_dev = 1, fm_ino = 3\<rparr> else fw_stat W_dev p)\<rparr>"

definition E_rz :: loader_env where
  "E_rz = \<lparr>lv_le = True, lv_fs = W_rz, lv_major = (\<lambda>_. 0), lv_minor = (\<lambda>_. 1), lv_now = 0,
     lv_enforcing = True\<rparr>"

definition rz_key :: ino_key where
  "rz_key = \<lparr>ik_ino = 3, ik_dev = 1\<rparr>"

definition dev_key :: ino_key where
  "dev_key = \<lparr>ik_ino = 7, ik_dev = 1\<rparr>"

lemma new_map_room: "n \<le> 64 \<Longrightarrow> room n new_map"
  by (simp add: room_def plain_def new_map_def)

lemma rz_keys: "self_dir_keys E_rz = [rz_key]" "resolve_dir_inode_key E_rz ''/home/dev/projects'' = Some dev_key"
  by (simp_all add: self_dir_keys_def SELF_PROTECTED_DIRS_def map_filter_simps resolve_dir_inode_key_def
      E_rz_def W_rz_def W_dev_def kernel_ino_key_def rz_key_def dev_key_def)

abbreviation no_profiles :: kernel_profiles where
  "no_profiles \<equiv> \<lparr>kp_names = [], kp_policies = [], kp_programs = [], kp_hosts = []\<rparr>"

abbreviation no_controls :: controls_section where
  "no_controls \<equiv> \<lparr>cs_admin_tools = False, cs_escape_tools = False, cs_instruction_files = False,
     cs_package_installs = False\<rparr>"

definition K_up :: kernel where
  "K_up = seed_kernel E_rz None no_controls no_profiles 5 K_new"

lemma K_up_guarded: "guarded E_rz K_up"
  unfolding K_up_def by (rule seed_guarded) (simp_all add: rz_keys K_new_def new_map_room)

text \<open>The directories above a file, and a file in one of them.\<close>

definition file_in :: "ino_key \<Rightarrow> string \<Rightarrow> dentry" where
  "file_in k n = \<lparr>de_name = n, de_inode = None, de_parents = [None, Some k]\<rparr>"

lemma file_in_parent: "Some k \<in> set (take MAX_DIR_WALK (de_parents (file_in k n)))"
  by (simp add: file_in_def MAX_DIR_WALK_def numeral_eq_Suc)

theorem taint_is_never_lowered_witness:
  "\<exists>t'. bm_get (k_taint (apply_commands E_rz [CSetTaint 7 False, CReleasePid 7]
           (apply_command E_rz (CSetTaint 7 True) K_new))) 7 = Some t' \<and> ti_has_keys t'"
proof -
  let ?K = "apply_command E_rz (CSetTaint 7 True) K_new"
  have "plain (k_taint ?K)" by (simp add: raise_taint_def Let_def bm_simps K_new_def plain_def new_map_def)
  moreover have "bm_get (k_taint ?K) 7 = Some \<lparr>ti_tainted = True, ti_has_keys = True, ti_time = 0\<rparr>"
    by (simp add: raise_taint_def Let_def K_new_def new_map_def bm_insert_def bm_get_def bm_has_def E_rz_def)
  ultimately show ?thesis using taint_is_never_lowered[of ?K 7 _ E_rz "[CSetTaint 7 False, CReleasePid 7]"]
    by fastforce
qed

theorem self_protection_cannot_be_cleared_witness:
  "is_dentry_protected (apply_commands E_rz [CClearBlockedDirs, CUnblockFile ''daemon.toml'']
     (seed_kernel E_rz None no_controls no_profiles 5 K_new)) (file_in rz_key ''daemon.toml'')"
  by (rule self_protection_cannot_be_cleared[of _ _ rz_key])
    (simp_all add: rz_keys K_new_def new_map_room file_in_parent)

theorem removed_directory_rule_still_refuses_witness:
  "save_dev [] = Inr ([], [PushAllowedDir [], PushBlockedDir []])
   \<and> dentry_under_blocked_dir
       (apply_commands E_rz (map command_of [PushAllowedDir [], PushBlockedDir []])
         (apply_command E_rz (CBlockDir ''/home/dev/projects'') K_up)) (file_in dev_key ''a.txt'')"
proof -
  let ?K = "apply_command E_rz (CBlockDir ''/home/dev/projects'') K_up"
  have s: "save_dev [] = Inr ([], [PushAllowedDir [], PushBlockedDir []])" by code_simp
  have g: "guarded E_rz ?K" using command_guard[OF K_up_guarded] by blast
  have "length (bm_entries (k_blocked_dirs K_up)) < bm_max (k_blocked_dirs K_up)"
    by (simp add: K_up_def seed_kernel_def Let_def frame rz_keys load_file_access_rules_def K_new_def
        block_default_inodes_def new_map_def bm_insert_def bm_has_def bm_get_def)
  moreover have "path_is_dir (lv_fs E_rz) ''/home/dev/projects''"
    by (simp add: path_is_dir_def E_rz_def W_rz_def W_dev_def)
  ultimately have "bm_has (k_blocked_dirs ?K) dev_key"
    using block_dir_arms[OF K_up_guarded] rz_keys by blast
  from removed_directory_rule_still_refuses[OF s g guarded_parent[OF g this file_in_parent]] s
  show ?thesis by blast
qed

lemma save_rz:
  "update_file_access_rules id W_rz (\<lambda>_. True) (Some two_spellings)
     = Inr ([stored_row], [PushAllowedDir [], PushBlockedDir ''/home/dev/projects''])"
  by code_simp

lemma K_up_simps:
  "length (bm_entries (k_blocked_dirs K_up)) = 2" "bm_max (k_blocked_dirs K_up) = 64"
  "k_config K_up = Some default_config"
  by (simp_all add: K_up_def seed_kernel_def Let_def frame rz_keys load_file_access_rules_def K_new_def
      block_default_inodes_def new_map_def bm_insert_def bm_has_def bm_get_def sentinel_def rz_key_def)


definition claude_profile :: kernel_profiles where
  "claude_profile = \<lparr>kp_names = [(''claude'', 2)], kp_policies = [(2, True, True, True)],
     kp_programs = [(2, ''git'')], kp_hosts = [(2, ipv4_of 1 2 3 4, 32)]\<rparr>"


theorem address_rules_act_on_reversed_octets_witness:
  "address_blocked E_rz (apply_command E_rz (CBlockIp ''5.6.7.8'') K_new) (ipv4_of 8 7 6 5)
   \<and> \<not> address_blocked E_rz (apply_command E_rz (CBlockIp ''5.6.7.8'') K_new) (ipv4_of 5 6 7 8)"
proof -
  have o: "octets (ipv4_of 8 7 6 5) = [8, 7, 6, 5]" "octets (ipv4_of 5 6 7 8) = [5, 6, 7, 8]"
    by (simp_all add: octets_of)
  have sh: "show_ipv4 (ipv4_of 5 6 7 8) = ''5.6.7.8''"
    unfolding show_ipv4_def o by code_simp
  have none: "\<not> address_blocked E_rz K_new a" for a
    by (simp add: address_blocked_def K_new_def new_map_def bm_has_def bm_get_def)
  have "lv_le E_rz" "room 1 (k_blocked_ips K_new)" "room 1 (k_egress_ips K_new)"
    by (simp_all add: E_rz_def K_new_def new_map_room)
  note a = address_rules_act_on_reversed_octets[OF this, of "ipv4_of 5 6 7 8", unfolded sh o]
  show ?thesis using a[of "ipv4_of 8 7 6 5"] a[of "ipv4_of 5 6 7 8"] none
    by (simp add: o del: apply_command.simps)
qed

theorem brick_guard_is_bypassed_witness:
  "\<exists>ps. update_file_access_rules id W_dev (\<lambda>_. True) (Some [ssh_rule ''bash'']) = Inr ([ssh_rule ''bash''], ps)
    \<and> open_refused (apply_commands E_rz (map command_of ps) K_new) False (file_in dev_key ''bash'')"
  by (rule brick_guard_is_bypassed[of _ _ _ default_config])
    (simp_all add: BRICKS_AGENT_def file_in_def K_new_def new_map_room default_config_def)

end
