(* ===== verification/Observer.thy ===== *)
theory Observer
  imports Events
begin

text \<open>
  agent/src/analyzer/observer.rs: the activity classes, the default profile of an agent, the policy
  of a session, the glob matcher of scoped rules and the engine that judges every event of a
  session against its policy. \<open>lower\<close> is \<open>str::to_lowercase\<close>, \<open>home\<close> the HOME of the daemon (empty
  when unset), \<open>now\<close> the clock.
\<close>

section \<open>Activities and actions\<close>

datatype activity_class =
    AcFileRead | AcFileWrite | AcFileDelete | AcProcessExec | AcProcessFork
  | AcNetworkConnect | AcNetworkSend | AcDnsQuery | AcCredentialAccess | AcPrivilegeEscalation
  | AcApiKeyRouting | AcAgentSpeech

definition activity_name :: "activity_class \<Rightarrow> string" where
  "activity_name c =
     (case c of
        AcFileRead \<Rightarrow> ''file_read'' | AcFileWrite \<Rightarrow> ''file_write'' | AcFileDelete \<Rightarrow> ''file_delete''
      | AcProcessExec \<Rightarrow> ''process_exec'' | AcProcessFork \<Rightarrow> ''process_fork''
      | AcNetworkConnect \<Rightarrow> ''network_connect'' | AcNetworkSend \<Rightarrow> ''network_send''
      | AcDnsQuery \<Rightarrow> ''dns_query'' | AcCredentialAccess \<Rightarrow> ''credential_access''
      | AcPrivilegeEscalation \<Rightarrow> ''privilege_escalation'' | AcApiKeyRouting \<Rightarrow> ''api_key_routing''
      | AcAgentSpeech \<Rightarrow> ''agent_speech'')"

datatype baseline_action = BaAllow | BaAllowScoped "string list" | BaWarn | BaBlock

record activity_rule =
  ar_class :: activity_class
  ar_action :: baseline_action
  ar_description :: string

record agent_profile =
  ap_agent_type :: string
  ap_label :: string
  ap_description :: string
  ap_rules :: "activity_rule list"

definition rule :: "activity_class \<Rightarrow> baseline_action \<Rightarrow> string \<Rightarrow> activity_rule" where
  "rule c a d = \<lparr>ar_class = c, ar_action = a, ar_description = d\<rparr>"

section \<open>The default profiles\<close>

definition coding_profile :: "string \<Rightarrow> agent_profile" where
  "coding_profile t =
     \<lparr>ap_agent_type = t, ap_label = ''Coding Agent'',
      ap_description = ''File read/write in project scope, build tools, no credential access'',
      ap_rules =
        [rule AcFileRead BaAllow ''Read any file'',
         rule AcFileWrite BaAllow ''Write files (scoped to project if declared_scope set)'',
         rule AcFileDelete BaWarn ''File deletion flagged for review'',
         rule AcProcessExec BaWarn ''Process execution logged (not blocked)'',
         rule AcProcessFork BaAllow ''Process forking allowed for build tools'',
         rule AcNetworkConnect BaWarn ''Network connections logged'',
         rule AcNetworkSend BaWarn ''Outbound data logged'',
         rule AcDnsQuery BaAllow ''DNS allowed (package registries, APIs)'',
         rule AcApiKeyRouting
           (BaAllowScoped
              [''api.anthropic.com'', ''*.anthropic.com'', ''*.claude.com'', ''api.openai.com'',
               ''*.openai.com'', ''api.github.com'', ''*.googleapis.com''])
           ''API keys may only be sent to whitelisted provider endpoints. DLP blocks exfiltration to unauthorized domains.'',
         rule AcCredentialAccess BaBlock ''No credential file access'',
         rule AcPrivilegeEscalation BaBlock ''No privilege escalation'']\<rparr>"

definition research_profile :: "string \<Rightarrow> agent_profile" where
  "research_profile t =
     \<lparr>ap_agent_type = t, ap_label = ''Research Agent'',
      ap_description = ''Web fetch only, no file write outside reports, no process exec'',
      ap_rules =
        [rule AcFileRead BaAllow ''Read files for context'',
         rule AcFileWrite (BaAllowScoped [''~/reports/**'', ''~/Downloads/**'', ''/tmp/**''])
           ''Write only to reports/downloads/tmp'',
         rule AcFileDelete BaBlock ''No file deletion'',
         rule AcProcessExec BaWarn ''Process execution logged (not blocked)'',
         rule AcProcessFork BaWarn ''Process forking logged (not blocked)'',
         rule AcNetworkConnect BaAllow ''Web browsing allowed'',
         rule AcNetworkSend BaWarn ''Outbound data logged'',
         rule AcDnsQuery BaAllow ''DNS allowed'',
         rule AcCredentialAccess BaBlock ''No credential access'',
         rule AcPrivilegeEscalation BaBlock ''No privilege escalation'']\<rparr>"

definition default_profile :: "string \<Rightarrow> agent_profile" where
  "default_profile t =
     \<lparr>ap_agent_type = t, ap_label = ''Default (Restrictive)'',
      ap_description = ''Conservative defaults '' @ EM_DASH
        @ '' block process exec, credential access, privilege escalation'',
      ap_rules =
        [rule AcFileRead BaAllow ''Read allowed'',
         rule AcFileWrite BaWarn ''File writes logged'',
         rule AcFileDelete BaBlock ''No file deletion'',
         rule AcProcessExec BaWarn ''Process execution logged (not blocked)'',
         rule AcProcessFork BaWarn ''Process forking logged (not blocked)'',
         rule AcNetworkConnect BaWarn ''Network connections logged'',
         rule AcNetworkSend BaWarn ''Outbound data logged'',
         rule AcDnsQuery BaAllow ''DNS allowed'',
         rule AcCredentialAccess BaBlock ''No credential access'',
         rule AcPrivilegeEscalation BaBlock ''No privilege escalation'']\<rparr>"

definition default_profile_for :: "(string \<Rightarrow> string) \<Rightarrow> string \<Rightarrow> agent_profile" where
  "default_profile_for lower t =
     (if lower t \<in> {''claude'', ''cursor'', ''copilot'', ''codex'', ''aider'', ''windsurf'', ''cody'',
                    ''devin'', ''gemini''} then coding_profile t
      else if lower t = ''chatgpt'' then research_profile t
      else default_profile t)"

definition list_profiles :: "agent_profile list" where
  "list_profiles = [coding_profile ''coding'', research_profile ''research'', default_profile ''default'']"

lemma default_profile_cases:
  "default_profile_for lower t \<in> {coding_profile t, research_profile t, default_profile t}"
  by (simp add: default_profile_for_def)

section \<open>The policy of a session\<close>

record session_policy =
  sp_session_id :: string
  sp_agent_type :: string
  sp_profile_label :: string
  sp_profile_description :: string
  sp_rules :: "activity_rule list"
  sp_declared_scope :: "string list"
  sp_created_at :: timestamp
  sp_updated_at :: timestamp

definition from_profile :: "timestamp \<Rightarrow> string \<Rightarrow> agent_profile \<Rightarrow> string list \<Rightarrow> session_policy" where
  "from_profile now sid p scope =
     \<lparr>sp_session_id = sid, sp_agent_type = ap_agent_type p, sp_profile_label = ap_label p,
      sp_profile_description = ap_description p, sp_rules = ap_rules p, sp_declared_scope = scope,
      sp_created_at = now, sp_updated_at = now\<rparr>"

definition rule_for :: "session_policy \<Rightarrow> activity_class \<Rightarrow> activity_rule option" where
  "rule_for p c = List.find (\<lambda>r. ar_class r = c) (sp_rules p)"

record baseline_violation =
  bv_session_id :: string
  bv_event_id :: string
  bv_activity_class :: activity_class
  bv_action_taken :: string
  bv_rule_description :: string
  bv_process :: string
  bv_target :: string
  bv_pid :: pid
  bv_timestamp :: timestamp

section \<open>Classification\<close>

definition CREDENTIAL_PATTERNS :: "string list" where
  "CREDENTIAL_PATTERNS =
     [''id_rsa'', ''id_ed25519'', ''id_ecdsa'', ''id_dsa'', ''.ssh/'', ''.aws/credentials'',
      ''.aws/config'', ''.env'', ''.npmrc'', ''.pypirc'', ''.netrc'', ''credentials'', ''keychain'',
      ''vault'', ''passwd'', ''shadow'', ''private_key'', ''secret'', ''token'', ''api_key'',
      ''.kube/config'', ''.docker/config'']"

definition is_credential_access :: "(string \<Rightarrow> string) \<Rightarrow> string \<Rightarrow> bool" where
  "is_credential_access lower target = list_ex (contains (lower target)) CREDENTIAL_PATTERNS"

definition classify_event :: "(string \<Rightarrow> string) \<Rightarrow> security_event \<Rightarrow> activity_class" where
  "classify_event lower ev =
     (case ev_kind ev of
        FileOpen \<Rightarrow>
          (if is_credential_access lower (ev_target ev) then AcCredentialAccess else AcFileRead)
      | FileCreate \<Rightarrow> AcFileWrite
      | FileWrite \<Rightarrow> AcFileWrite
      | FileDelete \<Rightarrow> AcFileDelete
      | FileRename \<Rightarrow> AcFileDelete
      | ProcessExec \<Rightarrow> AcProcessExec
      | ProcessFork \<Rightarrow> AcProcessFork
      | ProcessExit \<Rightarrow> AcProcessFork
      | NetworkConnect \<Rightarrow> AcNetworkConnect
      | NetworkSend \<Rightarrow> AcNetworkSend
      | DnsQuery \<Rightarrow> AcDnsQuery
      | _ \<Rightarrow> AcFileRead)"

section \<open>Globs\<close>

text \<open>
  \<open>simple_glob\<close>: the pieces between the stars, each found at its first occurrence after the one
  before it; \<open>at_start\<close> is \<open>i == 0\<close>, the text what follows \<open>pos\<close>.
\<close>

fun glob_pieces :: "bool \<Rightarrow> string list \<Rightarrow> string \<Rightarrow> bool" where
  "glob_pieces at_start [] t = True"
| "glob_pieces at_start (p # ps) t =
     (if p = [] then glob_pieces False ps t
      else case find_str t p of
             Some found \<Rightarrow>
               if at_start \<and> found \<noteq> 0 then False
               else glob_pieces False ps (drop (found + length p) t)
           | None \<Rightarrow> False)"

definition simple_glob :: "string \<Rightarrow> string \<Rightarrow> bool" where
  "simple_glob pattern t =
     (let parts = split_on (\<lambda>c. c = CHR ''*'') pattern
      in if length parts = 1 then pattern = t else glob_pieces True parts t)"

definition glob_match :: "string \<Rightarrow> string \<Rightarrow> string \<Rightarrow> bool" where
  "glob_match home pattern path =
     (let expanded = replace_char (CHR ''~'') home pattern;
          parts = split_str ''**'' expanded
      in if length parts = 1 then simple_glob expanded path
         else let prefix = trim_end_char (CHR ''/'') (hd parts)
              in \<not> (prefix \<noteq> [] \<and> \<not> starts_with path prefix))"

section \<open>Judging an event\<close>

definition violation ::
  "string \<Rightarrow> string \<Rightarrow> activity_class \<Rightarrow> security_event \<Rightarrow> string \<Rightarrow> baseline_violation" where
  "violation taken desc c ev sid =
     \<lparr>bv_session_id = sid, bv_event_id = ev_id ev, bv_activity_class = c, bv_action_taken = taken,
      bv_rule_description = desc, bv_process = ev_process ev, bv_target = ev_target ev,
      bv_pid = ev_pid ev, bv_timestamp = ev_timestamp ev\<rparr>"

definition evaluate_rule ::
  "(string \<Rightarrow> string) \<Rightarrow> string \<Rightarrow> activity_rule \<Rightarrow> security_event \<Rightarrow> string \<Rightarrow> activity_class
     \<Rightarrow> baseline_violation option" where
  "evaluate_rule lower home r ev sid c =
     (case ar_action r of
        BaAllow \<Rightarrow> None
      | BaAllowScoped patterns \<Rightarrow>
          (if c = AcProcessExec then
             (if list_ex (\<lambda>p. contains (lower (last_segment (ev_target ev))) (lower p)) patterns
              then None
              else Some (violation ''warned''
                     (''Unlisted exec observed (not in scope) '' @ EM_DASH @ '' '' @ ar_description r)
                     c ev sid))
           else if list_ex (\<lambda>p. glob_match home p (ev_target ev)) patterns then None
           else Some (violation ''blocked'' (ar_description r) c ev sid))
      | BaWarn \<Rightarrow> Some (violation ''warned'' (ar_description r) c ev sid)
      | BaBlock \<Rightarrow> Some (violation ''blocked'' (ar_description r) c ev sid))"

section \<open>The engine\<close>

record observer_engine =
  oe_policies :: "string \<rightharpoonup> session_policy"
  oe_violations :: "baseline_violation list"

definition new_observer :: observer_engine where
  "new_observer = \<lparr>oe_policies = Map.empty, oe_violations = []\<rparr>"

definition assign_policy ::
  "(string \<Rightarrow> string) \<Rightarrow> timestamp \<Rightarrow> string \<Rightarrow> string \<Rightarrow> string list \<Rightarrow> observer_engine \<Rightarrow> observer_engine"
where
  "assign_policy lower now sid agent_type scope E =
     E\<lparr>oe_policies :=
         (oe_policies E)(sid \<mapsto> from_profile now sid (default_profile_for lower agent_type) scope)\<rparr>"

definition get_policy :: "observer_engine \<Rightarrow> string \<Rightarrow> session_policy option" where
  "get_policy E sid = oe_policies E sid"

text \<open>The first rule of the class is replaced in place.\<close>

fun replace_rule :: "activity_rule \<Rightarrow> activity_rule list \<Rightarrow> activity_rule list option" where
  "replace_rule r [] = None"
| "replace_rule r (q # qs) =
     (if ar_class q = ar_class r then Some (r # qs) else map_option ((#) q) (replace_rule r qs))"

definition update_rule ::
  "timestamp \<Rightarrow> string \<Rightarrow> activity_rule \<Rightarrow> observer_engine \<Rightarrow> observer_engine \<times> bool" where
  "update_rule now sid r E =
     (case oe_policies E sid of
        None \<Rightarrow> (E, False)
      | Some p \<Rightarrow>
          (case replace_rule r (sp_rules p) of
             None \<Rightarrow> (E, False)
           | Some rs \<Rightarrow>
               (E\<lparr>oe_policies :=
                    (oe_policies E)(sid \<mapsto> p\<lparr>sp_rules := rs, sp_updated_at := now\<rparr>)\<rparr>, True)))"

definition remove_policy :: "string \<Rightarrow> observer_engine \<Rightarrow> observer_engine" where
  "remove_policy sid E = E\<lparr>oe_policies := (oe_policies E)(sid := None)\<rparr>"

definition recent_violations :: "nat \<Rightarrow> observer_engine \<Rightarrow> baseline_violation list" where
  "recent_violations limit E = take limit (rev (oe_violations E))"

definition session_violations :: "string \<Rightarrow> observer_engine \<Rightarrow> baseline_violation list" where
  "session_violations sid E = filter (\<lambda>v. bv_session_id v = sid) (oe_violations E)"

definition active_session_ids :: "observer_engine \<Rightarrow> string set" where
  "active_session_ids E = dom (oe_policies E)"

definition push_violation :: "baseline_violation \<Rightarrow> observer_engine \<Rightarrow> observer_engine" where
  "push_violation v E =
     (let vs = oe_violations E @ [v]
      in E\<lparr>oe_violations := (if 500 < length vs then tl vs else vs)\<rparr>)"

text \<open>What \<open>evaluate\<close> finds, before it records it.\<close>

definition judge ::
  "(string \<Rightarrow> string) \<Rightarrow> string \<Rightarrow> session_policy \<Rightarrow> security_event \<Rightarrow> string
     \<Rightarrow> baseline_violation option" where
  "judge lower home p ev sid =
     (let c = classify_event lower ev;
          by_class = (case rule_for p c of
                        None \<Rightarrow> None
                      | Some r \<Rightarrow> evaluate_rule lower home r ev sid c)
      in if is_credential_access lower (ev_target ev) \<and> c \<noteq> AcCredentialAccess then
           (case rule_for p AcCredentialAccess of
              None \<Rightarrow> by_class
            | Some r \<Rightarrow>
                (case evaluate_rule lower home r ev sid AcCredentialAccess of
                   Some v \<Rightarrow> Some v
                 | None \<Rightarrow> by_class))
         else by_class)"

definition observe ::
  "(string \<Rightarrow> string) \<Rightarrow> string \<Rightarrow> security_event \<Rightarrow> string \<Rightarrow> observer_engine
     \<Rightarrow> observer_engine \<times> baseline_violation option" where
  "observe lower home ev sid E =
     (case oe_policies E sid of
        None \<Rightarrow> (E, None)
      | Some p \<Rightarrow>
          (case judge lower home p ev sid of
             None \<Rightarrow> (E, None)
           | Some v \<Rightarrow> (push_violation v E, Some v)))"

section \<open>Histories\<close>

datatype observer_op =
    ObAssign timestamp string string "string list"
  | ObUpdate timestamp string activity_rule
  | ObRemove string
  | ObEvent security_event string

fun observer_step ::
  "(string \<Rightarrow> string) \<Rightarrow> string \<Rightarrow> observer_engine \<Rightarrow> observer_op \<Rightarrow> observer_engine" where
  "observer_step lower home E (ObAssign now sid t scope) = assign_policy lower now sid t scope E"
| "observer_step lower home E (ObUpdate now sid r) = fst (update_rule now sid r E)"
| "observer_step lower home E (ObRemove sid) = remove_policy sid E"
| "observer_step lower home E (ObEvent ev sid) = fst (observe lower home ev sid E)"

text \<open>The violations an operation reports.\<close>

fun reported ::
  "(string \<Rightarrow> string) \<Rightarrow> string \<Rightarrow> observer_engine \<Rightarrow> observer_op \<Rightarrow> baseline_violation list" where
  "reported lower home E (ObEvent ev sid) =
     (case snd (observe lower home ev sid E) of None \<Rightarrow> [] | Some v \<Rightarrow> [v])"
| "reported lower home E _ = []"

lemma push_violation_items:
  "length (oe_violations E) \<le> 500 \<Longrightarrow>
   oe_violations (push_violation v E) = last_n 500 (oe_violations E @ [v])"
  by (simp add: push_violation_def Let_def last_n_push)

lemma update_rule_violations [simp]: "oe_violations (fst (update_rule now sid r E)) = oe_violations E"
  by (simp add: update_rule_def split: option.split)

lemma observe_policies [simp]: "oe_policies (fst (observe lower home ev sid E)) = oe_policies E"
  by (simp add: observe_def push_violation_def Let_def split: option.split)

interpretation violations: bounded_log "observer_step lower home" "oe_violations :: observer_engine \<Rightarrow> _" "reported lower home" 500
  for lower home
proof
  fix E :: observer_engine and e
  assume "length (oe_violations E) \<le> 500"
  then show "oe_violations (observer_step lower home E e)
             = last_n 500 (oe_violations E @ reported lower home E e)"
    by (cases e) (auto simp: assign_policy_def remove_policy_def observe_def push_violation_items
        split: option.splits)
qed

text \<open>
  The buffer of violations is exactly the last five hundred of everything the engine has ever
  reported, in the order it was reported, after any history of assignments, rule changes, removals
  and events; the newest are listed first, and a session is shown its own among them.
\<close>

theorem violations_are_the_last_reported:
  "oe_violations (foldl (observer_step lower home) new_observer ops)
     = last_n 500 (produced (observer_step lower home) (reported lower home) new_observer ops)"
  and "length (recent_violations n (foldl (observer_step lower home) new_observer ops)) \<le> 500"
  and "session_violations sid (foldl (observer_step lower home) new_observer ops)
     = filter (\<lambda>v. bv_session_id v = sid)
         (last_n 500 (produced (observer_step lower home) (reported lower home) new_observer ops))"
  using violations.items_run[of new_observer lower home ops]
    violations.items_bounded[of new_observer lower home ops]
  by (simp_all add: new_observer_def recent_violations_def session_violations_def)

section \<open>Credential access\<close>

lemma replace_rule_find:
  "replace_rule r rs = Some rs' \<Longrightarrow> c \<noteq> ar_class r \<Longrightarrow>
   List.find (\<lambda>q. ar_class q = c) rs' = List.find (\<lambda>q. ar_class q = c) rs"
  by (induction r rs arbitrary: rs' rule: replace_rule.induct) (auto split: if_splits)

text \<open>The session has a policy whose credential rule blocks.\<close>

definition guards_credentials :: "string \<Rightarrow> observer_engine \<Rightarrow> bool" where
  "guards_credentials sid E =
     (case oe_policies E sid of
        None \<Rightarrow> False
      | Some p \<Rightarrow> map_option ar_action (rule_for p AcCredentialAccess) = Some BaBlock)"

text \<open>An operation that takes the session's policy away or changes its credential rule.\<close>

fun lifts_guard :: "string \<Rightarrow> observer_op \<Rightarrow> bool" where
  "lifts_guard sid (ObUpdate now s r) = (s = sid \<and> ar_class r = AcCredentialAccess)"
| "lifts_guard sid (ObRemove s) = (s = sid)"
| "lifts_guard sid _ = False"

lemma default_profile_guards:
  "map_option ar_action
     (List.find (\<lambda>r. ar_class r = AcCredentialAccess) (ap_rules (default_profile_for lower t)))
   = Some BaBlock"
  using default_profile_cases[of lower t]
  by (auto simp: coding_profile_def research_profile_def default_profile_def rule_def)

lemma assign_guards: "guards_credentials sid (assign_policy lower now sid t scope E)"
  using default_profile_guards[of lower t]
  by (simp add: guards_credentials_def assign_policy_def from_profile_def rule_for_def)

lemma guard_kept:
  assumes "guards_credentials sid E" and "\<not> lifts_guard sid e"
  shows "guards_credentials sid (observer_step lower home E e)"
proof (cases e)
  case (ObAssign now s t scope)
  then show ?thesis
    using assms assign_guards[of sid lower now t scope E]
    by (cases "s = sid") (simp_all add: guards_credentials_def assign_policy_def)
next
  case (ObUpdate now s r)
  then show ?thesis
    using assms
    by (cases "s = sid")
      (auto simp: guards_credentials_def update_rule_def rule_for_def replace_rule_find
        split: option.splits)
next
  case (ObRemove s)
  then show ?thesis using assms by (simp add: guards_credentials_def remove_policy_def)
next
  case (ObEvent ev s)
  then show ?thesis using assms by (simp add: guards_credentials_def)
qed

lemma baseline_guard_run:
  "guards_credentials sid E \<Longrightarrow> list_all (\<lambda>e. \<not> lifts_guard sid e) es
   \<Longrightarrow> guards_credentials sid (foldl (observer_step lower home) E es)"
  by (induction es arbitrary: E) (simp_all add: guard_kept)

lemma guard_blocks:
  assumes "guards_credentials sid E" and "is_credential_access lower (ev_target ev)"
  shows "\<exists>v. snd (observe lower home ev sid E) = Some v
           \<and> bv_activity_class v = AcCredentialAccess \<and> bv_action_taken v = ''blocked''
           \<and> bv_event_id v = ev_id ev \<and> bv_session_id v = sid"
proof -
  obtain p r where p: "oe_policies E sid = Some p" "rule_for p AcCredentialAccess = Some r"
    "ar_action r = BaBlock"
    using assms(1) by (auto simp: guards_credentials_def split: option.splits)
  then have "evaluate_rule lower home r ev sid AcCredentialAccess
             = Some (violation ''blocked'' (ar_description r) AcCredentialAccess ev sid)"
    by (simp add: evaluate_rule_def)
  then have "judge lower home p ev sid
             = Some (violation ''blocked'' (ar_description r) AcCredentialAccess ev sid)"
    using assms(2) p by (simp add: judge_def Let_def)
  then show ?thesis using p by (simp add: observe_def violation_def)
qed

text \<open>
  C33. Once a session has been given its default policy, whatever the agent is, every event of any
  kind whose target names a credential file is reported as a blocked credential access, whatever
  happens to the other rules and sessions in between, until the policy is removed or its
  credential rule is edited.
\<close>

theorem credentials_stay_blocked:
  assumes "list_all (\<lambda>e. \<not> lifts_guard sid e) later"
    and "is_credential_access lower (ev_target ev)"
  shows "\<exists>v. snd (observe lower home ev sid
                (foldl (observer_step lower home) E (earlier @ ObAssign now sid t scope # later)))
              = Some v
           \<and> bv_activity_class v = AcCredentialAccess \<and> bv_action_taken v = ''blocked''
           \<and> bv_event_id v = ev_id ev \<and> bv_session_id v = sid"
  using assms by (simp add: guard_blocks baseline_guard_run assign_guards)

theorem credentials_stay_blocked_witness:
  "\<exists>v. snd (observe id ''/root'' (blank_event\<lparr>ev_kind := NetworkSend, ev_target := ''/home/u/.netrc''\<rparr>) ''s1''
         (foldl (observer_step id ''/root'') new_observer
            ([ObRemove ''s1''] @ ObAssign 1 ''s1'' ''chatgpt'' []
             # [ObUpdate 2 ''s1'' (rule AcFileRead BaBlock ''none''), ObRemove ''s2'']))) = Some v
     \<and> bv_activity_class v = AcCredentialAccess \<and> bv_action_taken v = ''blocked''
     \<and> bv_event_id v = ev_id (blank_event\<lparr>ev_kind := NetworkSend, ev_target := ''/home/u/.netrc''\<rparr>)
     \<and> bv_session_id v = ''s1''"
  by (rule credentials_stay_blocked)
    (simp_all add: rule_def is_credential_access_def CREDENTIAL_PATTERNS_def)

section \<open>What a glob means\<close>

text \<open>
  The usual meaning of a pattern with stars: a star stands for any bytes, every other character for
  itself.
\<close>

fun wild :: "string \<Rightarrow> string \<Rightarrow> bool" where
  "wild [] t = (t = [])"
| "wild (c # p) [] = (c = CHR ''*'' \<and> wild p [])"
| "wild (c # p) (d # t) =
     (if c = CHR ''*'' then wild p (d # t) \<or> wild (c # p) t else c = d \<and> wild p t)"

lemma wild_star: "wild (CHR ''*'' # p) t \<longleftrightarrow> (\<exists>a b. t = a @ b \<and> wild p b)"
proof (induction t)
  case (Cons d t)
  note IH = Cons.IH
  show ?case
  proof
    assume "wild (CHR ''*'' # p) (d # t)"
    then consider "wild p (d # t)" | "wild (CHR ''*'' # p) t" by auto
    then show "\<exists>a b. d # t = a @ b \<and> wild p b"
      by cases (use IH in \<open>metis append_Nil append_Cons\<close>)+
  next
    assume "\<exists>a b. d # t = a @ b \<and> wild p b"
    then obtain a b where ab: "d # t = a @ b" "wild p b" by blast
    show "wild (CHR ''*'' # p) (d # t)"
    proof (cases a)
      case Nil
      then have "wild p (d # t)" using ab by simp
      then show ?thesis by simp
    next
      case (Cons e a')
      then have "t = a' @ b" using ab by simp
      then have "wild (CHR ''*'' # p) t" using ab IH by blast
      then show ?thesis by simp
    qed
  qed
qed auto

lemma wild_literal: "CHR ''*'' \<notin> set w \<Longrightarrow> wild (w @ p) t \<longleftrightarrow> (\<exists>b. t = w @ b \<and> wild p b)"
proof (induction w arbitrary: t)
  case (Cons c w)
  then show ?case by (cases t) auto
qed simp

text \<open>The pieces after the first one, each anywhere after the one before.\<close>

lemma glob_pieces_wild:
  "list_all (\<lambda>w. CHR ''*'' \<notin> set w) ws \<Longrightarrow>
   glob_pieces False ws t \<longleftrightarrow> wild (CHR ''*'' # concat (map (\<lambda>w. w @ ''*'') ws)) t"
proof (induction ws arbitrary: t)
  case Nil
  show ?case by (auto simp: wild_star intro: exI[of _ t])
next
  case (Cons w ws)
  let ?q = "CHR ''*'' # concat (map (\<lambda>w. w @ ''*'') ws)"
  have IH: "glob_pieces False ws t = wild ?q t" for t using Cons by simp
  have w: "CHR ''*'' \<notin> set w" using Cons.prems by simp
  have rhs: "wild (CHR ''*'' # concat (map (\<lambda>w. w @ ''*'') (w # ws))) t
             \<longleftrightarrow> (\<exists>a b. t = a @ w @ b \<and> wild ?q b)"
    using wild_literal[OF w, of ?q] by (auto simp: wild_star[of "w @ ?q"])
  have later: "wild ?q (x @ b)" if "wild ?q b" for x b
    using that by (auto simp: wild_star) (metis append.assoc)
  have lhs: "glob_pieces False (w # ws) t
             \<longleftrightarrow> (\<exists>i. find_str t w = Some i \<and> wild ?q (drop (i + length w) t))"
  proof (cases "w = []")
    case True
    then have "find_str t w = Some 0" by (cases t) simp_all
    then show ?thesis using True IH by simp
  qed (auto simp: IH split: option.split)
  show ?case unfolding rhs lhs
  proof
    assume "\<exists>i. find_str t w = Some i \<and> wild ?q (drop (i + length w) t)"
    then show "\<exists>a b. t = a @ w @ b \<and> wild ?q b" using find_str_Some by blast
  next
    assume "\<exists>a b. t = a @ w @ b \<and> wild ?q b"
    then obtain a b where ab: "t = a @ w @ b" "wild ?q b" by blast
    then obtain i where i: "find_str t w = Some i" "i \<le> length a" using find_str_first by blast
    then have "drop (i + length w) t = drop (i + length w) (a @ w) @ b" using ab by simp
    then have "wild ?q (drop (i + length w) t)" using later[OF ab(2)] by (simp only:)
    then show "\<exists>i. find_str t w = Some i \<and> wild ?q (drop (i + length w) t)" using i by blast
  qed
qed

lemma split_on_parts: "list_all (\<lambda>w. c \<notin> set w) (split_on (\<lambda>d. d = c) s)"
proof (induction s)
  case (Cons d s)
  then show ?case by (cases "split_on (\<lambda>d. d = c) s") auto
qed simp

lemma split_on_single: "length (split_on (\<lambda>d. d = c) s) = 1 \<longleftrightarrow> c \<notin> set s"
proof (induction s)
  case (Cons d s)
  have "split_on (\<lambda>d. d = c) s \<noteq> []" by simp
  then show ?case using Cons by (cases "split_on (\<lambda>d. d = c) s") auto
qed simp

lemma join_star: "ws \<noteq> [] \<Longrightarrow> join ''*'' ws @ ''*'' = concat (map (\<lambda>w. w @ ''*'') ws)"
  by (induction ws rule: induct_list012) simp_all

text \<open>
  A scoped pattern with a star in it accepts a text exactly when the text matches the pattern
  with one more star at its end, in the usual meaning of a star: the search for the pieces from left
  to right, each at its first occurrence, misses no match, and nothing holds the end of the text
  to the end of the pattern.
\<close>

theorem scoped_globs_are_prefix_globs:
  assumes "CHR ''*'' \<in> set p"
  shows "simple_glob p t \<longleftrightarrow> wild (p @ ''*'') t"
proof -
  let ?ws = "split_on (\<lambda>c. c = CHR ''*'') p"
  obtain w ws where ws: "?ws = w # ws" using split_on_nonempty by (cases ?ws) auto
  have w: "CHR ''*'' \<notin> set w" and rest: "list_all (\<lambda>w. CHR ''*'' \<notin> set w) ws"
    using split_on_parts[of "CHR ''*''" p] ws by simp_all
  let ?q = "CHR ''*'' # concat (map (\<lambda>w. w @ ''*'') ws)"
  have "p @ ''*'' = w @ ?q"
    using join_star[of ?ws] join_split_on[of "CHR ''*''" p] ws by simp
  then have "wild (p @ ''*'') t \<longleftrightarrow> (\<exists>b. t = w @ b \<and> wild ?q b)"
    by (simp add: wild_literal[OF w])
  also have "\<dots> \<longleftrightarrow> glob_pieces True (w # ws) t"
  proof (cases "w = []")
    case False
    have rest': "glob_pieces False ws u = wild ?q u" for u by (rule glob_pieces_wild[OF rest])
    show ?thesis
    proof (cases "starts_with t w")
      case True
      then obtain b where b: "t = w @ b" by (auto simp: starts_with_iff)
      have "find_str t w = Some 0" using True False by (cases t; cases w) auto
      then show ?thesis using False b rest' by simp
    next
      case no: False
      then have "find_str t w \<noteq> Some 0" by (metis append_Nil find_str_Some starts_with_iff take_0)
      then show ?thesis using False no by (auto simp: starts_with_iff split: option.split)
    qed
  qed (simp add: glob_pieces_wild[OF rest])
  also have "\<dots> \<longleftrightarrow> simple_glob p t"
    using assms ws split_on_single[of "CHR ''*''" p] by (simp add: simple_glob_def Let_def)
  finally show ?thesis by simp
qed

theorem scoped_globs_are_prefix_globs_witness:
  "simple_glob ''*.claude.com'' ''api.claude.com.example.net''
     = wild (''*.claude.com'' @ ''*'') ''api.claude.com.example.net''
   \<and> simple_glob ''*.claude.com'' ''api.claude.com.example.net''"
  using scoped_globs_are_prefix_globs[of "''*.claude.com''" "''api.claude.com.example.net''"]
  by (simp add: simple_glob_def)

end
