(* ===== verification/Profiles.thy ===== *)
theory Profiles
  imports Observer Sled "HOL-Library.Multiset"
begin

text \<open>
  agent/src/policy/profile.rs: the four layers of policy over the activity classes and the rule that
  decides among them. agent/src/policy/user_rules.rs: the user's own rules in the embedded store.
  The JSON form of a stored rule is given by the arguments \<open>enc\<close> and \<open>dec\<close>; a stored value that
  cannot be read or does not decode is \<open>None\<close>. \<open>wr\<close> is the outcome of a write.
\<close>

section \<open>Layers\<close>

datatype policy_layer = BuiltIn | SpiffeBound | UserRule | Learned

definition priority :: "policy_layer \<Rightarrow> nat" where
  "priority l = (case l of BuiltIn \<Rightarrow> 1 | SpiffeBound \<Rightarrow> 2 | UserRule \<Rightarrow> 3 | Learned \<Rightarrow> 4)"

instantiation policy_layer :: linorder
begin

definition less_eq_policy_layer :: "policy_layer \<Rightarrow> policy_layer \<Rightarrow> bool" where
  "a \<le> b \<longleftrightarrow> priority a \<le> priority b"

definition less_policy_layer :: "policy_layer \<Rightarrow> policy_layer \<Rightarrow> bool" where
  "a < b \<longleftrightarrow> priority a < priority b"

instance
  by standard
    (auto simp: less_eq_policy_layer_def less_policy_layer_def priority_def split: policy_layer.splits)

end

record layered_rule =
  lr_rule :: activity_rule
  lr_layer :: policy_layer
  lr_rule_id :: string
  lr_source :: string

record policy_decision =
  pd_activity :: activity_class
  pd_action :: baseline_action
  pd_winning_layer :: policy_layer
  pd_winning_rule_id :: string
  pd_source :: string
  pd_all_layers :: "layered_rule list"

definition profile_to_layered :: "agent_profile \<Rightarrow> layered_rule list" where
  "profile_to_layered p =
     map (\<lambda>(i, r). \<lparr>lr_rule = r, lr_layer = BuiltIn,
                    lr_rule_id = ''builtin_'' @ ap_agent_type p @ ''_'' @ show_nat i,
                    lr_source = ap_agent_type p @ ''_profile''\<rparr>)
         (enumerate 0 (ap_rules p))"

definition merge_rules ::
  "layered_rule list \<Rightarrow> layered_rule list \<Rightarrow> layered_rule list \<Rightarrow> layered_rule list
     \<Rightarrow> layered_rule list" where
  "merge_rules built_in spiffe user learned = built_in @ spiffe @ user @ learned"

definition evaluate ::
  "(string \<Rightarrow> string) \<Rightarrow> activity_class \<Rightarrow> string \<Rightarrow> layered_rule list \<Rightarrow> layered_rule list
     \<Rightarrow> policy_decision" where
  "evaluate lower activity agent_type user_rules learned_rules =
     (let all_rules = merge_rules (profile_to_layered (default_profile_for lower agent_type)) []
                        user_rules learned_rules;
          matching = sort_key (\<lambda>lr. priority (lr_layer lr))
                       (filter (\<lambda>lr. ar_class (lr_rule lr) = activity) all_rules)
      in if matching \<noteq> [] then
           (let winner = last matching
            in \<lparr>pd_activity = activity, pd_action = ar_action (lr_rule winner),
                pd_winning_layer = lr_layer winner, pd_winning_rule_id = lr_rule_id winner,
                pd_source = lr_source winner, pd_all_layers = matching\<rparr>)
         else
           \<lparr>pd_activity = activity, pd_action = BaWarn, pd_winning_layer = BuiltIn,
            pd_winning_rule_id = ''fallback'', pd_source = ''no_rule_found'', pd_all_layers = []\<rparr>)"

section \<open>The user's rules\<close>

record user_rule =
  ur_id :: string
  ur_agent_type :: "string option"
  ur_activity :: activity_class
  ur_action :: baseline_action
  ur_description :: string
  ur_created_at :: timestamp
  ur_enabled :: bool

type_synonym rule_tree = "(string \<times> string) list"

definition create_rule ::
  "(user_rule \<Rightarrow> string) \<Rightarrow> bool \<Rightarrow> user_rule \<Rightarrow> rule_tree \<Rightarrow> rule_tree \<times> bool" where
  "create_rule enc wr r db = (if wr then (db_insert (ur_id r) (enc r) db, True) else (db, False))"

definition get_rule :: "(string \<Rightarrow> user_rule option) \<Rightarrow> rule_tree \<Rightarrow> string \<Rightarrow> user_rule option" where
  "get_rule dec db rid = (case map_of db rid of None \<Rightarrow> None | Some v \<Rightarrow> dec v)"

definition list_rules :: "(string \<Rightarrow> user_rule option) \<Rightarrow> rule_tree \<Rightarrow> user_rule list" where
  "list_rules dec db = List.map_filter (\<lambda>(k, v). dec v) db"

definition applies_to :: "string \<Rightarrow> user_rule \<Rightarrow> bool" where
  "applies_to agent_type r =
     (ur_enabled r \<and> (ur_agent_type r = None \<or> ur_agent_type r = Some agent_type))"

definition list_for_agent ::
  "(string \<Rightarrow> user_rule option) \<Rightarrow> rule_tree \<Rightarrow> string \<Rightarrow> user_rule list" where
  "list_for_agent dec db agent_type = filter (applies_to agent_type) (list_rules dec db)"

text \<open>The result of the write is ignored: an update of a rule that exists answers \<open>true\<close>.\<close>

definition update_user_rule ::
  "(user_rule \<Rightarrow> string) \<Rightarrow> bool \<Rightarrow> string \<Rightarrow> user_rule \<Rightarrow> rule_tree \<Rightarrow> rule_tree \<times> bool" where
  "update_user_rule enc wr rid r db =
     (if map_of db rid \<noteq> None then (if wr then db_insert rid (enc r) db else db, True)
      else (db, False))"

definition delete_rule :: "bool \<Rightarrow> string \<Rightarrow> rule_tree \<Rightarrow> rule_tree \<times> bool" where
  "delete_rule wr rid db =
     (if wr then (db_remove rid db, map_of db rid \<noteq> None) else (db, False))"

definition layered_of :: "user_rule \<Rightarrow> layered_rule" where
  "layered_of r =
     \<lparr>lr_rule = \<lparr>ar_class = ur_activity r, ar_action = ur_action r,
                 ar_description = ur_description r\<rparr>,
      lr_layer = UserRule, lr_rule_id = ur_id r,
      lr_source = ''user:'' @ (case ur_agent_type r of Some t \<Rightarrow> t | None \<Rightarrow> ''global'')\<rparr>"

definition to_layered_rules ::
  "(string \<Rightarrow> user_rule option) \<Rightarrow> rule_tree \<Rightarrow> string \<Rightarrow> layered_rule list" where
  "to_layered_rules dec db agent_type = map layered_of (list_for_agent dec db agent_type)"

section \<open>Which rule decides\<close>

text \<open>The last element of a stable sort is the last of the elements with the largest key.\<close>

lemma last_insort_key:
  "sorted (map f ys) \<Longrightarrow> ys \<noteq> [] \<Longrightarrow>
   last (insort_key f x ys) = (if f x \<le> f (last ys) then last ys else x)"
proof (induction ys)
  case (Cons y ys)
  have "f y \<le> f (last (y # ys))" using Cons.prems by (cases "ys = []") simp_all
  moreover have "insort_key f x ys \<noteq> []" by (cases ys) simp_all
  ultimately show ?case
    using Cons order_trans[of "f x" "f y" "f (last ys)"] by (cases "ys = []") auto
qed simp

lemma sort_key_Nil_iff [simp]: "sort_key f xs = [] \<longleftrightarrow> xs = []"
  by (metis length_0_conv length_sort)

lemma last_sort_key:
  fixes f :: "'a \<Rightarrow> 'b::linorder"
  shows "xs \<noteq> [] \<Longrightarrow> \<exists>as bs. xs = as @ last (sort_key f xs) # bs
           \<and> list_all (\<lambda>a. f a \<le> f (last (sort_key f xs))) as
           \<and> list_all (\<lambda>b. f b < f (last (sort_key f xs))) bs"
proof (induction xs)
  case (Cons x xs)
  show ?case
  proof (cases "xs = []")
    case True
    then show ?thesis by (auto intro: exI[of _ "[]"])
  next
    case False
    let ?w = "last (sort_key f xs)"
    obtain as bs where xs: "xs = as @ ?w # bs" "list_all (\<lambda>a. f a \<le> f ?w) as"
      "list_all (\<lambda>b. f b < f ?w) bs"
      using Cons.IH[OF False] by blast
    have "sort_key f xs \<noteq> []" using False by (metis length_0_conv length_sort)
    then have last: "last (sort_key f (x # xs)) = (if f x \<le> f ?w then ?w else x)"
      by (simp add: last_insort_key)
    show ?thesis
    proof (cases "f x \<le> f ?w")
      case True
      then have "x # xs = (x # as) @ ?w # bs" "list_all (\<lambda>a. f a \<le> f ?w) (x # as)"
        using xs by simp_all
      then show ?thesis using True last xs(3) by metis
    next
      case False
      then have "list_all (\<lambda>b. f b < f x) (as @ ?w # bs)"
        using xs(2,3) by (auto simp: list_all_iff)
      then have "list_all (\<lambda>b. f b < f x) xs" using xs(1) by simp
      then show ?thesis using False last by (auto intro: exI[of _ "[]"])
    qed
  qed
qed simp

text \<open>The rules on an activity, in the order the layers are merged.\<close>

definition candidates ::
  "(string \<Rightarrow> string) \<Rightarrow> activity_class \<Rightarrow> string \<Rightarrow> layered_rule list \<Rightarrow> layered_rule list
     \<Rightarrow> layered_rule list" where
  "candidates lower c t user learned =
     filter (\<lambda>lr. ar_class (lr_rule lr) = c)
       (profile_to_layered (default_profile_for lower t) @ user @ learned)"

definition decides :: "layered_rule \<Rightarrow> policy_decision \<Rightarrow> bool" where
  "decides lr d = (pd_action d = ar_action (lr_rule lr) \<and> pd_winning_layer d = lr_layer lr
     \<and> pd_winning_rule_id d = lr_rule_id lr \<and> pd_source d = lr_source lr)"

lemma evaluate_trace:
  "pd_all_layers (evaluate lower c t user learned)
     = sort_key (\<lambda>lr. priority (lr_layer lr)) (candidates lower c t user learned)"
  by (simp add: evaluate_def merge_rules_def candidates_def Let_def)

lemma evaluate_winner:
  "candidates lower c t user learned \<noteq> [] \<Longrightarrow>
   decides (last (sort_key (\<lambda>lr. priority (lr_layer lr)) (candidates lower c t user learned)))
     (evaluate lower c t user learned)"
  unfolding evaluate_def merge_rules_def candidates_def decides_def Let_def append_Nil
  by (simp only: sort_key_Nil_iff not_False_eq_True if_True policy_decision.simps simp_thms)

lemma last_sort_key_max:
  fixes f :: "'a \<Rightarrow> 'b::linorder"
  assumes "list_all (\<lambda>x. f x \<le> f r) xs"
  shows "last (sort_key f (xs @ [r])) = r"
proof -
  define w where "w = last (sort_key f (xs @ [r]))"
  obtain as bs where s: "xs @ [r] = as @ w # bs" "list_all (\<lambda>b. f b < f w) bs"
    using last_sort_key[of "xs @ [r]" f] by (auto simp: w_def[symmetric])
  have "w = r"
  proof (cases bs rule: rev_cases)
    case Nil
    then show ?thesis using s(1) by simp
  next
    case (snoc cs c)
    then have "xs @ [r] = (as @ w # cs) @ [c]" using s(1) by simp
    then have xs: "xs = as @ w # cs" and "c = r" by (simp_all only: append1_eq_conv)
    then have "f w \<le> f r" using assms by (simp add: list_all_iff)
    moreover have "f r < f w" using s(2) snoc \<open>c = r\<close> by simp
    ultimately show ?thesis by simp
  qed
  then show ?thesis by (simp only: w_def)
qed


section \<open>The store of rules\<close>

datatype rule_op =
    RoCreate bool user_rule
  | RoUpdate bool string user_rule
  | RoDelete bool string

fun rule_step :: "(user_rule \<Rightarrow> string) \<Rightarrow> rule_tree \<Rightarrow> rule_op \<Rightarrow> rule_tree" where
  "rule_step enc db (RoCreate wr r) = fst (create_rule enc wr r db)"
| "rule_step enc db (RoUpdate wr rid r) = fst (update_user_rule enc wr rid r db)"
| "rule_step enc db (RoDelete wr rid) = fst (delete_rule wr rid db)"

text \<open>What an operation means for the rule stored under one identifier.\<close>

fun rule_word :: "string \<Rightarrow> rule_op \<Rightarrow> user_rule option \<Rightarrow> user_rule option" where
  "rule_word k (RoCreate wr r) x = (if wr \<and> ur_id r = k then Some r else x)"
| "rule_word k (RoUpdate wr rid r) x = (if wr \<and> rid = k \<and> x \<noteq> None then Some r else x)"
| "rule_word k (RoDelete wr rid) x = (if wr \<and> rid = k then None else x)"

text \<open>The tree is in key order and every value in it decodes.\<close>

definition rules_ok :: "(string \<Rightarrow> user_rule option) \<Rightarrow> rule_tree \<Rightarrow> bool" where
  "rules_ok dec db = (key_ordered db \<and> list_all (\<lambda>(k, v). dec v \<noteq> None) db)"

lemma rules_ok_insert:
  "rules_ok dec db \<Longrightarrow> dec v \<noteq> None \<Longrightarrow> rules_ok dec (db_insert k v db)"
  using set_insert_subset[of k v db]
  by (auto simp: rules_ok_def key_ordered_insert list_all_iff)

lemma rules_ok_remove: "rules_ok dec db \<Longrightarrow> rules_ok dec (db_remove k db)"
  using key_ordered_remove[of db k] by (auto simp: rules_ok_def list_all_iff db_remove_def)

lemma rules_ok_stored: "rules_ok dec db \<Longrightarrow> get_rule dec db k = None \<longleftrightarrow> map_of db k = None"
  by (auto simp: rules_ok_def get_rule_def list_all_iff split: option.splits dest!: map_of_SomeD)

lemma set_list_rules: "set (list_rules dec db) = {r. \<exists>k v. (k, v) \<in> set db \<and> dec v = Some r}"
  by (induction db) (auto simp: list_rules_def map_filter_simps split: option.splits)

lemma get_rule_entry:
  "key_ordered db \<Longrightarrow> get_rule dec db j = Some r \<longleftrightarrow> (\<exists>v. (j, v) \<in> set db \<and> dec v = Some r)"
proof -
  assume "key_ordered db"
  then have "(j, v) \<in> set db \<longleftrightarrow> map_of db j = Some v" for v
    by (simp add: map_of_eq_Some_iff[OF key_ordered_distinct])
  then show ?thesis by (cases "map_of db j") (simp_all add: get_rule_def)
qed

text \<open>Where an inserted entry stands in the tree.\<close>

lemma insert_splits:
  "key_ordered d \<Longrightarrow> \<exists>xs ys. db_insert k v d = xs @ (k, v) # ys \<and> set ys \<subseteq> set d \<and> (\<forall>j \<in> keys ys. k < j)"
proof (induction k v d rule: db_insert.induct)
  case (2 k v k' v' d)
  consider "k < k'" | "k = k'" | "k' < k" by fastforce
  then show ?case
  proof cases
    case 3
    then have "\<not> k < k'" "k \<noteq> k'" "key_ordered d" using "2.prems" by auto
    from "2.IH"[OF this] obtain xs ys where "db_insert k v d = xs @ (k, v) # ys" "set ys \<subseteq> set d"
      "\<forall>j \<in> keys ys. k < j"
      by blast
    then have "db_insert k v ((k', v') # d) = ((k', v') # xs) @ (k, v) # ys"
      "set ys \<subseteq> set ((k', v') # d)" "\<forall>j \<in> keys ys. k < j"
      using 3 by auto
    then show ?thesis by blast
  next
    case 1
    then have "db_insert k v ((k', v') # d) = [] @ (k, v) # (k', v') # d"
      "\<forall>j \<in> keys ((k', v') # d). k < j"
      using "2.prems" by auto
    then show ?thesis by blast
  next
    case 2
    then have "db_insert k v ((k', v') # d) = [] @ (k, v) # d" "\<forall>j \<in> keys d. k < j"
      using \<open>key_ordered _\<close> by auto
    then show ?thesis by (metis set_subset_Cons)
  qed
qed auto

text \<open>The rule an operation writes survives its JSON form.\<close>

fun codes :: "(user_rule \<Rightarrow> string) \<Rightarrow> (string \<Rightarrow> user_rule option) \<Rightarrow> rule_op \<Rightarrow> bool" where
  "codes enc dec (RoCreate wr r) = (dec (enc r) = Some r)"
| "codes enc dec (RoUpdate wr rid r) = (dec (enc r) = Some r)"
| "codes enc dec (RoDelete wr rid) = True"

lemma rule_step_ok:
  assumes "codes enc dec op" and "rules_ok dec db"
  shows "rules_ok dec (rule_step enc db op)"
  using assms
  by (cases op)
    (simp_all add: create_rule_def update_user_rule_def delete_rule_def rules_ok_insert rules_ok_remove)

lemma rule_step_reads:
  assumes "codes enc dec op" and "rules_ok dec db"
  shows "get_rule dec (rule_step enc db op) k = rule_word k op (get_rule dec db k)"
proof -
  have ord: "key_ordered db" using assms(2) by (simp add: rules_ok_def)
  show ?thesis
  proof (cases op)
    case (RoUpdate wr rid r)
    then show ?thesis
      using assms rules_ok_stored[OF assms(2)] ord
      by (auto simp: update_user_rule_def get_rule_def map_of_insert split: option.splits)
  qed (use assms ord in \<open>auto simp: create_rule_def delete_rule_def get_rule_def map_of_insert
        map_of_remove\<close>)
qed

text \<open>
  The store of the user's rules is a map: when the JSON forms of the rules written decode to
  the rules, then after any sequence of creations, updates and deletions, some of whose writes fail, what is read
  under an identifier is what the last successful operation on it says, an update counting only
  where a rule was there, and the listing holds exactly those rules.
\<close>

theorem user_rules_form_a_map:
  assumes "list_all (codes enc dec) ops"
  shows "get_rule dec (foldl (rule_step enc) [] ops) k = fold (rule_word k) ops None
    \<and> set (list_rules dec (foldl (rule_step enc) [] ops))
        = {r. \<exists>k. fold (rule_word k) ops None = Some r}"
proof -
  let ?db = "foldl (rule_step enc) [] ops"
  have run: "rules_ok dec (foldl (rule_step enc) db ops)
      \<and> (\<forall>k. get_rule dec (foldl (rule_step enc) db ops) k = fold (rule_word k) ops (get_rule dec db k))"
    if "rules_ok dec db" for db
    using that assms
  proof (induction ops arbitrary: db)
    case (Cons op ops)
    then show ?case using rule_step_ok[of enc dec op db] rule_step_reads[of enc dec op db] by simp
  qed simp
  have ok: "rules_ok dec ?db" and reads: "get_rule dec ?db k = fold (rule_word k) ops None" for k
    using run[of "[]"] by (simp_all add: rules_ok_def get_rule_def)
  have "key_ordered ?db" using ok by (simp add: rules_ok_def)
  then have "get_rule dec ?db j = Some r \<longleftrightarrow> (\<exists>v. (j, v) \<in> set ?db \<and> dec v = Some r)" for j r
    by (rule get_rule_entry)
  then have "set (list_rules dec ?db) = {r. \<exists>k. get_rule dec ?db k = Some r}"
    by (simp add: set_list_rules)
  then show ?thesis by (simp add: reads)
qed

text \<open>
  A rule of the user decides: when a rule is created, is enabled and applies to the agent, no
  stored rule under a later identifier applies to the agent on the same activity, and nothing has
  been learned about the activity, then the layered decision is that rule's action, under its own
  identifier, whatever the default profile says.
\<close>

theorem created_rule_decides:
  assumes "dec (enc r) = Some r" and "key_ordered db" and "applies_to t r"
    and "\<And>q k v. (k, v) \<in> set db \<Longrightarrow> dec v = Some q \<Longrightarrow> ur_id r < k
           \<Longrightarrow> applies_to t q \<Longrightarrow> ur_activity q \<noteq> ur_activity r"
    and "filter (\<lambda>lr. ar_class (lr_rule lr) = ur_activity r) learned = []"
  shows "decides (layered_of r)
           (evaluate lower (ur_activity r) t
              (to_layered_rules dec (fst (create_rule enc True r db)) t) learned)"
proof -
  let ?c = "\<lambda>lr. ar_class (lr_rule lr) = ur_activity r"
  let ?B = "filter ?c (profile_to_layered (default_profile_for lower t))"
  let ?U = "\<lambda>d. filter ?c (to_layered_rules dec d t)"
  obtain xs ys where db': "db_insert (ur_id r) (enc r) db = xs @ (ur_id r, enc r) # ys"
    "set ys \<subseteq> set db" "\<forall>k \<in> keys ys. ur_id r < k"
    using insert_splits[OF assms(2)] by metis
  have later: "?U ys = []"
    using db'(2,3) assms(4)
    by (fastforce simp: to_layered_rules_def list_for_agent_def layered_of_def filter_empty_conv
        set_list_rules keys_def)
  have U: "?U (xs @ (ur_id r, enc r) # ys) = ?U xs @ [layered_of r]"
    using later assms(1,3)
    by (simp add: to_layered_rules_def list_for_agent_def list_rules_def map_filter_simps
        layered_of_def List.map_filter_def)
  have "candidates lower (ur_activity r) t (to_layered_rules dec (fst (create_rule enc True r db)) t) learned
        = (?B @ ?U xs) @ [layered_of r]"
    using assms(5) U by (simp add: candidates_def create_rule_def db'(1))
  moreover have "list_all (\<lambda>lr. priority (lr_layer lr) \<le> priority (lr_layer (layered_of r))) (?B @ ?U xs)"
    by (auto simp: list_all_iff profile_to_layered_def to_layered_rules_def layered_of_def priority_def)
  ultimately show ?thesis
    using evaluate_winner last_sort_key_max by (metis append_is_Nil_conv list.distinct(1))
qed

text \<open>Two rules and a table of their encoded forms, for the examples.\<close>

definition W_old :: user_rule where
  "W_old = \<lparr>ur_id = ''r1'', ur_agent_type = None, ur_activity = AcFileDelete, ur_action = BaBlock,
     ur_description = ''keep'', ur_created_at = 1, ur_enabled = True\<rparr>"

definition W_new :: user_rule where
  "W_new = \<lparr>ur_id = ''r2'', ur_agent_type = Some ''claude'', ur_activity = AcFileDelete,
     ur_action = BaAllow, ur_description = ''scratch'', ur_created_at = 2, ur_enabled = True\<rparr>"

definition W_enc :: "user_rule \<Rightarrow> string" where
  "W_enc r = (if ur_id r = ''r1'' then ''old'' else ''new'')"

definition W_dec :: "string \<Rightarrow> user_rule option" where
  "W_dec s = (if s = ''old'' then Some W_old else if s = ''new'' then Some W_new else None)"

lemmas W_rules = W_old_def W_new_def W_enc_def W_dec_def

theorem user_rules_form_a_map_witness:
  "get_rule W_dec (foldl (rule_step W_enc) []
       [RoCreate True W_old, RoCreate False W_new, RoUpdate True ''r2'' W_new,
        RoUpdate True ''r1'' W_new]) ''r1'' = Some W_new"
  using user_rules_form_a_map[of W_enc W_dec
      "[RoCreate True W_old, RoCreate False W_new, RoUpdate True ''r2'' W_new,
        RoUpdate True ''r1'' W_new]" "''r1''"]
  by (simp add: W_rules)

theorem created_rule_decides_witness:
  "decides (layered_of W_new)
     (evaluate id AcFileDelete ''claude''
        (to_layered_rules W_dec (fst (create_rule W_enc True W_new [(''r1'', ''old'')])) ''claude'') [])"
  using created_rule_decides[of W_dec W_enc W_new "[(''r1'', ''old'')]" "''claude''" "[]" id]
  by (simp add: W_rules applies_to_def)


end
