(* ===== verification/IntentPolicy.thy ===== *)
theory IntentPolicy
  imports AuditLog
begin

text \<open>
  agent/src/policy/intent_policy.rs and its handlers in agent/src/api/routes.rs: the business
  category of a declared intent and the action configured for the category. \<open>lower\<close> is
  \<open>str::to_lowercase\<close>.
\<close>

datatype business_category =
    Pii | Credentials | CustomerData | Financial | Health | Legal | SourceCode | Config | Public
  | Unknown

definition category_name :: "business_category \<Rightarrow> string" where
  "category_name c =
     (case c of
        Pii \<Rightarrow> ''pii'' | Credentials \<Rightarrow> ''credentials'' | CustomerData \<Rightarrow> ''customer_data''
      | Financial \<Rightarrow> ''financial'' | Health \<Rightarrow> ''health'' | Legal \<Rightarrow> ''legal''
      | SourceCode \<Rightarrow> ''source_code'' | Config \<Rightarrow> ''config'' | Public \<Rightarrow> ''public''
      | Unknown \<Rightarrow> ''unknown'')"

datatype intent_action = IaAllow | IaAudit | IaEscalate | IaBlock

record intent_rule =
  ir_category :: business_category
  ir_action :: intent_action
  ir_description :: string

record classify_result =
  cr_intent :: string
  cr_category :: business_category
  cr_action :: intent_action
  cr_rule :: "string option"

type_synonym intent_policy = "business_category \<rightharpoonup> intent_rule"

section \<open>The default rules\<close>

definition intent_defaults :: "(business_category \<times> intent_action \<times> string) list" where
  "intent_defaults =
     [(Credentials, IaBlock, ''Block all credential access by default''),
      (Pii, IaBlock, ''Block PII access '' @ EM_DASH @ '' GDPR/privacy compliance''),
      (Financial, IaBlock, ''Block financial data access '' @ EM_DASH @ '' SOX/PCI compliance''),
      (Health, IaBlock, ''Block health data access '' @ EM_DASH @ '' HIPAA compliance''),
      (Legal, IaEscalate, ''Escalate legal document access for human review''),
      (CustomerData, IaEscalate, ''Escalate customer data access for review''),
      (Config, IaEscalate, ''Escalate config changes for admin review''),
      (SourceCode, IaAudit, ''Audit source code access '' @ EM_DASH @ '' no block''),
      (Public, IaAllow, ''Allow public data access''),
      (Unknown, IaAllow, ''Allow unknown categories by default'')]"

definition new_intent_policy :: intent_policy where
  "new_intent_policy =
     fold (\<lambda>(c, a, d) m. m(c \<mapsto> \<lparr>ir_category = c, ir_action = a, ir_description = d\<rparr>))
       intent_defaults Map.empty"

text \<open>\<open>Default::default\<close> has no rule at all.\<close>

definition default_intent_policy :: intent_policy where
  "default_intent_policy = Map.empty"

definition intent_rules :: "intent_policy \<Rightarrow> intent_rule set" where
  "intent_rules P = ran P"

definition set_rule :: "intent_rule \<Rightarrow> intent_policy \<Rightarrow> intent_policy" where
  "set_rule r P = P(ir_category r \<mapsto> r)"

section \<open>The classifier\<close>

abbreviation says :: "string \<Rightarrow> string list \<Rightarrow> bool" where
  "says s words \<equiv> list_ex (contains s) words"

definition credential_signal :: "string \<Rightarrow> string \<Rightarrow> bool" where
  "credential_signal i ctx =
     (says i [''credential'', ''credential_read'', ''secret'']
      \<or> says ctx [''password'', ''passwd'', ''token'', ''api_key'', ''private_key'', ''id_rsa'',
                  ''id_ed25519'', ''.aws/credentials'', ''.ssh/'', ''keychain'', ''vault''])"

definition pii_signal :: "string \<Rightarrow> string \<Rightarrow> bool" where
  "pii_signal i ctx =
     (says i [''pii'', ''personal'', ''gdpr'']
      \<or> says ctx [''ssn'', ''social_security'', ''date_of_birth'', ''passport'', ''driver_license'',
                  ''biometric''])"

definition financial_signal :: "string \<Rightarrow> string \<Rightarrow> bool" where
  "financial_signal i ctx =
     (says i [''financial'', ''payment'', ''billing'']
      \<or> says ctx [''credit_card'', ''bank_account'', ''stripe'', ''paypal'', ''invoice'', ''revenue''])"

definition health_signal :: "string \<Rightarrow> string \<Rightarrow> bool" where
  "health_signal i ctx =
     (says i [''health'', ''medical'', ''hipaa'']
      \<or> says ctx [''patient'', ''diagnosis'', ''prescription'', ''ehr'', ''epic'', ''fhir''])"

definition legal_signal :: "string \<Rightarrow> string \<Rightarrow> bool" where
  "legal_signal i ctx =
     (says i [''legal'', ''contract'', ''compliance'']
      \<or> contains ctx ''.pdf'' \<and> says ctx [''agreement'', ''nda'', ''contract'', ''terms''])"

definition customer_signal :: "string \<Rightarrow> string \<Rightarrow> bool" where
  "customer_signal i ctx =
     (says i [''customer'', ''user_data'', ''crm'']
      \<or> says ctx [''salesforce'', ''hubspot'', ''customer_id'', ''user_id''])"

definition config_signal :: "string \<Rightarrow> string \<Rightarrow> bool" where
  "config_signal i ctx =
     (says i [''config'', ''settings'', ''deploy'']
      \<or> says ctx [''.toml'', ''.yaml'', ''.yml'', ''.json'', ''.env'', ''docker'', ''kubernetes'',
                  ''terraform''])"

definition source_signal :: "string \<Rightarrow> bool" where
  "source_signal i =
     says i [''source_code'', ''file_write'', ''file_read'', ''file_search'', ''shell_execution'',
             ''package_operation'']"

definition public_signal :: "string \<Rightarrow> bool" where
  "public_signal i = says i [''network_request'', ''web_fetch'', ''search'']"

definition classify_intent ::
  "(string \<Rightarrow> string) \<Rightarrow> string \<Rightarrow> string option \<Rightarrow> business_category" where
  "classify_intent lower intent context =
     (let i = lower intent; ctx = (case context of Some s \<Rightarrow> lower s | None \<Rightarrow> [])
      in if credential_signal i ctx then Credentials
         else if pii_signal i ctx then Pii
         else if financial_signal i ctx then Financial
         else if health_signal i ctx then Health
         else if legal_signal i ctx then Legal
         else if customer_signal i ctx then CustomerData
         else if config_signal i ctx then Config
         else if source_signal i then SourceCode
         else if public_signal i then Public
         else Unknown)"

definition classify_and_evaluate ::
  "(string \<Rightarrow> string) \<Rightarrow> intent_policy \<Rightarrow> string \<Rightarrow> string option \<Rightarrow> classify_result" where
  "classify_and_evaluate lower P intent context =
     (let c = classify_intent lower intent context
      in case P c of
           Some r \<Rightarrow> \<lparr>cr_intent = intent, cr_category = c, cr_action = ir_action r,
                       cr_rule = Some (ir_description r)\<rparr>
         | None \<Rightarrow> \<lparr>cr_intent = intent, cr_category = c, cr_action = IaAllow, cr_rule = None\<rparr>)"

section \<open>What an intent leads to\<close>

text \<open>Every rule is filed under its own category, and every category has one.\<close>

definition filed :: "intent_policy \<Rightarrow> bool" where
  "filed P = (\<forall>c. \<exists>r. P c = Some r \<and> ir_category r = c)"

lemma new_policy_at:
  "new_intent_policy c =
     Some \<lparr>ir_category = c,
           ir_action = (case c of Legal \<Rightarrow> IaEscalate | CustomerData \<Rightarrow> IaEscalate
                        | Config \<Rightarrow> IaEscalate | SourceCode \<Rightarrow> IaAudit | Public \<Rightarrow> IaAllow
                        | Unknown \<Rightarrow> IaAllow | _ \<Rightarrow> IaBlock),
           ir_description = snd (the (map_of intent_defaults c))\<rparr>"
  by (cases c) (simp_all add: new_intent_policy_def intent_defaults_def)

lemma filed_new: "filed new_intent_policy"
  by (simp add: filed_def new_policy_at)

lemma filed_set: "filed P \<Longrightarrow> filed (set_rule r P)"
  by (simp add: filed_def set_rule_def)

interpretation intent_store: invariant_system "\<lambda>P r. set_rule r P" filed
  by unfold_locales (rule filed_set)

text \<open>The last rule set for a category.\<close>

definition last_set :: "intent_rule list \<Rightarrow> business_category \<Rightarrow> intent_rule option" where
  "last_set rs c = List.find (\<lambda>r. ir_category r = c) (rev rs)"

lemma run_set_rules:
  "foldl (\<lambda>P r. set_rule r P) P rs c = (case last_set rs c of Some r \<Rightarrow> Some r | None \<Rightarrow> P c)"
proof (induction rs rule: rev_induct)
  case (snoc r rs)
  then show ?case by (simp add: last_set_def set_rule_def)
qed (simp add: last_set_def)

lemma last_set_category: "last_set rs c = Some r \<Longrightarrow> ir_category r = c"
  by (auto simp: last_set_def dest: find_SomeD)

text \<open>
  The action on an intent is the one the last rule set for its category names, and the built-in
  one (block for credentials, personal, financial and health data, escalate for legal, customer and
  configuration data, audit for source code, allow for the rest) when none was set. The answer
  always names the rule it comes from.
\<close>

theorem last_rule_of_the_category_decides:
  "let P = foldl (\<lambda>P r. set_rule r P) new_intent_policy rs;
       c = classify_intent lower intent context;
       res = classify_and_evaluate lower P intent context
   in cr_category res = c \<and> cr_rule res \<noteq> None
      \<and> cr_action res =
          (case last_set rs c of
             Some r \<Rightarrow> ir_action r
           | None \<Rightarrow> (if c \<in> {Credentials, Pii, Financial, Health} then IaBlock
                       else if c \<in> {Legal, CustomerData, Config} then IaEscalate
                       else if c = SourceCode then IaAudit else IaAllow))"
  by (cases "classify_intent lower intent context")
    (simp_all add: classify_and_evaluate_def run_set_rules new_policy_at Let_def split: option.split)

text \<open>
  The credential words come first: an intent or a context that names a credential is treated as
  credential access whatever else it says, and as long as no rule is set for that category it is
  blocked.
\<close>

theorem credential_words_decide_first:
  assumes "credential_signal (lower intent) (lower ctx)"
    and "list_all (\<lambda>r. ir_category r \<noteq> Credentials) rs"
  shows "cr_action (classify_and_evaluate lower (foldl (\<lambda>P r. set_rule r P) new_intent_policy rs)
           intent (Some ctx)) = IaBlock"
proof -
  have "last_set rs Credentials = None"
    using assms(2) by (simp add: last_set_def find_NoneD list_all_iff)
  then show ?thesis
    using assms(1)
    by (simp add: classify_and_evaluate_def classify_intent_def run_set_rules new_policy_at)
qed

theorem credential_words_decide_first_witness:
  "cr_action (classify_and_evaluate id
       (foldl (\<lambda>P r. set_rule r P) new_intent_policy
          [\<lparr>ir_category = SourceCode, ir_action = IaAllow, ir_description = ''''\<rparr>])
       ''file_read'' (Some ''~/.ssh/config'')) = IaBlock"
  by (rule credential_words_decide_first) (simp_all add: credential_signal_def)

text \<open>
  The word test has no word boundaries: a write of source code is blocked as access to personal
  data as soon as its context has the letters ssn in it, as every lower-cased \<open>className\<close> does,
  unless a credential word makes it credential access first.
\<close>

theorem class_names_are_personal_data:
  assumes "lower ctx = a @ ''classname'' @ b" and "lower intent = ''file_write''"
  shows "cr_action (classify_and_evaluate lower new_intent_policy intent (Some ctx)) = IaBlock
    \<and> cr_category (classify_and_evaluate lower new_intent_policy intent (Some ctx)) \<noteq> SourceCode"
proof -
  have "lower ctx = (a @ ''cla'') @ ''ssn'' @ (''ame'' @ b)" by (simp add: assms(1))
  then have "contains (lower ctx) ''ssn''" by (metis contains_iff)
  then have "pii_signal (lower intent) (lower ctx)" by (simp add: pii_signal_def)
  then show ?thesis
    by (simp add: classify_and_evaluate_def classify_intent_def Let_def new_policy_at)
qed

theorem class_names_are_personal_data_witness:
  "cr_action (classify_and_evaluate to_ascii_lowercase new_intent_policy ''file_write''
      (Some ''<div className=1>'')) = IaBlock"
proof -
  have "to_ascii_lowercase ''<div className=1>'' = ''<div '' @ ''classname'' @ ''=1>''"
    and "to_ascii_lowercase ''file_write'' = ''file_write''"
    by code_simp+
  then show ?thesis by (rule class_names_are_personal_data[THEN conjunct1])
qed

section \<open>The handlers\<close>

text \<open>
  The upsert answers with the \<open>Debug\<close> names of the category and the action and appends an entry to
  the audit log; the outcome of the append is ignored.
\<close>

definition category_dbg :: "business_category \<Rightarrow> string" where
  "category_dbg c =
     (case c of
        Pii \<Rightarrow> ''Pii'' | Credentials \<Rightarrow> ''Credentials'' | CustomerData \<Rightarrow> ''CustomerData''
      | Financial \<Rightarrow> ''Financial'' | Health \<Rightarrow> ''Health'' | Legal \<Rightarrow> ''Legal''
      | SourceCode \<Rightarrow> ''SourceCode'' | Config \<Rightarrow> ''Config'' | Public \<Rightarrow> ''Public''
      | Unknown \<Rightarrow> ''Unknown'')"

definition action_dbg :: "intent_action \<Rightarrow> string" where
  "action_dbg a =
     (case a of IaAllow \<Rightarrow> ''Allow'' | IaAudit \<Rightarrow> ''Audit'' | IaEscalate \<Rightarrow> ''Escalate''
              | IaBlock \<Rightarrow> ''Block'')"

definition action_name :: "intent_action \<Rightarrow> string" where
  "action_name a =
     (case a of IaAllow \<Rightarrow> ''ALLOW'' | IaAudit \<Rightarrow> ''AUDIT'' | IaEscalate \<Rightarrow> ''ESCALATE''
              | IaBlock \<Rightarrow> ''BLOCK'')"

definition intent_policy_entry :: "intent_rule \<Rightarrow> json" where
  "intent_policy_entry r =
     JObj [(''event'', JStr ''intent_policy_updated''),
           (''category'', JStr (category_name (ir_category r))),
           (''action'', JStr (action_name (ir_action r)))]"

definition update_intent_policy ::
  "intent_rule \<Rightarrow> intent_policy \<Rightarrow> intent_policy \<times> json \<times> string" where
  "update_intent_policy r P =
     (set_rule r P, intent_policy_entry r,
      ''Rule for '' @ category_dbg (ir_category r) @ '' updated '' @ [CHR 0xE2, CHR 0x86, CHR 0x92]
        @ '' '' @ action_dbg (ir_action r))"

end
