(* ===== verification/IntentDiff.thy ===== *)
theory IntentDiff
  imports Network Sled
begin

text \<open>
  agent/src/analyzer/intent_diff.rs: what the agent declared (intents from the gateway) and what the
  model said (its recent responses) against what its processes did. The clock \<open>now\<close>, the fresh
  identifiers, the RFC 3339 parser \<open>parse_ts\<close> and printer \<open>show_ts\<close> and the Unicode test \<open>alnum\<close> of
  a character (its bytes) are arguments. A hash map is kept in key order, the order of its values is
  not observed.
\<close>

section \<open>Data\<close>

record intent_record =
  in_session_id :: string
  in_tool_name :: string
  in_intent :: string
  in_risk_level :: string
  in_timestamp :: string
  in_allowed :: bool

datatype correlation_type =
    ProcessDirect | ProcessChild | ArgumentMatch | ProcessAndArgument | TimeWindow

record correlated_action =
  ca_event :: security_event
  ca_correlation :: correlation_type
  ca_matched_argument :: "string option"

record causal_trace =
  ct_trace_id :: string
  ct_session_id :: string
  ct_llm_event :: "security_event option"
  ct_actions :: "correlated_action list"
  ct_risk_score :: "8 word"
  ct_risk_reasons :: "string list"
  ct_started_at :: timestamp
  ct_ended_at :: timestamp

datatype diff_severity = DiffLow | DiffMedium | DiffHigh | DiffCritical

record intent_diff =
  df_id :: string
  df_session_id :: string
  df_pid :: pid
  df_declared_intent :: string
  df_observed_behavior :: string
  df_severity :: diff_severity
  df_events :: "security_event list"
  df_detected_at :: string
  df_trace_id :: "string option"

record recent_llm_response =
  rl_session_id :: string
  rl_pid :: pid
  rl_response_text :: string
  rl_tool_calls :: "string list"
  rl_timestamp :: timestamp
  rl_trace_id :: string
  rl_extracted_targets :: "string list"

record session_sequence =
  sq_recent_kinds :: "event_kind list"
  sq_recent_targets :: "string list"
  sq_cred_read :: bool
  sq_cred_read_ts :: "timestamp option"
  sq_dns_after_cred :: bool

definition empty_sequence :: session_sequence where
  "empty_sequence = \<lparr>sq_recent_kinds = [], sq_recent_targets = [], sq_cred_read = False,
     sq_cred_read_ts = None, sq_dns_after_cred = False\<rparr>"

definition CORRELATION_WINDOW_SECS :: nat where
  "CORRELATION_WINDOW_SECS = 30"

definition MAX_TRACE_ACTIONS :: nat where
  "MAX_TRACE_ACTIONS = 100"

definition MAX_RECENT_LLM :: nat where
  "MAX_RECENT_LLM = 20"

definition MAX_SEQUENCE_LEN :: nat where
  "MAX_SEQUENCE_LEN = 50"

record intent_engine =
  ie_intents :: "intent_record list"
  ie_diffs :: "intent_diff list"
  ie_recent_llm :: "recent_llm_response list"
  ie_traces :: "(string \<times> causal_trace) list"
  ie_sequences :: "string \<rightharpoonup> session_sequence"

definition new_intent_engine :: intent_engine where
  "new_intent_engine = \<lparr>ie_intents = [], ie_diffs = [], ie_recent_llm = [], ie_traces = [],
     ie_sequences = Map.empty\<rparr>"

text \<open>\<open>(a - b).num_seconds().abs()\<close> for nanosecond counts.\<close>

definition secs_apart :: "timestamp \<Rightarrow> timestamp \<Rightarrow> nat" where
  "secs_apart a b = nat \<bar>a - b\<bar> div 1000000000"

definition within_window :: "timestamp \<Rightarrow> timestamp \<Rightarrow> bool" where
  "within_window now t = (secs_apart now t \<le> CORRELATION_WINDOW_SECS)"

section \<open>Targets in a response\<close>

text \<open>The characters of a string, each as its bytes.\<close>

function chars :: "string \<Rightarrow> string list" where
  "chars s = (if s = [] then [] else first_char s # chars (drop_char s))"
  by pat_completeness auto
termination
proof (relation "measure length", simp)
  fix s :: string
  assume "s \<noteq> []"
  then show "(drop_char s, s) \<in> measure length"
    by (cases s) (use length_drop_char in auto)
qed

declare chars.simps [simp del]

definition nth_opt :: "'a list \<Rightarrow> nat \<Rightarrow> 'a option" where
  "nth_opt xs n = (if n < length xs then Some (xs ! n) else None)"

definition host_char :: "(string \<Rightarrow> bool) \<Rightarrow> string \<Rightarrow> bool" where
  "host_char alnum c = (alnum c \<or> c = ''.'' \<or> c = ''-'' \<or> c = '':'')"

definition word_targets :: "(string \<Rightarrow> bool) \<Rightarrow> string \<Rightarrow> string list" where
  "word_targets alnum word =
     (let cleaned = trim_matches
            (\<lambda>c. c \<in> {CHR 0x22, CHR 0x27, CHR 0x60, CHR '','', CHR '';'', CHR '')'', CHR ''(''}) word
      in (if starts_with cleaned ''/'' \<and> 2 < length cleaned then [cleaned] else [])
         @ (if starts_with cleaned ''~/'' \<and> 2 < length cleaned then [cleaned] else [])
         @ (if starts_with cleaned ''http://'' \<or> starts_with cleaned ''https://'' then
              (case nth_opt (split_str ''//'' cleaned) 1 of
                 Some s \<Rightarrow> [before_colon (hd (split_on (\<lambda>c. c = CHR ''/'') s))]
               | None \<Rightarrow> []) @ [cleaned]
            else [])
         @ (if contains cleaned ''.'' \<and> \<not> contains cleaned '' '' \<and> 4 \<le> length cleaned
               \<and> length cleaned \<le> 253 \<and> list_all (host_char alnum) (chars cleaned)
               \<and> \<not> starts_with cleaned ''.''
            then [before_colon cleaned] else []))"

definition extract_targets_from_text :: "(string \<Rightarrow> bool) \<Rightarrow> string \<Rightarrow> string list" where
  "extract_targets_from_text alnum s =
     remdups_adj (sort (concat (map (word_targets alnum) (split_whitespace s))))"

definition extracted_match :: "string \<Rightarrow> string \<Rightarrow> string option" where
  "extracted_match target e =
     (if target = e \<or> contains target e \<or> contains e target then Some e else None)"

definition target_matches_response :: "string \<Rightarrow> string \<Rightarrow> string list \<Rightarrow> string option" where
  "target_matches_response target response extracted =
     (if target = [] \<or> response = [] then None
      else if contains response target then Some target
      else case find_map (extracted_match target) extracted of
             Some e \<Rightarrow> Some e
           | None \<Rightarrow>
               (let base = last_segment target; ip = before_colon target
                in if 3 \<le> length base \<and> contains response base then Some base
                   else if ip \<noteq> [] \<and> contains ip ''.'' \<and> contains response ip then Some ip
                   else None))"

section \<open>Behaviours and intents\<close>

definition event_to_behavior :: "event_kind \<Rightarrow> string" where
  "event_to_behavior k =
     (case k of
        AgentStdout \<Rightarrow> ''agent_output''
      | AgentStdin \<Rightarrow> ''agent_output''
      | TranscriptWrite \<Rightarrow> ''file_operation''
      | FileOpen \<Rightarrow> ''file_operation''
      | FileCreate \<Rightarrow> ''file_operation''
      | FileWrite \<Rightarrow> ''file_operation''
      | FileDelete \<Rightarrow> ''file_operation''
      | FileRename \<Rightarrow> ''file_operation''
      | NetworkConnect \<Rightarrow> ''network_request''
      | NetworkSend \<Rightarrow> ''network_request''
      | ProcessExec \<Rightarrow> ''process_execution''
      | ProcessFork \<Rightarrow> ''process_execution''
      | DnsQuery \<Rightarrow> ''dns_query''
      | _ \<Rightarrow> ''other'')"

definition expected_intents :: "string \<Rightarrow> string list" where
  "expected_intents b =
     (if b = ''network_request'' then [''network_request'', ''tool_call:'']
      else if b = ''file_operation'' then
        [''file_read'', ''file_write'', ''file_deletion'', ''file_search'', ''credential_read'',
         ''shell_execution'', ''package_operation'', ''tool_call:'']
      else if b = ''process_execution'' then
        [''shell_execution'', ''package_operation'', ''tool_call:'']
      else if b = ''dns_query'' then [''network_request'', ''tool_call:'']
      else [])"

definition intent_matches :: "string \<Rightarrow> string \<Rightarrow> bool" where
  "intent_matches intent behavior =
     list_ex (\<lambda>p. if ends_with p '':'' then starts_with intent p else intent = p)
       (expected_intents behavior)"

definition mismatch_severity :: "event_kind \<Rightarrow> diff_severity" where
  "mismatch_severity k =
     (case k of
        NetworkConnect \<Rightarrow> DiffCritical
      | NetworkSend \<Rightarrow> DiffCritical
      | FileDelete \<Rightarrow> DiffHigh
      | ProcessExec \<Rightarrow> DiffMedium
      | ProcessFork \<Rightarrow> DiffMedium
      | _ \<Rightarrow> DiffLow)"

definition is_credential_path :: "string \<Rightarrow> bool" where
  "is_credential_path path =
     list_ex (contains path)
       [''.ssh/'', ''.aws/credentials'', ''.aws/config'', ''.config/gcloud'', ''keychain'',
        ''Keychain'', ''.gnupg/'', ''.netrc'', ''.npmrc'', ''.pypirc'', ''id_rsa'', ''id_ed25519'',
        ''id_ecdsa'', ''/etc/shadow'', ''/etc/passwd'']"

section \<open>Recording\<close>

definition record_intent :: "intent_record \<Rightarrow> intent_engine \<Rightarrow> intent_engine" where
  "record_intent r E =
     (let xs = ie_intents E @ [r]
      in E\<lparr>ie_intents := (if 500 < length xs then drop (length xs - 500) xs else xs)\<rparr>)"

text \<open>The keys are sorted and the first of them removed until 200 are left.\<close>

definition prune_traces :: "(string \<times> causal_trace) list \<Rightarrow> (string \<times> causal_trace) list" where
  "prune_traces ts =
     (if 200 < length ts then
        fold db_remove (take (length ts - 200) (sort (map fst ts))) ts
      else ts)"

definition new_trace :: "string \<Rightarrow> string \<Rightarrow> security_event \<Rightarrow> timestamp \<Rightarrow> causal_trace" where
  "new_trace trace_id sid ev now =
     \<lparr>ct_trace_id = trace_id, ct_session_id = sid, ct_llm_event = Some ev, ct_actions = [],
      ct_risk_score = 0, ct_risk_reasons = [], ct_started_at = now, ct_ended_at = now\<rparr>"

definition record_llm_response ::
  "(string \<Rightarrow> bool) \<Rightarrow> string \<Rightarrow> timestamp \<Rightarrow> string \<Rightarrow> pid \<Rightarrow> security_event \<Rightarrow> intent_engine
     \<Rightarrow> intent_engine \<times> string" where
  "record_llm_response alnum uuid now sid p ev E =
     (let trace_id = ''trace-'' @ uuid;
          response = (case ev_llm_context ev of
                        Some c \<Rightarrow> (case lc_response_text c of Some s \<Rightarrow> s | None \<Rightarrow> [])
                      | None \<Rightarrow> []);
          calls = (case ev_llm_context ev of
                     Some c \<Rightarrow> (case lc_tool_call c of Some s \<Rightarrow> [s] | None \<Rightarrow> [])
                   | None \<Rightarrow> []);
          rl = \<lparr>rl_session_id = sid, rl_pid = p, rl_response_text = response, rl_tool_calls = calls,
                rl_timestamp = now, rl_trace_id = trace_id,
                rl_extracted_targets = extract_targets_from_text alnum response\<rparr>;
          trace = new_trace trace_id sid ev now;
          recent = ie_recent_llm E @ [rl]
      in (E\<lparr>ie_recent_llm :=
              (if MAX_RECENT_LLM * 10 < length recent
               then drop (length recent - MAX_RECENT_LLM * 10) recent else recent),
            ie_traces := prune_traces (db_insert trace_id trace (ie_traces E))\<rparr>, trace_id))"

section \<open>The context of an event\<close>

text \<open>The outer \<open>None\<close> is a panic of the slice.\<close>

definition context_of :: "recent_llm_response \<Rightarrow> (llm_context \<times> string) option" where
  "context_of r =
     (let s = rl_response_text r;
          mk = (\<lambda>shown. (\<lparr>lc_provider = ''correlated'', lc_model = None, lc_response_text = shown,
                         lc_tool_call = (case rl_tool_calls r of t # _ \<Rightarrow> Some t | [] \<Rightarrow> None),
                         lc_usage = None, lc_response_ts = rl_timestamp r\<rparr>, rl_trace_id r))
      in if s = [] then Some (mk None)
         else if 2048 < length s then
           (case slice_from s (length s - 2048) of None \<Rightarrow> None | Some u \<Rightarrow> Some (mk (Some u)))
         else Some (mk (Some s)))"

definition answers_for :: "timestamp \<Rightarrow> string \<Rightarrow> pid \<Rightarrow> pid option \<Rightarrow> recent_llm_response \<Rightarrow> bool" where
  "answers_for now sid p pp r =
     (within_window now (rl_timestamp r)
      \<and> (rl_session_id r = sid \<or> rl_pid r = p \<or> pp = Some (rl_pid r)))"

definition get_llm_context_for_event ::
  "timestamp \<Rightarrow> string \<Rightarrow> pid \<Rightarrow> pid option \<Rightarrow> intent_engine
     \<Rightarrow> (llm_context \<times> string) option option" where
  "get_llm_context_for_event now sid p pp E =
     (case List.find (answers_for now sid p pp) (rev (ie_recent_llm E)) of
        None \<Rightarrow> Some None
      | Some r \<Rightarrow> (case context_of r of None \<Rightarrow> None | Some c \<Rightarrow> Some (Some c)))"

section \<open>Correlation\<close>

definition correlation_of :: "security_event \<Rightarrow> recent_llm_response \<Rightarrow> correlation_type" where
  "correlation_of ev r =
     (let near = rl_pid r = ev_pid ev \<or> ev_ppid ev = Some (rl_pid r);
          arg = target_matches_response (ev_target ev) (rl_response_text r) (rl_extracted_targets r)
      in if near \<and> arg \<noteq> None then ProcessAndArgument
         else if near then ProcessDirect
         else if arg \<noteq> None then ArgumentMatch
         else TimeWindow)"

definition add_action ::
  "timestamp \<Rightarrow> string \<Rightarrow> correlated_action \<Rightarrow> (string \<times> causal_trace) list
     \<Rightarrow> (string \<times> causal_trace) list" where
  "add_action now tid a ts =
     map (\<lambda>(k, t). (k, if k = tid \<and> length (ct_actions t) < MAX_TRACE_ACTIONS
                       then t\<lparr>ct_actions := ct_actions t @ [a], ct_ended_at := now\<rparr> else t)) ts"

definition correlate_action ::
  "timestamp \<Rightarrow> security_event \<Rightarrow> string \<Rightarrow> intent_engine
     \<Rightarrow> intent_engine \<times> (correlation_type \<times> string) option" where
  "correlate_action now ev sid E =
     (case List.find (\<lambda>r. within_window now (rl_timestamp r) \<and> rl_session_id r = sid)
             (rev (ie_recent_llm E)) of
        None \<Rightarrow> (E, None)
      | Some r \<Rightarrow>
          (let c = correlation_of ev r;
               a = \<lparr>ca_event = ev, ca_correlation = c,
                    ca_matched_argument = target_matches_response (ev_target ev) (rl_response_text r)
                                            (rl_extracted_targets r)\<rparr>
           in (E\<lparr>ie_traces := add_action now (rl_trace_id r) a (ie_traces E)\<rparr>,
               Some (c, rl_trace_id r))))"

section \<open>Sequences\<close>

definition update_sequence :: "string \<Rightarrow> security_event \<Rightarrow> intent_engine \<Rightarrow> intent_engine" where
  "update_sequence sid ev E =
     (let q = (case ie_sequences E sid of Some q \<Rightarrow> q | None \<Rightarrow> empty_sequence);
          kinds = sq_recent_kinds q @ [ev_kind ev];
          targets = sq_recent_targets q @ [ev_target ev];
          q1 = (if MAX_SEQUENCE_LEN < length kinds
                then q\<lparr>sq_recent_kinds := tl kinds, sq_recent_targets := tl targets\<rparr>
                else q\<lparr>sq_recent_kinds := kinds, sq_recent_targets := targets\<rparr>);
          q2 = (if ev_kind ev \<in> {FileOpen, FileCreate} \<and> is_credential_path (ev_target ev)
                then q1\<lparr>sq_cred_read := True, sq_cred_read_ts := Some (ev_timestamp ev)\<rparr> else q1);
          q3 = (if sq_cred_read q2 \<and> ev_kind ev = DnsQuery then q2\<lparr>sq_dns_after_cred := True\<rparr>
                else q2)
      in E\<lparr>ie_sequences := (ie_sequences E)(sid \<mapsto> q3)\<rparr>)"

definition ARROW :: string where
  "ARROW = [CHR 0xE2, CHR 0x86, CHR 0x92]"

definition recent_secs :: "security_event \<Rightarrow> session_sequence \<Rightarrow> nat \<Rightarrow> bool" where
  "recent_secs ev q n =
     (case sq_cred_read_ts q of None \<Rightarrow> False | Some t \<Rightarrow> secs_apart (ev_timestamp ev) t \<le> n)"

definition recent_deletes :: "session_sequence \<Rightarrow> nat" where
  "recent_deletes q = length (filter (\<lambda>k. k = FileDelete) (take 10 (rev (sq_recent_kinds q))))"

definition check_sequence_drift :: "string \<Rightarrow> security_event \<Rightarrow> intent_engine \<Rightarrow> string option" where
  "check_sequence_drift sid ev E =
     (case ie_sequences E sid of
        None \<Rightarrow> None
      | Some q \<Rightarrow>
          if sq_cred_read q \<and> sq_dns_after_cred q \<and> ev_kind ev \<in> {NetworkSend, NetworkConnect}
             \<and> recent_secs ev q 60
          then Some (''credential exfiltration sequence: cred_read '' @ ARROW @ '' dns '' @ ARROW @ '' ''
                 @ (if ev_kind ev = NetworkSend then ''network_send'' else ''network_connect''))
          else if sq_cred_read q \<and> \<not> sq_dns_after_cred q \<and> ev_kind ev = NetworkConnect
             \<and> recent_secs ev q 30
          then Some (''credential exfiltration (direct IP): cred_read '' @ ARROW @ '' network_connect'')
          else if 5 \<le> recent_deletes q \<and> ev_kind ev = FileDelete
          then Some (''mass file deletion: '' @ show_nat (recent_deletes q + 1) @ '' deletes in last ''
                 @ show_nat (min (length (sq_recent_kinds q)) 10) @ '' events'')
          else None)"

section \<open>The check\<close>

definition covered_by_intent ::
  "(string \<Rightarrow> timestamp option) \<Rightarrow> timestamp \<Rightarrow> string \<Rightarrow> intent_engine \<Rightarrow> bool" where
  "covered_by_intent parse_ts now behavior E =
     list_ex (\<lambda>r.
        (case parse_ts (in_timestamp r) of None \<Rightarrow> False | Some t \<Rightarrow> within_window now t)
        \<and> intent_matches (in_intent r) behavior) (rev (ie_intents E))"

definition covered_by_response :: "timestamp \<Rightarrow> string \<Rightarrow> security_event \<Rightarrow> intent_engine \<Rightarrow> bool" where
  "covered_by_response now sid ev E =
     list_ex (\<lambda>r. within_window now (rl_timestamp r) \<and> rl_session_id r = sid
        \<and> target_matches_response (ev_target ev) (rl_response_text r) (rl_extracted_targets r) \<noteq> None)
       (rev (ie_recent_llm E))"

definition escalated :: "string option \<Rightarrow> diff_severity \<Rightarrow> diff_severity" where
  "escalated alert severity =
     (case alert of
        None \<Rightarrow> severity
      | Some s \<Rightarrow> if contains s ''exfiltration'' then DiffCritical
                  else if contains s ''credential'' then DiffHigh else severity)"

definition push_diff :: "intent_diff \<Rightarrow> intent_engine \<Rightarrow> intent_engine" where
  "push_diff d E =
     (let ds = ie_diffs E @ [d]
      in E\<lparr>ie_diffs := (if 1000 < length ds then drop (length ds - 1000) ds else ds)\<rparr>)"

definition newest_intent :: "intent_engine \<Rightarrow> intent_record option" where
  "newest_intent E = (case rev (ie_intents E) of [] \<Rightarrow> None | r # _ \<Rightarrow> Some r)"

definition diff_of ::
  "(timestamp \<Rightarrow> string) \<Rightarrow> string \<Rightarrow> timestamp \<Rightarrow> security_event \<Rightarrow> string \<Rightarrow> intent_engine
     \<Rightarrow> intent_diff" where
  "diff_of show_ts uuid now ev sid E =
     (let alert = check_sequence_drift sid ev E; behavior = event_to_behavior (ev_kind ev)
      in \<lparr>df_id = uuid,
          df_session_id = (case newest_intent E of Some r \<Rightarrow> in_session_id r | None \<Rightarrow> sid),
          df_pid = ev_pid ev,
          df_declared_intent = (case newest_intent E of Some r \<Rightarrow> in_intent r | None \<Rightarrow> ''none''),
          df_observed_behavior =
            (case alert of Some s \<Rightarrow> behavior @ '' [sequence: '' @ s @ '']'' | None \<Rightarrow> behavior),
          df_severity = escalated alert (mismatch_severity (ev_kind ev)),
          df_events = [ev], df_detected_at = show_ts now,
          df_trace_id = map_option rl_trace_id
            (List.find (\<lambda>r. within_window now (rl_timestamp r) \<and> rl_session_id r = sid)
               (rev (ie_recent_llm E)))\<rparr>)"

definition check_event ::
  "(string \<Rightarrow> timestamp option) \<Rightarrow> (timestamp \<Rightarrow> string) \<Rightarrow> string \<Rightarrow> timestamp \<Rightarrow> security_event
     \<Rightarrow> string \<Rightarrow> intent_engine \<Rightarrow> intent_engine \<times> intent_diff option" where
  "check_event parse_ts show_ts uuid now ev sid E =
     (let behavior = event_to_behavior (ev_kind ev)
      in if behavior = ''other'' then (E, None)
         else if behavior = ''network_request'' \<and> is_whitelisted_destination (ev_target ev)
         then (E, None)
         else (let E' = update_sequence sid ev E
               in if covered_by_intent parse_ts now behavior E' then (E', None)
                  else if covered_by_response now sid ev E' then (E', None)
                  else (let d = diff_of show_ts uuid now ev sid E' in (push_diff d E', Some d))))"

definition get_trace :: "intent_engine \<Rightarrow> string \<Rightarrow> causal_trace option" where
  "get_trace E tid = map_of (ie_traces E) tid"

section \<open>Histories\<close>

datatype intent_op =
    IoIntent intent_record
  | IoResponse string timestamp string pid security_event
  | IoCorrelate timestamp security_event string
  | IoCheck string timestamp security_event string

record intent_env =
  iv_alnum :: "string \<Rightarrow> bool"
  iv_parse_ts :: "string \<Rightarrow> timestamp option"
  iv_show_ts :: "timestamp \<Rightarrow> string"

fun intent_step :: "intent_env \<Rightarrow> intent_engine \<Rightarrow> intent_op \<Rightarrow> intent_engine" where
  "intent_step V E (IoIntent r) = record_intent r E"
| "intent_step V E (IoResponse u now sid p ev) =
     fst (record_llm_response (iv_alnum V) u now sid p ev E)"
| "intent_step V E (IoCorrelate now ev sid) = fst (correlate_action now ev sid E)"
| "intent_step V E (IoCheck u now ev sid) =
     fst (check_event (iv_parse_ts V) (iv_show_ts V) u now ev sid E)"

lemma correlate_parts [simp]:
  "ie_intents (fst (correlate_action now ev sid E)) = ie_intents E"
  "ie_diffs (fst (correlate_action now ev sid E)) = ie_diffs E"
  "ie_recent_llm (fst (correlate_action now ev sid E)) = ie_recent_llm E"
  "ie_sequences (fst (correlate_action now ev sid E)) = ie_sequences E"
  by (simp_all add: correlate_action_def Let_def split: option.split)

lemma response_parts [simp]:
  "ie_intents (fst (record_llm_response a u now sid p ev E)) = ie_intents E"
  "ie_diffs (fst (record_llm_response a u now sid p ev E)) = ie_diffs E"
  "ie_sequences (fst (record_llm_response a u now sid p ev E)) = ie_sequences E"
  by (simp_all add: record_llm_response_def Let_def)

lemma intent_parts [simp]:
  "ie_diffs (record_intent r E) = ie_diffs E"
  "ie_recent_llm (record_intent r E) = ie_recent_llm E"
  "ie_traces (record_intent r E) = ie_traces E"
  "ie_sequences (record_intent r E) = ie_sequences E"
  by (simp_all add: record_intent_def Let_def)

lemma update_parts [simp]:
  "ie_intents (update_sequence sid ev E) = ie_intents E"
  "ie_diffs (update_sequence sid ev E) = ie_diffs E"
  "ie_recent_llm (update_sequence sid ev E) = ie_recent_llm E"
  "ie_traces (update_sequence sid ev E) = ie_traces E"
  by (simp_all add: update_sequence_def Let_def)

lemma push_parts [simp]:
  "ie_intents (push_diff d E) = ie_intents E"
  "ie_recent_llm (push_diff d E) = ie_recent_llm E"
  "ie_traces (push_diff d E) = ie_traces E"
  "ie_sequences (push_diff d E) = ie_sequences E"
  by (simp_all add: push_diff_def Let_def)

lemma check_parts [simp]:
  "ie_intents (fst (check_event ps ss u now ev sid E)) = ie_intents E"
  "ie_recent_llm (fst (check_event ps ss u now ev sid E)) = ie_recent_llm E"
  "ie_traces (fst (check_event ps ss u now ev sid E)) = ie_traces E"
  by (simp_all add: check_event_def Let_def)

text \<open>The diffs a step reports.\<close>

fun diffs_of :: "intent_env \<Rightarrow> intent_engine \<Rightarrow> intent_op \<Rightarrow> intent_diff list" where
  "diffs_of V E (IoCheck u now ev sid) =
     (case snd (check_event (iv_parse_ts V) (iv_show_ts V) u now ev sid E) of
        None \<Rightarrow> [] | Some d \<Rightarrow> [d])"
| "diffs_of V E _ = []"

fun intents_of :: "intent_engine \<Rightarrow> intent_op \<Rightarrow> intent_record list" where
  "intents_of E (IoIntent r) = [r]"
| "intents_of E _ = []"

interpretation diffs: bounded_log "intent_step V" "ie_diffs :: intent_engine \<Rightarrow> _" "diffs_of V" 1000
  for V
proof
  fix E :: intent_engine and e
  assume "length (ie_diffs E) \<le> 1000"
  then show "ie_diffs (intent_step V E e) = last_n 1000 (ie_diffs E @ diffs_of V E e)"
    by (cases e) (auto simp: check_event_def Let_def push_diff_def last_n_def)
qed

interpretation intents: bounded_log "intent_step V" "ie_intents :: intent_engine \<Rightarrow> _" intents_of 500
  for V
proof
  fix E :: intent_engine and e
  assume "length (ie_intents E) \<le> 500"
  then show "ie_intents (intent_step V E e) = last_n 500 (ie_intents E @ intents_of E e)"
    by (cases e) (auto simp: record_intent_def Let_def last_n_def)
qed

section \<open>Traces\<close>

lemma key_ordered_sort: "key_ordered ts \<Longrightarrow> sort (map fst ts) = map fst ts"
  by (simp add: key_ordered_def sorted_sort_id strict_sorted_imp_sorted)

lemma remove_prefix: "key_ordered ts \<Longrightarrow> fold db_remove (take n (map fst ts)) ts = drop n ts"
proof (induction n arbitrary: ts)
  case (Suc n)
  show ?case
  proof (cases ts)
    case (Cons x xs)
    have "filter (\<lambda>(k, v). k \<noteq> fst x) xs = xs"
      using Suc.prems Cons by (force simp: filter_id_conv keys_def)
    then have "db_remove (fst x) ts = xs" by (cases x) (simp add: db_remove_def Cons)
    then show ?thesis using Suc Cons by simp
  qed simp
qed simp

lemma prune_is_last: "key_ordered ts \<Longrightarrow> prune_traces ts = last_n 200 ts"
  by (simp add: prune_traces_def key_ordered_sort remove_prefix last_n_def)

lemma key_ordered_drop: "key_ordered ts \<Longrightarrow> key_ordered (drop n ts)"
  by (metis append_take_drop_id key_ordered_append)

text \<open>The sizes of the engine.\<close>

definition engine_bounded :: "intent_engine \<Rightarrow> bool" where
  "engine_bounded E =
     (length (ie_intents E) \<le> 500 \<and> length (ie_diffs E) \<le> 1000 \<and> length (ie_recent_llm E) \<le> 200
      \<and> key_ordered (ie_traces E) \<and> length (ie_traces E) \<le> 200
      \<and> list_all (\<lambda>(k, t). length (ct_actions t) \<le> 100) (ie_traces E)
      \<and> (\<forall>q \<in> ran (ie_sequences E). length (sq_recent_kinds q) \<le> 50
           \<and> length (sq_recent_targets q) = length (sq_recent_kinds q)))"

lemma traces_response:
  "key_ordered (ie_traces E) \<Longrightarrow>
   ie_traces (fst (record_llm_response a u now sid p ev E))
     = last_n 200 (db_insert (''trace-'' @ u) (new_trace (''trace-'' @ u) sid ev now) (ie_traces E))"
  by (simp add: record_llm_response_def Let_def prune_is_last key_ordered_insert)

lemma key_ordered_add: "key_ordered ts \<Longrightarrow> key_ordered (add_action now tid a ts)"
  by (simp add: key_ordered_def add_action_def split_def comp_def)

lemma add_action_bounded:
  "list_all (\<lambda>(k, t). length (ct_actions t) \<le> 100) ts
   \<Longrightarrow> list_all (\<lambda>(k, t). length (ct_actions t) \<le> 100) (add_action now tid a ts)"
  by (auto simp: add_action_def list_all_iff MAX_TRACE_ACTIONS_def)

lemma bounded_step: "engine_bounded E \<Longrightarrow> engine_bounded (intent_step V E e)"
proof -
  assume E: "engine_bounded E"
  have d: "length (ie_diffs (intent_step V E e)) \<le> 1000"
    using E diffs.step_items[of E V e] by (simp add: engine_bounded_def)
  have i: "length (ie_intents (intent_step V E e)) \<le> 500"
    using E intents.step_items[of E V e] by (simp add: engine_bounded_def)
  show ?thesis
  proof (cases e)
    case (IoIntent r)
    then show ?thesis using E d i by (simp add: engine_bounded_def)
  next
    case (IoResponse u now sid p ev)
    define t where "t = new_trace (''trace-'' @ u) sid ev now"
    have t: "ct_actions t = []"
      "ie_traces (intent_step V E e) = last_n 200 (db_insert (''trace-'' @ u) t (ie_traces E))"
      using E traces_response[of E "iv_alnum V" u now sid p ev] IoResponse
      by (simp_all add: engine_bounded_def t_def new_trace_def)
    have "list_all (\<lambda>(k, t). length (ct_actions t) \<le> 100) (db_insert (''trace-'' @ u) t (ie_traces E))"
      using E t(1) set_insert_subset[of "''trace-'' @ u" t "ie_traces E"]
      by (fastforce simp: engine_bounded_def list_all_iff)
    then have "list_all (\<lambda>(k, t). length (ct_actions t) \<le> 100) (ie_traces (intent_step V E e))"
      unfolding t(2) using set_last_n by (fastforce simp: list_all_iff)
    moreover have "key_ordered (ie_traces (intent_step V E e))"
      unfolding t(2) last_n_def using E
      by (intro key_ordered_drop key_ordered_insert) (simp add: engine_bounded_def)
    moreover have "length (ie_recent_llm (intent_step V E e)) \<le> 200"
      using E IoResponse
      by (simp add: engine_bounded_def record_llm_response_def Let_def MAX_RECENT_LLM_def)
    ultimately show ?thesis
      using E d i t(2) IoResponse by (simp add: engine_bounded_def)
  next
    case (IoCorrelate now ev sid)
    then have "ie_traces (intent_step V E e) = ie_traces E
        \<or> (\<exists>tid a. ie_traces (intent_step V E e) = add_action now tid a (ie_traces E))"
      by (auto simp: correlate_action_def Let_def split: option.split)
    then show ?thesis
      using E d i IoCorrelate
      by (auto simp: engine_bounded_def key_ordered_add add_action_bounded)
        (simp_all add: add_action_def)
  next
    case (IoCheck u now ev sid)
    have "ie_sequences (intent_step V E e) \<in> {ie_sequences E, ie_sequences (update_sequence sid ev E)}"
      using IoCheck by (simp add: check_event_def Let_def)
    moreover have "length (sq_recent_kinds q) \<le> 50 \<and> length (sq_recent_targets q) = length (sq_recent_kinds q)"
      if "q \<in> ran (ie_sequences (update_sequence sid ev E))" for q
      using that E
      by (auto simp: engine_bounded_def update_sequence_def Let_def ran_def MAX_SEQUENCE_LEN_def
          empty_sequence_def split: if_splits option.splits)
    ultimately show ?thesis
      using E d i IoCheck by (auto simp: engine_bounded_def)
  qed
qed

interpretation bounded: invariant_system "intent_step V" engine_bounded for V
  by unfold_locales (rule bounded_step)

lemma engine_bounded_new: "engine_bounded new_intent_engine"
  by (simp add: engine_bounded_def new_intent_engine_def)

text \<open>
  Whatever is recorded and checked, in any order: the engine holds the last five hundred intents
  and the last thousand reported differences, exactly; at most two hundred responses, two hundred traces
  of a hundred actions each, and fifty events of a session.
\<close>

theorem engine_keeps_the_newest:
  "ie_intents (foldl (intent_step V) new_intent_engine ops)
     = last_n 500 (produced (intent_step V) intents_of new_intent_engine ops)
   \<and> ie_diffs (foldl (intent_step V) new_intent_engine ops)
     = last_n 1000 (produced (intent_step V) (diffs_of V) new_intent_engine ops)
   \<and> engine_bounded (foldl (intent_step V) new_intent_engine ops)"
  using intents.items_run[of new_intent_engine V ops] diffs.items_run[of new_intent_engine V ops]
    bounded.run_inv[OF engine_bounded_new, of V ops]
  by (simp add: new_intent_engine_def)

section \<open>Which traces are given up\<close>

lemma length_insert_fresh: "k \<notin> keys d \<Longrightarrow> length (db_insert k v d) = Suc (length d)"
  by (induction k v d rule: db_insert.induct) auto

lemma survives_iff:
  assumes "key_ordered d" and "k \<notin> keys d" and "length d = n"
  shows "map_of (last_n n (db_insert k v d)) k \<noteq> None \<longleftrightarrow> (\<exists>j \<in> keys d. j < k)"
proof -
  obtain x xs where x: "db_insert k v d = x # xs"
    using length_insert_fresh[OF assms(2), of v] by (cases "db_insert k v d") auto
  then have drop: "last_n n (db_insert k v d) = xs"
    using length_insert_fresh[OF assms(2), of v] assms(3) by (simp add: last_n_def)
  have ord: "key_ordered (x # xs)" using key_ordered_insert[OF assms(1), of k v] x by simp
  have all_keys: "insert k (keys d) = insert (fst x) (keys xs)" using x by (metis keys_Cons keys_insert)
  have nk: "fst x \<notin> keys xs" using ord by auto
  show ?thesis
  proof (cases "fst x = k")
    case True
    then have "\<forall>j \<in> keys d. k < j"
      using ord all_keys assms(2) nk by (metis insertE insertI2 key_ordered_simps(2))
    moreover have "map_of xs k = None" using nk True by (metis keys_map_of)
    ultimately show ?thesis using drop by (auto dest: less_asym)
  next
    case False
    have "\<forall>j \<in> keys xs. fst x < j" using ord by simp
    moreover have k: "k \<in> keys xs" using all_keys False by (metis insertE insertI1)
    moreover have "fst x \<in> keys d" using all_keys False by (metis insertE insertI1)
    ultimately have "\<exists>j \<in> keys d. j < k" by blast
    then show ?thesis using drop k by (simp add: keys_map_of)
  qed
qed

text \<open>
  Which trace is given up when there are two hundred is decided by the spelling of its random
  identifier and not by its age: the trace of a new response is already gone when its recording
  returns, unless one of the traces held has a smaller identifier.
\<close>

theorem eviction_is_by_identifier:
  assumes "engine_bounded E" and "length (ie_traces E) = 200" and "''trace-'' @ u \<notin> keys (ie_traces E)"
  shows "get_trace (fst (record_llm_response alnum u now sid p ev E))
             (snd (record_llm_response alnum u now sid p ev E)) = None
         \<longleftrightarrow> (\<forall>k \<in> keys (ie_traces E). ''trace-'' @ u < k)"
proof -
  define k where "k = ''trace-'' @ u"
  have ord: "key_ordered (ie_traces E)" using assms(1) by (simp add: engine_bounded_def)
  have "snd (record_llm_response alnum u now sid p ev E) = k"
    by (simp add: record_llm_response_def Let_def k_def)
  then have "get_trace (fst (record_llm_response alnum u now sid p ev E))
             (snd (record_llm_response alnum u now sid p ev E)) = None
         \<longleftrightarrow> \<not> (\<exists>j \<in> keys (ie_traces E). j < k)"
    using survives_iff[OF ord assms(3,2)] traces_response[OF ord, of alnum u now sid p ev]
    unfolding get_trace_def k_def by (metis (no_types, lifting))
  then show ?thesis using assms(3) unfolding k_def[symmetric] by (metis less_asym linorder_neqE)
qed

text \<open>An engine that holds two hundred traces.\<close>

definition W_full :: intent_engine where
  "W_full = new_intent_engine\<lparr>ie_traces :=
     map (\<lambda>i. (replicate (Suc i) (CHR ''z''), new_trace ''z'' ''s'' blank_event 0)) [0..<200]\<rparr>"

lemma replicate_less: "i < j \<Longrightarrow> replicate i (c :: char) < replicate j c"
proof (induction i arbitrary: j)
  case 0
  then show ?case by (cases j) simp_all
next
  case (Suc i)
  then show ?case by (cases j) simp_all
qed

lemma sorted_wrt_upt_less:
  "sorted_wrt (\<lambda>i j. replicate i (c :: char) < replicate j c) [0..<n]"
  by (rule sorted_wrt_mono_rel[of _ "(<)"]) (simp_all add: replicate_less sorted_wrt_upt)

lemma W_full_ok: "engine_bounded W_full"
  by (auto simp: W_full_def engine_bounded_def new_intent_engine_def key_ordered_def comp_def
      sorted_wrt_map new_trace_def list_all_iff sorted_wrt_upt_less)

theorem eviction_is_by_identifier_witness:
  "get_trace (fst (record_llm_response (\<lambda>c. False) ''4f'' 9 ''s'' 7 blank_event W_full))
     (snd (record_llm_response (\<lambda>c. False) ''4f'' 9 ''s'' 7 blank_event W_full)) = None"
proof -
  have "length (ie_traces W_full) = 200" by (simp add: W_full_def)
  moreover have "\<forall>k \<in> keys (ie_traces W_full). ''trace-'' @ ''4f'' < k"
    by (auto simp: W_full_def keys_def less_char_def)
  ultimately show ?thesis
    by (subst eviction_is_by_identifier[OF W_full_ok]) auto
qed

section \<open>Panics\<close>

text \<open>
  Attaching the model's words to a kernel event panics exactly when the newest response that
  answers for the event is longer than 2048 bytes and its cut, 2048 bytes before its end, falls inside a
  character.
\<close>

theorem context_panics_inside_a_character:
  "get_llm_context_for_event now sid p pp E = None \<longleftrightarrow>
     (case List.find (answers_for now sid p pp) (rev (ie_recent_llm E)) of
        None \<Rightarrow> False
      | Some r \<Rightarrow> 2048 < length (rl_response_text r)
          \<and> is_cont (rl_response_text r ! (length (rl_response_text r) - 2048)))"
  by (auto simp: get_llm_context_for_event_def context_of_def Let_def slice_from_def
      split: option.splits)

section \<open>Covering and severity\<close>

text \<open>
  An intent declared by any session covers every other session: while an intent is recent,
  no event whose behaviour it matches is reported, whatever session the event belongs to.
\<close>

theorem one_intent_covers_every_session:
  assumes "r \<in> set (ie_intents E)" and "parse_ts (in_timestamp r) = Some t" and "within_window now t"
    and "intent_matches (in_intent r) (event_to_behavior (ev_kind ev))"
  shows "snd (check_event parse_ts show_ts u now ev sid E) = None"
proof -
  have "covered_by_intent parse_ts now (event_to_behavior (ev_kind ev)) (update_sequence sid ev E)"
    using assms by (auto simp: covered_by_intent_def list_ex_iff intro!: bexI[of _ r])
  then show ?thesis by (simp add: check_event_def Let_def)
qed

definition W_intent :: intent_record where
  "W_intent = \<lparr>in_session_id = ''a'', in_tool_name = ''shell'', in_intent = ''tool_call:shell'',
     in_risk_level = ''low'', in_timestamp = ''now'', in_allowed = True\<rparr>"

theorem one_intent_covers_every_session_witness:
  "snd (check_event (\<lambda>s. if s = ''now'' then Some 5 else None) (\<lambda>t. []) ''u'' 10
      (blank_event\<lparr>ev_kind := NetworkSend, ev_target := ''203.0.113.9:443''\<rparr>) ''b''
      (record_intent W_intent new_intent_engine)) = None"
  by (rule one_intent_covers_every_session[of W_intent _ _ 5])
    (simp_all add: record_intent_def new_intent_engine_def W_intent_def within_window_def secs_apart_def
      CORRELATION_WINDOW_SECS_def intent_matches_def event_to_behavior_def expected_intents_def
      ends_with_def)

lemma contains_set: "contains s n \<Longrightarrow> set n \<subseteq> set s"
  by (auto simp: contains_iff)

lemma contains_middle: "contains (a @ n @ b) n"
  by (auto simp: contains_iff)

lemma digits_not: "\<not> is_ascii_digit c \<Longrightarrow> c \<notin> set (show_nat n)"
  using show_nat_digits[of n] by (auto simp: list_all_iff)

lemma exfil_alert:
  "contains (''credential exfiltration sequence: cred_read '' @ t) ''exfiltration''"
  "contains (''credential exfiltration (direct IP): cred_read '' @ t) ''exfiltration''"
  using contains_middle[of "''credential ''" "''exfiltration''" "'' sequence: cred_read '' @ t"]
    contains_middle[of "''credential ''" "''exfiltration''" "'' (direct IP): cred_read '' @ t"]
  by (simp_all only: append.simps)

lemma delete_alert:
  "\<not> contains (''mass file deletion: '' @ show_nat m @ '' deletes in last '' @ show_nat n @ '' events'') ''exfiltration''"
  "\<not> contains (''mass file deletion: '' @ show_nat m @ '' deletes in last '' @ show_nat n @ '' events'') ''credential''"
  by (auto dest!: contains_set simp: digits_not is_ascii_digit_def byte_def)

lemma drift_alerts:
  assumes "check_sequence_drift sid ev E = Some a"
  shows "escalated (Some a) (mismatch_severity (ev_kind ev)) = mismatch_severity (ev_kind ev)"
proof -
  consider t where "a = ''credential exfiltration sequence: cred_read '' @ t"
      "ev_kind ev \<in> {NetworkSend, NetworkConnect}"
    | t where "a = ''credential exfiltration (direct IP): cred_read '' @ t" "ev_kind ev = NetworkConnect"
    | m n where "a = ''mass file deletion: '' @ show_nat m @ '' deletes in last '' @ show_nat n @ '' events''"
    using assms unfolding check_sequence_drift_def
    by (auto split: option.splits if_splits simp del: append.simps)
  then show ?thesis
  proof cases
    case (1 t)
    then show ?thesis using exfil_alert(1)[of t] by (auto simp: escalated_def mismatch_severity_def)
  next
    case (2 t)
    then show ?thesis using exfil_alert(2)[of t] by (simp add: escalated_def mismatch_severity_def)
  next
    case (3 m n)
    then show ?thesis using delete_alert[of m n] by (simp add: escalated_def)
  qed
qed

text \<open>
  The severity of a reported difference is the one of the event's kind alone: the escalation by
  a detected sequence never changes it.
\<close>

theorem severity_is_of_the_kind:
  assumes "snd (check_event parse_ts show_ts u now ev sid E) = Some d"
  shows "df_severity d = mismatch_severity (ev_kind ev)"
proof -
  have "d = diff_of show_ts u now ev sid (update_sequence sid ev E)"
    using assms by (auto simp: check_event_def Let_def split: if_splits)
  then show ?thesis
    using drift_alerts[of sid ev "update_sequence sid ev E"]
    by (cases "check_sequence_drift sid ev (update_sequence sid ev E)")
      (simp_all add: diff_of_def Let_def escalated_def)
qed

theorem severity_is_of_the_kind_witness:
  "df_severity (diff_of (\<lambda>t. []) ''u'' 10 (blank_event\<lparr>ev_kind := FileDelete, ev_target := ''/tmp/x''\<rparr>) ''b''
      (update_sequence ''b'' (blank_event\<lparr>ev_kind := FileDelete, ev_target := ''/tmp/x''\<rparr>)
         new_intent_engine)) = DiffHigh"
proof -
  let ?ev = "blank_event\<lparr>ev_kind := FileDelete, ev_target := ''/tmp/x''\<rparr>"
  have "snd (check_event (\<lambda>s. None) (\<lambda>t. []) ''u'' 10 ?ev ''b'' new_intent_engine)
        = Some (diff_of (\<lambda>t. []) ''u'' 10 ?ev ''b'' (update_sequence ''b'' ?ev new_intent_engine))"
    by (simp add: check_event_def Let_def event_to_behavior_def covered_by_intent_def
        covered_by_response_def new_intent_engine_def)
  from severity_is_of_the_kind[OF this] show ?thesis by (simp add: mismatch_severity_def)
qed

section \<open>The exfiltration sequence\<close>

text \<open>What the sequence of a session remembers of a credential read.\<close>

definition remembers :: "string \<Rightarrow> timestamp \<Rightarrow> bool \<Rightarrow> intent_engine \<Rightarrow> bool" where
  "remembers sid t dns E =
     (\<exists>q. ie_sequences E sid = Some q \<and> sq_cred_read q \<and> sq_cred_read_ts q = Some t
        \<and> (dns \<longrightarrow> sq_dns_after_cred q))"

text \<open>The operation is not the check of another credential read of the session.\<close>

fun no_other_read :: "string \<Rightarrow> intent_op \<Rightarrow> bool" where
  "no_other_read sid (IoCheck u now ev s) =
     (s \<noteq> sid \<or> ev_kind ev \<notin> {FileOpen, FileCreate} \<or> \<not> is_credential_path (ev_target ev))"
| "no_other_read sid _ = True"

lemma check_sequences:
  "ie_sequences (fst (check_event ps ss u now ev sid E)) =
     (if event_to_behavior (ev_kind ev) = ''other''
         \<or> event_to_behavior (ev_kind ev) = ''network_request'' \<and> is_whitelisted_destination (ev_target ev)
      then ie_sequences E else ie_sequences (update_sequence sid ev E))"
  by (simp add: check_event_def Let_def)

lemma remembers_step:
  assumes "remembers sid t dns E" and "no_other_read sid e"
  shows "remembers sid t dns (intent_step V E e)"
proof (cases e)
  case (IoCheck u now ev s)
  have "remembers sid t dns (update_sequence s ev E)"
    using assms IoCheck
    by (cases "s = sid") (auto simp: remembers_def update_sequence_def Let_def)
  then show ?thesis
    using assms IoCheck by (simp add: remembers_def check_sequences)
qed (use assms in \<open>simp_all add: remembers_def\<close>)

lemma remembers_run:
  "remembers sid t dns E \<Longrightarrow> list_all (no_other_read sid) es
   \<Longrightarrow> remembers sid t dns (foldl (intent_step V) E es)"
  by (induction es arbitrary: E) (simp_all add: remembers_step)

lemma read_remembered:
  "ev_kind ev \<in> {FileOpen, FileCreate} \<Longrightarrow> is_credential_path (ev_target ev)
   \<Longrightarrow> remembers sid (ev_timestamp ev) False (intent_step V E (IoCheck u now ev sid))"
  by (auto simp: remembers_def check_sequences update_sequence_def Let_def event_to_behavior_def)

lemma dns_remembered:
  "remembers sid t False E \<Longrightarrow> ev_kind ev = DnsQuery
   \<Longrightarrow> remembers sid t True (intent_step V E (IoCheck u now ev sid))"
  by (auto simp: remembers_def check_sequences update_sequence_def Let_def event_to_behavior_def)


definition W_env :: intent_env where
  "W_env = \<lparr>iv_alnum = (\<lambda>c. False), iv_parse_ts = (\<lambda>s. None), iv_show_ts = (\<lambda>t. [])\<rparr>"


section \<open>A response that covers everything\<close>

lemma contains_Nil [simp]: "contains s []"
  by (cases s) simp_all

lemma empty_extract_matches:
  "[] \<in> set ext \<Longrightarrow> target \<noteq> [] \<Longrightarrow> response \<noteq> [] \<Longrightarrow> target_matches_response target response ext \<noteq> None"
  by (auto simp: target_matches_response_def extracted_match_def find_map_None split: option.split)

lemma bare_scheme_extracts_nothing:
  "w \<in> set (split_whitespace s) \<Longrightarrow> word_targets alnum w = [[], ''https://'']
   \<Longrightarrow> [] \<in> set (extract_targets_from_text alnum s)"
  by (force simp: extract_targets_from_text_def)

lemma newest_response:
  "ev_llm_context llm = Some c \<Longrightarrow> lc_response_text c = Some s \<Longrightarrow>
   \<exists>r \<in> set (ie_recent_llm (fst (record_llm_response alnum u t sid p llm E))).
     rl_timestamp r = t \<and> rl_session_id r = sid \<and> rl_response_text r = s
     \<and> rl_extracted_targets r = extract_targets_from_text alnum s"
  by (simp add: record_llm_response_def Let_def MAX_RECENT_LLM_def)

text \<open>
  A response in which the word https:// stands alone covers everything: the host extracted from it is the
  empty string, which every target contains, so for thirty seconds nothing the session does to any
  named target is reported.
\<close>

theorem bare_scheme_covers_everything:
  assumes "''https://'' \<in> set (split_whitespace s)"
    and "ev_llm_context llm = Some c" and "lc_response_text c = Some s"
    and "within_window now t" and "ev_target ev \<noteq> []"
  shows "snd (check_event parse_ts show_ts u2 now ev sid
                (fst (record_llm_response alnum u t sid p llm E))) = None"
proof -
  let ?E = "fst (record_llm_response alnum u t sid p llm E)"
  have "word_targets alnum ''https://'' = [[], ''https://'']"
    by (simp add: word_targets_def trim_matches_def nth_opt_def split_str.simps before_colon_def Let_def)
  then have ext: "[] \<in> set (extract_targets_from_text alnum s)"
    by (rule bare_scheme_extracts_nothing[OF assms(1)])
  have s: "s \<noteq> []" using ext
    by (auto simp: extract_targets_from_text_def split_whitespace_def split_whitespace_aux.simps ws_seqs_def)
  obtain r where "r \<in> set (ie_recent_llm ?E)" "rl_timestamp r = t" "rl_session_id r = sid"
    "target_matches_response (ev_target ev) (rl_response_text r) (rl_extracted_targets r) \<noteq> None"
    using newest_response[OF assms(2,3), of alnum u t sid p E] empty_extract_matches[OF ext assms(5) s]
    by metis
  then have "covered_by_response now sid ev (update_sequence sid ev ?E)"
    using assms(4) by (auto simp: covered_by_response_def list_ex_iff intro!: bexI[of _ r])
  then show ?thesis by (simp add: check_event_def Let_def)
qed

definition W_words :: llm_context where
  "W_words = \<lparr>lc_provider = ''p'', lc_model = None, lc_response_text = Some ''see https:// now'',
     lc_tool_call = None, lc_usage = None, lc_response_ts = 0\<rparr>"

definition W_said :: security_event where
  "W_said = blank_event\<lparr>ev_kind := LlmResponse, ev_llm_context := Some W_words\<rparr>"

theorem bare_scheme_covers_everything_witness:
  "snd (check_event (\<lambda>s. None) (\<lambda>t. []) ''u2'' 20
      (blank_event\<lparr>ev_kind := NetworkSend, ev_target := ''203.0.113.9:443''\<rparr>) ''s''
      (fst (record_llm_response (\<lambda>c. False) ''u'' 10 ''s'' 7 W_said new_intent_engine))) = None"
proof -
  have "''https://'' \<in> set (split_whitespace ''see https:// now'')" by code_simp
  then show ?thesis
    by (rule bare_scheme_covers_everything[where c = W_words])
      (simp_all add: W_said_def W_words_def within_window_def secs_apart_def CORRELATION_WINDOW_SECS_def)
qed

end
