(* ===== verification/Sessions.thy ===== *)
theory Sessions
  imports Events Sled
begin

text \<open>
  agent/src/session/store.rs: the sessions of the agents, their states, escalations and short-lived
  identities, the index from processes to sessions, and the events kept for each session. A
  stored value that cannot be read or does not decode is \<open>None\<close>; \<open>wr\<close> is the outcome of the write an
  operation ends with. The clock, fresh identifiers, \<open>plus_secs\<close> (a date plus a number of seconds,
  \<open>None\<close> when chrono panics) and the liveness of a process are arguments.
\<close>

section \<open>Data\<close>

datatype session_state = Pending | Active | WaitingApproval | Expired | Terminated

datatype agent_type =
    AtClaude | AtChatGpt | AtGemini | AtDeepSeek | AtCursor | AtCopilot | AtCodex | AtDevin | AtDriver
  | AtCustom string

definition agent_type_from_class :: "string \<Rightarrow> agent_type" where
  "agent_type_from_class c =
     (if c = ''claude'' then AtClaude else if c = ''cursor'' then AtCursor
      else if c = ''copilot'' then AtCopilot else if c = ''codex'' then AtCodex
      else if c = ''chatgpt'' then AtChatGpt else if c = ''gemini'' then AtGemini
      else if c = ''devin'' then AtDevin else AtCustom c)"

fun agent_type_name :: "agent_type \<Rightarrow> string" where
  "agent_type_name AtClaude = ''claude''"
| "agent_type_name AtChatGpt = ''chatgpt''"
| "agent_type_name AtGemini = ''gemini''"
| "agent_type_name AtDeepSeek = ''deepseek''"
| "agent_type_name AtCursor = ''cursor''"
| "agent_type_name AtCopilot = ''copilot''"
| "agent_type_name AtCodex = ''codex''"
| "agent_type_name AtDevin = ''devin''"
| "agent_type_name AtDriver = ''driver''"
| "agent_type_name (AtCustom s) = s"

record priv_esc_event =
  pe_kind :: string
  pe_process :: string
  pe_target :: string
  pe_pid :: pid
  pe_blocked :: bool
  pe_timestamp :: timestamp

record jit_identity =
  ji_id :: string
  ji_scope :: string
  ji_granted_at :: timestamp
  ji_expires_at :: timestamp
  ji_revoked :: bool

record escalation_request =
  er_id :: string
  er_session_id :: string
  er_tool_name :: string
  er_reason :: string
  er_requested_at :: timestamp
  er_resolved_at :: "timestamp option"
  er_approved :: "bool option"
  er_reviewer :: "string option"

record session =
  se_id :: string
  se_agent_type :: agent_type
  se_actor :: string
  se_declared_scope :: "string list"
  se_state :: session_state
  se_privileged :: bool
  se_privileged_reason :: "string option"
  se_policies :: "string list"
  se_granted_access :: "string list"
  se_jit_identities :: "jit_identity list"
  se_escalations :: "escalation_request list"
  se_start_time :: timestamp
  se_end_time :: "timestamp option"
  se_ttl_secs :: "64 word option"
  se_event_count :: nat
  se_last_event_at :: timestamp
  se_spiffe_id :: "string option"
  se_cert_serial :: "string option"
  se_cert_expires_at :: "timestamp option"
  se_pids :: "pid list"
  se_priv_esc_events :: "priv_esc_event list"

definition new_session ::
  "timestamp \<Rightarrow> string \<Rightarrow> agent_type \<Rightarrow> string \<Rightarrow> string list \<Rightarrow> 64 word option \<Rightarrow> session" where
  "new_session now sid t actor scope ttl =
     \<lparr>se_id = sid, se_agent_type = t, se_actor = actor, se_declared_scope = scope,
      se_state = Pending, se_privileged = False, se_privileged_reason = None, se_policies = [],
      se_granted_access = [], se_jit_identities = [], se_escalations = [], se_start_time = now,
      se_end_time = None, se_ttl_secs = ttl, se_event_count = 0, se_last_event_at = now,
      se_spiffe_id = None, se_cert_serial = None, se_cert_expires_at = None, se_pids = [],
      se_priv_esc_events = []\<rparr>"

definition is_live :: "session \<Rightarrow> bool" where
  "is_live s = (se_state s \<in> {Pending, Active, WaitingApproval})"

text \<open>\<open>(a - b).num_seconds()\<close>, rounded towards zero.\<close>

definition num_seconds :: "timestamp \<Rightarrow> timestamp \<Rightarrow> int" where
  "num_seconds a b =
     (if b \<le> a then (a - b) div 1000000000 else - ((b - a) div 1000000000))"

definition is_timed_out :: "timestamp \<Rightarrow> session \<Rightarrow> bool" where
  "is_timed_out now s =
     (case se_ttl_secs s of None \<Rightarrow> False | Some ttl \<Rightarrow> sint ttl \<le> num_seconds now (se_start_time s))"

definition new_jit ::
  "(timestamp \<Rightarrow> int \<Rightarrow> timestamp option) \<Rightarrow> timestamp \<Rightarrow> string \<Rightarrow> string \<Rightarrow> 64 word
     \<Rightarrow> jit_identity option" where
  "new_jit plus_secs now uuid scope ttl =
     (case plus_secs now (sint ttl) of
        None \<Rightarrow> None
      | Some e \<Rightarrow> Some \<lparr>ji_id = uuid, ji_scope = scope, ji_granted_at = now, ji_expires_at = e,
                        ji_revoked = False\<rparr>)"

definition jit_is_active :: "timestamp \<Rightarrow> jit_identity \<Rightarrow> bool" where
  "jit_is_active now j = (\<not> ji_revoked j \<and> now < ji_expires_at j)"

section \<open>The store\<close>

type_synonym session_tree = "(string \<times> session option) list"
type_synonym event_tree = "(nat \<times> security_event option) list"

record session_store =
  st_sessions :: session_tree
  st_events :: "string \<Rightarrow> event_tree"
  st_index :: "pid \<rightharpoonup> string"
  st_seq :: nat

definition empty_store :: session_store where
  "empty_store = \<lparr>st_sessions = [], st_events = (\<lambda>_. []), st_index = Map.empty, st_seq = 0\<rparr>"

definition get_session :: "session_store \<Rightarrow> string \<Rightarrow> session option" where
  "get_session S sid = (case map_of (st_sessions S) sid of Some (Some s) \<Rightarrow> Some s | _ \<Rightarrow> None)"

definition persist :: "bool \<Rightarrow> session \<Rightarrow> session_store \<Rightarrow> session_store" where
  "persist wr s S =
     (if wr then S\<lparr>st_sessions := db_insert (se_id s) (Some s) (st_sessions S)\<rparr> else S)"

text \<open>The closure answers with the changed session and a result.\<close>

definition update_session ::
  "bool \<Rightarrow> string \<Rightarrow> (session \<Rightarrow> session \<times> 'r) \<Rightarrow> 'r \<Rightarrow> session_store \<Rightarrow> session_store \<times> 'r" where
  "update_session wr sid f missing S =
     (case get_session S sid of
        None \<Rightarrow> (S, missing)
      | Some s \<Rightarrow>
          (let (s', r) = f s
           in (if wr then S\<lparr>st_sessions := db_insert sid (Some s') (st_sessions S)\<rparr> else S, r)))"

definition index_all :: "pid list \<Rightarrow> string \<Rightarrow> (pid \<rightharpoonup> string) \<Rightarrow> (pid \<rightharpoonup> string)" where
  "index_all ps sid m = fold (\<lambda>p m. m(p \<mapsto> sid)) ps m"

definition rebuild_pid_index :: "session_store \<Rightarrow> session_store" where
  "rebuild_pid_index S =
     S\<lparr>st_index := fold (\<lambda>(k, v) m. case v of
                            Some s \<Rightarrow> if is_live s then index_all (se_pids s) (se_id s) m else m
                          | None \<Rightarrow> m) (st_sessions S) Map.empty\<rparr>"

definition migrate_one :: "session \<Rightarrow> session" where
  "migrate_one s = (if se_state s = WaitingApproval then s\<lparr>se_state := Active\<rparr> else s)"

definition migrate_waiting_approval :: "session_store \<Rightarrow> session_store" where
  "migrate_waiting_approval S =
     S\<lparr>st_sessions := map (\<lambda>(k, v). (k, map_option migrate_one v)) (st_sessions S)\<rparr>"

text \<open>What a start of the daemon makes of the trees on disk.\<close>

definition open_store :: "session_tree \<Rightarrow> (string \<Rightarrow> event_tree) \<Rightarrow> session_store" where
  "open_store d ev =
     rebuild_pid_index (migrate_waiting_approval
       \<lparr>st_sessions = d, st_events = ev, st_index = Map.empty, st_seq = 0\<rparr>)"

definition create :: "bool \<Rightarrow> session \<Rightarrow> session_store \<Rightarrow> session_store" where
  "create wr s S = persist wr s (S\<lparr>st_index := index_all (se_pids s) (se_id s) (st_index S)\<rparr>)"

definition set_state_when ::
  "(session \<Rightarrow> bool) \<Rightarrow> session_state \<Rightarrow> session \<Rightarrow> session \<times> bool" where
  "set_state_when guard st s = (if guard s then (s\<lparr>se_state := st\<rparr>, True) else (s, False))"

definition activate :: "bool \<Rightarrow> string \<Rightarrow> session_store \<Rightarrow> session_store \<times> bool" where
  "activate wr sid = update_session wr sid (set_state_when (\<lambda>s. se_state s = Pending) Active) False"

definition request_approval :: "bool \<Rightarrow> string \<Rightarrow> session_store \<Rightarrow> session_store \<times> bool" where
  "request_approval wr sid = update_session wr sid (set_state_when is_live WaitingApproval) False"

definition approve :: "bool \<Rightarrow> string \<Rightarrow> session_store \<Rightarrow> session_store \<times> bool" where
  "approve wr sid =
     update_session wr sid (set_state_when (\<lambda>s. se_state s = WaitingApproval) Active) False"

definition terminated_at :: "timestamp \<Rightarrow> session \<Rightarrow> session \<times> bool" where
  "terminated_at now s =
     (if is_live s then (s\<lparr>se_state := Terminated, se_end_time := Some now\<rparr>, True) else (s, False))"

definition terminate :: "bool \<Rightarrow> timestamp \<Rightarrow> string \<Rightarrow> session_store \<Rightarrow> session_store \<times> bool" where
  "terminate wr now sid S =
     (let purge = (case get_session S sid of Some s \<Rightarrow> se_pids s | None \<Rightarrow> []);
          (S', terminated) = update_session wr sid (terminated_at now) False S
      in (if terminated then S'\<lparr>st_index := fold (\<lambda>p m. m(p := None)) purge (st_index S')\<rparr> else S',
          terminated))"

definition mark_privileged :: "string \<Rightarrow> session \<Rightarrow> session" where
  "mark_privileged reason s =
     (if \<not> se_privileged s then s\<lparr>se_privileged := True, se_privileged_reason := Some reason\<rparr> else s)"

definition set_privileged :: "bool \<Rightarrow> string \<Rightarrow> string \<Rightarrow> session_store \<Rightarrow> session_store" where
  "set_privileged wr sid reason S =
     fst (update_session wr sid (\<lambda>s. (mark_privileged reason s, ())) () S)"

definition inc_events :: "bool \<Rightarrow> timestamp \<Rightarrow> string \<Rightarrow> session_store \<Rightarrow> session_store" where
  "inc_events wr now sid S =
     fst (update_session wr sid
            (\<lambda>s. (s\<lparr>se_event_count := se_event_count s + 1, se_last_event_at := now\<rparr>, ())) () S)"

definition register_pid :: "bool \<Rightarrow> string \<Rightarrow> pid \<Rightarrow> session_store \<Rightarrow> session_store" where
  "register_pid wr sid p S =
     (let S' = fst (update_session wr sid
                 (\<lambda>s. (if p \<notin> set (se_pids s) then s\<lparr>se_pids := se_pids s @ [p]\<rparr> else s, ())) () S)
      in S'\<lparr>st_index := (st_index S')(p \<mapsto> sid)\<rparr>)"

definition find_by_pid :: "pid \<Rightarrow> session_store \<Rightarrow> session_store \<times> session option" where
  "find_by_pid p S =
     (case st_index S p of
        None \<Rightarrow> (S, None)
      | Some sid \<Rightarrow>
          (case get_session S sid of
             None \<Rightarrow> (S, None)
           | Some s \<Rightarrow> if is_live s \<and> p \<in> set (se_pids s) then (S, Some s)
                       else (S\<lparr>st_index := (st_index S)(p := None)\<rparr>, None)))"

definition record_priv_esc :: "bool \<Rightarrow> string \<Rightarrow> priv_esc_event \<Rightarrow> session_store \<Rightarrow> session_store" where
  "record_priv_esc wr sid e S =
     fst (update_session wr sid
            (\<lambda>s. (mark_privileged ''privilege_escalation_detected''
                    (s\<lparr>se_priv_esc_events := se_priv_esc_events s @ [e]\<rparr>), ())) () S)"

text \<open>The outer \<open>None\<close> is a panic of the date arithmetic; nothing has been stored then.\<close>

definition provision_jit ::
  "(timestamp \<Rightarrow> int \<Rightarrow> timestamp option) \<Rightarrow> bool \<Rightarrow> timestamp \<Rightarrow> string \<Rightarrow> string \<Rightarrow> string \<Rightarrow> 64 word
     \<Rightarrow> session_store \<Rightarrow> (session_store \<times> string option) option" where
  "provision_jit plus_secs wr now uuid sid scope ttl S =
     (case get_session S sid of
        None \<Rightarrow> Some (S, None)
      | Some _ \<Rightarrow>
          (case new_jit plus_secs now uuid scope ttl of
             None \<Rightarrow> None
           | Some j \<Rightarrow>
               Some (update_session wr sid
                 (\<lambda>s. (s\<lparr>se_granted_access := (if scope \<notin> set (se_granted_access s)
                                                then se_granted_access s @ [scope]
                                                else se_granted_access s),
                          se_jit_identities := se_jit_identities s @ [j]\<rparr>, Some (ji_id j))) None S)))"

fun revoke_first :: "string \<Rightarrow> jit_identity list \<Rightarrow> jit_identity list option" where
  "revoke_first jid [] = None"
| "revoke_first jid (j # js) =
     (if ji_id j = jid then Some (j\<lparr>ji_revoked := True\<rparr> # js)
      else map_option ((#) j) (revoke_first jid js))"

definition revoke_jit :: "bool \<Rightarrow> string \<Rightarrow> string \<Rightarrow> session_store \<Rightarrow> session_store \<times> bool" where
  "revoke_jit wr sid jid =
     update_session wr sid
       (\<lambda>s. case revoke_first jid (se_jit_identities s) of
              Some js \<Rightarrow> (s\<lparr>se_jit_identities := js\<rparr>, True)
            | None \<Rightarrow> (s, False)) False"

definition decommission_jit :: "bool \<Rightarrow> string \<Rightarrow> session_store \<Rightarrow> session_store" where
  "decommission_jit wr sid S =
     fst (update_session wr sid
            (\<lambda>s. (s\<lparr>se_jit_identities := map (\<lambda>j. j\<lparr>ji_revoked := True\<rparr>) (se_jit_identities s)\<rparr>, ())) () S)"

section \<open>Escalations\<close>

definition escalate ::
  "bool \<Rightarrow> timestamp \<Rightarrow> string \<Rightarrow> string \<Rightarrow> string \<Rightarrow> string \<Rightarrow> session_store
     \<Rightarrow> session_store \<times> string option" where
  "escalate wr now uuid sid tool reason =
     update_session wr sid
       (\<lambda>s. if is_live s then
              (s\<lparr>se_escalations := se_escalations s @
                  [\<lparr>er_id = uuid, er_session_id = sid, er_tool_name = tool, er_reason = reason,
                    er_requested_at = now, er_resolved_at = None, er_approved = None,
                    er_reviewer = None\<rparr>]\<rparr>, Some uuid)
            else (s, None)) None"

fun resolve_first ::
  "timestamp \<Rightarrow> string \<Rightarrow> bool \<Rightarrow> string \<Rightarrow> escalation_request list
     \<Rightarrow> escalation_request list option" where
  "resolve_first now eid approved reviewer [] = None"
| "resolve_first now eid approved reviewer (e # es) =
     (if er_id e = eid \<and> er_approved e = None
      then Some (e\<lparr>er_approved := Some approved, er_reviewer := Some reviewer,
                   er_resolved_at := Some now\<rparr> # es)
      else map_option ((#) e) (resolve_first now eid approved reviewer es))"

definition resolve_in :: "timestamp \<Rightarrow> string \<Rightarrow> bool \<Rightarrow> string \<Rightarrow> session \<Rightarrow> session \<times> bool" where
  "resolve_in now eid approved reviewer s =
     (case resolve_first now eid approved reviewer (se_escalations s) of
        None \<Rightarrow> (s, False)
      | Some es \<Rightarrow>
          (if approved then s\<lparr>se_escalations := es, se_state := Active\<rparr>
           else s\<lparr>se_escalations := es, se_state := Terminated, se_end_time := Some now\<rparr>, True))"

definition resolve_escalation ::
  "bool \<Rightarrow> timestamp \<Rightarrow> string \<Rightarrow> string \<Rightarrow> bool \<Rightarrow> string \<Rightarrow> session_store
     \<Rightarrow> session_store \<times> bool" where
  "resolve_escalation wr now sid eid approved reviewer =
     update_session wr sid (resolve_in now eid approved reviewer) False"

section \<open>Lists and sweeps\<close>

definition all_sessions :: "session_store \<Rightarrow> session list" where
  "all_sessions S = List.map_filter snd (st_sessions S)"

definition list_sessions :: "session_store \<Rightarrow> session list" where
  "list_sessions S = sort_key (\<lambda>s. - se_start_time s) (all_sessions S)"

definition list_active :: "session_store \<Rightarrow> session list" where
  "list_active S = filter is_live (list_sessions S)"

definition list_waiting :: "session_store \<Rightarrow> session list" where
  "list_waiting S = filter (\<lambda>s. se_state s = WaitingApproval) (list_sessions S)"

definition has_unapproved_sessions :: "session_store \<Rightarrow> bool" where
  "has_unapproved_sessions S = list_ex (\<lambda>s. se_state s = WaitingApproval) (all_sessions S)"

definition has_approved_session :: "session_store \<Rightarrow> bool" where
  "has_approved_session S = list_ex (\<lambda>s. se_state s = Active) (all_sessions S)"

definition expire_one :: "(pid \<Rightarrow> bool) \<Rightarrow> timestamp \<Rightarrow> session \<Rightarrow> session" where
  "expire_one alive now s =
     (if \<not> is_live s then s
      else if is_timed_out now s then s\<lparr>se_state := Expired, se_end_time := Some now\<rparr>
      else if 120 < num_seconds now (se_last_event_at s) \<and> se_pids s \<noteq> []
              \<and> \<not> list_ex alive (se_pids s)
      then s\<lparr>se_state := Terminated, se_end_time := Some now\<rparr> else s)"

definition expire_stale :: "(pid \<Rightarrow> bool) \<Rightarrow> timestamp \<Rightarrow> session_store \<Rightarrow> session_store" where
  "expire_stale alive now S =
     S\<lparr>st_sessions := map (\<lambda>(k, v). (k, map_option (expire_one alive now) v)) (st_sessions S)\<rparr>"

section \<open>Events\<close>

definition MAX_EVENTS_PER_SESSION :: nat where
  "MAX_EVENTS_PER_SESSION = 10000"

text \<open>The sixteen bytes of the key, as the number they spell: the nanoseconds, then the counter.\<close>

definition event_key :: "nat \<Rightarrow> timestamp \<Rightarrow> nat" where
  "event_key seq ts =
     (let nanos = (if - (2 ^ 63) \<le> ts \<and> ts < 2 ^ 63 then nat (ts mod 2 ^ 64) else 0)
      in nanos * 2 ^ 64 + seq mod 2 ^ 64)"

definition append_event :: "bool \<Rightarrow> bool \<Rightarrow> string \<Rightarrow> security_event \<Rightarrow> session_store \<Rightarrow> session_store" where
  "append_event wr wr_ev sid ev S =
     (let (S', known) = update_session wr sid
            (\<lambda>s. (s\<lparr>se_event_count := se_event_count s + 1, se_last_event_at := ev_timestamp ev\<rparr>, True))
            False S;
          t = st_events S' sid
      in if \<not> known then S'
         else if length t < MAX_EVENTS_PER_SESSION then
           S'\<lparr>st_seq := st_seq S' + 1,
              st_events := (if wr_ev
                then (st_events S')(sid := db_insert (event_key (st_seq S') (ev_timestamp ev)) (Some ev) t)
                else st_events S')\<rparr>
         else S')"

definition get_events :: "session_store \<Rightarrow> string \<Rightarrow> security_event list" where
  "get_events S sid =
     sort_key (\<lambda>e. - ev_timestamp e) (List.map_filter snd (rev (st_events S sid)))"

section \<open>What an operation does to one session\<close>

lemma get_insert:
  "key_ordered (st_sessions S) \<Longrightarrow>
   get_session (S\<lparr>st_sessions := db_insert k v (st_sessions S)\<rparr>) sid
     = (if sid = k then v else get_session S sid)"
  by (auto simp: get_session_def map_of_insert split: option.splits)

lemma get_other_fields [simp]:
  "get_session (S\<lparr>st_index := m\<rparr>) sid = get_session S sid"
  "get_session (S\<lparr>st_events := ev\<rparr>) sid = get_session S sid"
  "get_session (S\<lparr>st_seq := n\<rparr>) sid = get_session S sid"
  by (simp_all add: get_session_def)

lemma get_update:
  assumes "key_ordered (st_sessions S)"
  shows "get_session (fst (update_session wr k f r S)) sid =
     (if sid = k \<and> wr then map_option (\<lambda>s. fst (f s)) (get_session S sid) else get_session S sid)"
  using assms
  by (auto simp: update_session_def get_insert split_def Let_def split: option.split)

lemma get_update_Some:
  "key_ordered (st_sessions S) \<Longrightarrow> get_session S sid = Some s \<Longrightarrow>
   get_session (fst (update_session wr k f r S)) sid = Some (if sid = k \<and> wr then fst (f s) else s)"
  by (auto simp: get_update)

lemma ordered_update:
  "key_ordered (st_sessions S) \<Longrightarrow> key_ordered (st_sessions (fst (update_session wr k f r S)))"
  by (simp add: update_session_def split_def Let_def key_ordered_insert split: option.split)

lemma update_index [simp]:
  "st_index (fst (update_session wr k f r S)) = st_index S"
  "st_events (fst (update_session wr k f r S)) = st_events S"
  by (simp_all add: update_session_def split_def Let_def split: option.split)

lemma get_mapped:
  "get_session (S\<lparr>st_sessions := map (\<lambda>(k, v). (k, map_option g v)) (st_sessions S)\<rparr>) sid
     = map_option g (get_session S sid)"
proof -
  have "map_of (map (\<lambda>(k, v). (k, map_option g v)) d) sid = map_option (map_option g) (map_of d sid)"
    for d :: session_tree
    by (induction d) auto
  then show ?thesis by (auto simp: get_session_def split: option.split)
qed

lemma ordered_mapped: "key_ordered (map (\<lambda>p. (fst p, g p)) d) = key_ordered d"
  by (simp add: key_ordered_def comp_def)

section \<open>Histories\<close>

record session_env =
  sv_plus_secs :: "timestamp \<Rightarrow> int \<Rightarrow> timestamp option"
  sv_alive :: "timestamp \<Rightarrow> pid \<Rightarrow> bool"

datatype session_op =
    SoCreate bool session
  | SoActivate bool string
  | SoRequest bool string
  | SoApprove bool string
  | SoTerminate bool timestamp string
  | SoPrivileged bool string string
  | SoInc bool timestamp string
  | SoRegister bool string pid
  | SoFind pid
  | SoPrivEsc bool string priv_esc_event
  | SoProvision bool timestamp string string string "64 word"
  | SoRevoke bool string string
  | SoDecommission bool string
  | SoEscalate bool timestamp string string string string
  | SoResolve bool timestamp string string bool string
  | SoExpire timestamp
  | SoAppend bool bool string security_event
  | SoRestart

fun session_step :: "session_env \<Rightarrow> session_store \<Rightarrow> session_op \<Rightarrow> session_store" where
  "session_step V S (SoCreate wr s) = create wr s S"
| "session_step V S (SoActivate wr sid) = fst (activate wr sid S)"
| "session_step V S (SoRequest wr sid) = fst (request_approval wr sid S)"
| "session_step V S (SoApprove wr sid) = fst (approve wr sid S)"
| "session_step V S (SoTerminate wr now sid) = fst (terminate wr now sid S)"
| "session_step V S (SoPrivileged wr sid r) = set_privileged wr sid r S"
| "session_step V S (SoInc wr now sid) = inc_events wr now sid S"
| "session_step V S (SoRegister wr sid p) = register_pid wr sid p S"
| "session_step V S (SoFind p) = fst (find_by_pid p S)"
| "session_step V S (SoPrivEsc wr sid e) = record_priv_esc wr sid e S"
| "session_step V S (SoProvision wr now u sid scope ttl) =
     (case provision_jit (sv_plus_secs V) wr now u sid scope ttl S of None \<Rightarrow> S | Some (S', r) \<Rightarrow> S')"
| "session_step V S (SoRevoke wr sid j) = fst (revoke_jit wr sid j S)"
| "session_step V S (SoDecommission wr sid) = decommission_jit wr sid S"
| "session_step V S (SoEscalate wr now u sid tool reason) = fst (escalate wr now u sid tool reason S)"
| "session_step V S (SoResolve wr now sid eid ok who) = fst (resolve_escalation wr now sid eid ok who S)"
| "session_step V S (SoExpire now) = expire_stale (sv_alive V now) now S"
| "session_step V S (SoAppend wr we sid ev) = append_event wr we sid ev S"
| "session_step V S SoRestart = open_store (st_sessions S) (st_events S)"

text \<open>The moves of a session's state an operation may make.\<close>

fun may_move :: "session_op \<Rightarrow> session_state \<Rightarrow> session_state \<Rightarrow> bool" where
  "may_move (SoActivate wr sid) a b = (a = Pending \<and> b = Active)"
| "may_move (SoRequest wr sid) a b = (a \<in> {Pending, Active, WaitingApproval} \<and> b = WaitingApproval)"
| "may_move (SoApprove wr sid) a b = (a = WaitingApproval \<and> b = Active)"
| "may_move (SoTerminate wr now sid) a b = (a \<in> {Pending, Active, WaitingApproval} \<and> b = Terminated)"
| "may_move (SoResolve wr now sid eid ok who) a b = (b = (if ok then Active else Terminated))"
| "may_move (SoExpire now) a b =
     (a \<in> {Pending, Active, WaitingApproval} \<and> b \<in> {Expired, Terminated})"
| "may_move SoRestart a b = (a = WaitingApproval \<and> b = Active)"
| "may_move _ a b = False"

text \<open>The session an operation is about, where it is about one.\<close>

fun op_session :: "session_op \<Rightarrow> string option" where
  "op_session (SoCreate wr s) = Some (se_id s)"
| "op_session (SoActivate wr sid) = Some sid"
| "op_session (SoRequest wr sid) = Some sid"
| "op_session (SoApprove wr sid) = Some sid"
| "op_session (SoTerminate wr now sid) = Some sid"
| "op_session (SoResolve wr now sid eid ok who) = Some sid"
| "op_session _ = None"

lemma state_marked [simp]: "se_state (mark_privileged r s) = se_state s"
  by (simp add: mark_privileged_def)

lemma get_append:
  "get_session (append_event wr we sid ev S) k = get_session (fst (update_session wr sid
      (\<lambda>s. (s\<lparr>se_event_count := se_event_count s + 1, se_last_event_at := ev_timestamp ev\<rparr>, True))
      False S)) k"
  by (simp add: append_event_def split_def Let_def)

lemma get_register:
  "get_session (register_pid wr sid p S) k = get_session (fst (update_session wr sid
      (\<lambda>s. (if p \<notin> set (se_pids s) then s\<lparr>se_pids := se_pids s @ [p]\<rparr> else s, ())) () S)) k"
  by (simp add: register_pid_def Let_def)

lemma get_terminate:
  "get_session (fst (terminate wr now sid S)) k
     = get_session (fst (update_session wr sid (terminated_at now) False S)) k"
  by (simp add: terminate_def split_def Let_def)

lemma get_create:
  "key_ordered (st_sessions S) \<Longrightarrow>
   get_session (create wr s S) k = (if k = se_id s \<and> wr then Some s else get_session S k)"
  by (auto simp: create_def persist_def get_session_def map_of_insert split: option.split)

lemma get_restart:
  "get_session (open_store (st_sessions S) ev) k =
     map_option migrate_one (get_session S k)"
proof -
  let ?S = "\<lparr>st_sessions = st_sessions S, st_events = ev, st_index = Map.empty, st_seq = 0\<rparr>"
  have "get_session (open_store (st_sessions S) ev) k = get_session (migrate_waiting_approval ?S) k"
    by (simp add: open_store_def rebuild_pid_index_def)
  then show ?thesis unfolding migrate_waiting_approval_def get_mapped by (simp add: get_session_def)
qed

lemma find_keeps [simp]: "get_session (fst (find_by_pid p S)) k = get_session S k"
  "st_sessions (fst (find_by_pid p S)) = st_sessions S"
  by (simp_all add: find_by_pid_def split: option.split)

lemma get_provision:
  "provision_jit ps wr now u sid scope ttl S = Some (S', r) \<Longrightarrow> key_ordered (st_sessions S) \<Longrightarrow>
   get_session S k = Some s \<Longrightarrow> \<exists>s'. get_session S' k = Some s' \<and> se_state s' = se_state s"
  by (auto simp: provision_jit_def get_update dest!: arg_cong[where f = fst] split: option.splits)

lemma resolve_state:
  "se_state (fst (resolve_in now eid ok who s)) \<in> {se_state s, if ok then Active else Terminated}"
  by (simp add: resolve_in_def split: option.split)

lemma step_moves:
  assumes ord: "key_ordered (st_sessions S)" and s: "get_session S k = Some s"
    and "\<forall>wr t. op = SoCreate wr t \<longrightarrow> se_id t \<noteq> k"
  shows "\<exists>s'. get_session (session_step V S op) k = Some s'
           \<and> (se_state s' = se_state s
              \<or> may_move op (se_state s) (se_state s') \<and> op_session op \<in> {None, Some k})"
proof -
  note upd = get_update_Some[OF ord s]
  show ?thesis
  proof (cases op)
    case (SoProvision wr now u sid scope ttl)
    then show ?thesis
      using ord s by (auto split: option.split prod.split dest: get_provision)
  next
    case (SoResolve wr now sid eid ok who)
    then show ?thesis
      using resolve_state[of now eid ok who s] by (auto simp: resolve_escalation_def upd)
  next
    case SoRestart
    then show ?thesis using s by (simp add: get_restart migrate_one_def)
  next
    case (SoExpire now)
    then show ?thesis
      using s by (auto simp: expire_stale_def get_mapped expire_one_def is_live_def)
  qed (use assms(3) s in \<open>auto simp: get_create[OF ord] activate_def request_approval_def approve_def
      upd set_state_when_def is_live_def set_privileged_def inc_events_def get_register record_priv_esc_def
      revoke_jit_def decommission_jit_def escalate_def get_append get_terminate terminated_at_def
      split: option.split\<close>)
qed

lemma step_ordered: "key_ordered (st_sessions S) \<Longrightarrow> key_ordered (st_sessions (session_step V S op))"
  by (cases op)
    (auto simp: create_def persist_def key_ordered_insert activate_def request_approval_def approve_def
      terminate_def split_def Let_def ordered_update set_privileged_def inc_events_def register_pid_def
      record_priv_esc_def provision_jit_def revoke_jit_def decommission_jit_def escalate_def
      resolve_escalation_def expire_stale_def ordered_mapped append_event_def open_store_def
      rebuild_pid_index_def migrate_waiting_approval_def split: option.split dest!: arg_cong[where f = fst])

interpretation trees: invariant_system "session_step V" "\<lambda>S. key_ordered (st_sessions S)" for V
  by unfold_locales (rule step_ordered)

section \<open>Ended sessions\<close>

text \<open>
  The operations that can bring an ended session back: a new session under its identifier, and the
  resolution of one of its escalations.
\<close>

fun revives :: "string \<Rightarrow> session_op \<Rightarrow> bool" where
  "revives sid (SoCreate wr s) = (se_id s = sid)"
| "revives sid (SoResolve wr now k eid ok who) = (k = sid)"
| "revives sid _ = False"

lemma ended_step:
  assumes "key_ordered (st_sessions S)" and "get_session S k = Some s" and "\<not> is_live s"
    and "\<not> revives k op"
  shows "\<exists>s'. get_session (session_step V S op) k = Some s' \<and> se_state s' = se_state s"
proof -
  have "\<forall>wr t. op = SoCreate wr t \<longrightarrow> se_id t \<noteq> k" using assms(4) by auto
  from step_moves[OF assms(1,2) this, of V] obtain s' where
    "get_session (session_step V S op) k = Some s'"
    "se_state s' = se_state s \<or> may_move op (se_state s) (se_state s') \<and> op_session op \<in> {None, Some k}"
    by blast
  then show ?thesis using assms(3,4) by (cases op) (auto simp: is_live_def)
qed

text \<open>
  C6. A session that has expired or was terminated stays so: no sequence of registrations, events,
  approvals, sweeps, restarts and other operations brings it back, unless a session is created under
  its identifier or one of its escalations is resolved.
\<close>

theorem ended_sessions_stay_ended:
  assumes "key_ordered (st_sessions S)" and "get_session S k = Some s" and "\<not> is_live s"
    and "list_all (\<lambda>op. \<not> revives k op) ops"
  shows "\<exists>s'. get_session (foldl (session_step V) S ops) k = Some s' \<and> se_state s' = se_state s"
  using assms
proof (induction ops arbitrary: S s)
  case (Cons op ops)
  then obtain s1 where s1: "get_session (session_step V S op) k = Some s1" "se_state s1 = se_state s"
    using ended_step[of S k s op V] by auto
  then have "\<not> is_live s1" using Cons.prems(3) by (simp add: is_live_def)
  then show ?case
    using Cons.IH[OF step_ordered[OF Cons.prems(1)] s1(1)] Cons.prems(4) s1(2) by auto
qed simp

definition W_session :: session where
  "W_session = (new_session 0 ''s'' AtClaude ''claude'' [] None)\<lparr>se_pids := [7]\<rparr>"

lemmas W_session_defs = W_session_def new_session_def

theorem ended_sessions_stay_ended_witness:
  "\<forall>V. \<exists>s'. get_session (foldl (session_step V)
          (empty_store\<lparr>st_sessions := [(''s'', Some (W_session\<lparr>se_state := Expired\<rparr>))]\<rparr>)
          [SoActivate True ''s'', SoRegister True ''s'' 9, SoRestart, SoApprove True ''s'']) ''s'' = Some s'
       \<and> se_state s' = Expired"
  using ended_sessions_stay_ended[of
      "empty_store\<lparr>st_sessions := [(''s'', Some (W_session\<lparr>se_state := Expired\<rparr>))]\<rparr>" "''s''"
      "W_session\<lparr>se_state := Expired\<rparr>"
      "[SoActivate True ''s'', SoRegister True ''s'' 9, SoRestart, SoApprove True ''s'']"]
  by (simp add: get_session_def is_live_def)

text \<open>The moves a state may make, and that no other happens.\<close>

text \<open>
  C15. The life of a session: an operation leaves the state of every session it is not about as it is,
  except for the sweep (which ends live sessions) and a restart (which activates those waiting), and
  moves the state of its own session only along: pending to active by activation, live to
  waiting by a request, waiting to active by approval, live to terminated, and to active or
  terminated by the resolution of an escalation.
\<close>

theorem states_move_only_as_allowed:
  assumes "get_session (foldl (session_step V) empty_store ops) k = Some s"
    and "\<forall>wr t. op = SoCreate wr t \<longrightarrow> se_id t \<noteq> k"
  shows "\<exists>s'. get_session (foldl (session_step V) empty_store (ops @ [op])) k = Some s'
           \<and> (se_state s' = se_state s
              \<or> may_move op (se_state s) (se_state s') \<and> op_session op \<in> {None, Some k})"
proof -
  have "key_ordered (st_sessions (foldl (session_step V) empty_store ops))"
    by (rule trees.run_inv) (simp add: empty_store_def)
  then show ?thesis using step_moves[OF _ assms] by simp
qed

theorem states_move_only_as_allowed_witness:
  "\<forall>V. \<exists>s'. get_session (foldl (session_step V) empty_store
          ([SoCreate True W_session] @ [SoActivate True ''s''])) ''s'' = Some s'
      \<and> (se_state s' = se_state W_session
         \<or> may_move (SoActivate True ''s'') (se_state W_session) (se_state s')
           \<and> op_session (SoActivate True ''s'') \<in> {None, Some ''s''})"
  by (rule allI, rule states_move_only_as_allowed)
    (simp_all add: W_session_defs create_def persist_def get_session_def empty_store_def index_all_def)

text \<open>
  Approving an escalation brings an ended session back to life: the resolution does not look at
  the state of the session, so a session that was terminated or has expired while an escalation of
  it was open is active again, its end time still set.
\<close>

theorem approval_revives_ended_session:
  assumes "key_ordered (st_sessions S)" and "get_session S k = Some s"
    and "e \<in> set (se_escalations s)" and "er_id e = eid" and "er_approved e = None"
  shows "snd (resolve_escalation True now k eid True who S)
    \<and> (\<exists>s'. get_session (fst (resolve_escalation True now k eid True who S)) k = Some s'
           \<and> se_state s' = Active \<and> se_end_time s' = se_end_time s)"
proof -
  have "resolve_first now eid True who es \<noteq> None" if "e \<in> set es" for es
    using that assms(4,5) by (induction es) auto
  then obtain es where "resolve_first now eid True who (se_escalations s) = Some es"
    using assms(3) by blast
  then show ?thesis
    using assms(1,2)
    by (simp add: resolve_escalation_def resolve_in_def get_update_Some update_session_def get_insert)
qed

definition W_asked :: session_store where
  "W_asked = fst (terminate True 5 ''s'' (fst (escalate True 4 ''e1'' ''s'' ''shell'' ''why''
     (create True W_session empty_store))))"

theorem approval_revives_ended_session_witness:
  "\<not> is_live (the (get_session W_asked ''s''))
   \<and> (\<exists>s'. get_session (fst (resolve_escalation True 9 ''s'' ''e1'' True ''op'' W_asked)) ''s'' = Some s'
       \<and> se_state s' = Active)"
proof -
  let ?e = "\<lparr>er_id = ''e1'', er_session_id = ''s'', er_tool_name = ''shell'', er_reason = ''why'',
    er_requested_at = 4, er_resolved_at = None, er_approved = None, er_reviewer = None\<rparr>"
  let ?s = "W_session\<lparr>se_escalations := [?e], se_state := Terminated, se_end_time := Some 5\<rparr>"
  have s: "get_session W_asked ''s'' = Some ?s" and ord: "key_ordered (st_sessions W_asked)"
    by (simp_all add: W_asked_def W_session_defs terminate_def terminated_at_def escalate_def create_def
        persist_def update_session_def get_session_def empty_store_def is_live_def index_all_def)
  have "?e \<in> set (se_escalations ?s)" by simp
  from approval_revives_ended_session[OF ord s this, of "''e1''" 9 "''op''"]
  show ?thesis using s by (auto simp: is_live_def)
qed

section \<open>From a process to its session\<close>

lemma found_by_pid:
  assumes "snd (find_by_pid p S) = Some s"
  shows "is_live s \<and> p \<in> set (se_pids s)"
  using assms by (auto simp: find_by_pid_def split: option.splits if_splits)

text \<open>
  A process is only ever answered for by a live session that holds it: whatever the index says,
  the session found is the one stored under the identifier the index names, is live, and lists the
  process.
\<close>

theorem found_session_is_live:
  assumes "snd (find_by_pid p S) = Some s"
  shows "is_live s \<and> p \<in> set (se_pids s)
    \<and> (\<exists>sid. st_index S p = Some sid \<and> get_session S sid = Some s)"
  using assms by (auto simp: find_by_pid_def split: option.splits if_splits)

theorem found_session_is_live_witness:
  "is_live W_session \<and> 7 \<in> set (se_pids W_session)
   \<and> (\<exists>sid. st_index (create True W_session empty_store) 7 = Some sid
        \<and> get_session (create True W_session empty_store) sid = Some W_session)"
  by (rule found_session_is_live)
    (simp add: find_by_pid_def create_def persist_def W_session_defs empty_store_def index_all_def
      get_session_def is_live_def)

lemma index_all_at: "index_all ps sid m p = (if p \<in> set ps then Some sid else m p)"
  by (induction ps arbitrary: m) (auto simp: index_all_def)

text \<open>Each session is stored under its own identifier.\<close>

definition own_keys :: "session_tree \<Rightarrow> bool" where
  "own_keys d = list_all (\<lambda>(k, v). case v of Some s \<Rightarrow> se_id s = k | None \<Rightarrow> True) d"

abbreviation indexed :: "(pid \<rightharpoonup> string) \<Rightarrow> string \<times> session option \<Rightarrow> (pid \<rightharpoonup> string)" where
  "indexed m e \<equiv> (case snd e of Some s \<Rightarrow> if is_live s then index_all (se_pids s) (se_id s) m else m
                                | None \<Rightarrow> m)"

lemma index_names_holder:
  assumes "own_keys d" and "distinct (map fst d)"
    and "m p = None \<or> (\<exists>s. (the (m p), Some s) \<in> set (d @ d') \<and> is_live s \<and> p \<in> set (se_pids s))"
    and "(\<exists>k s. (k, Some s) \<in> set d \<and> is_live s \<and> p \<in> set (se_pids s)) \<or> m p \<noteq> None"
  shows "\<exists>sid s. foldl indexed m d p = Some sid \<and> (sid, Some s) \<in> set (d @ d')
           \<and> is_live s \<and> p \<in> set (se_pids s)"
  using assms
proof (induction d arbitrary: m d')
  case Nil
  then show ?case by auto
next
  case (Cons e d)
  obtain k v where e: "e = (k, v)" by (cases e)
  let ?m = "indexed m e"
  have tail: "set ((e # d) @ d') = set (d @ (e # d'))" by auto
  have holder: "?m p = None \<or> (\<exists>s. (the (?m p), Some s) \<in> set (d @ (e # d')) \<and> is_live s \<and> p \<in> set (se_pids s))"
    using Cons.prems(1,3) e by (auto simp: own_keys_def index_all_at split: option.splits)
  have some: "(\<exists>k s. (k, Some s) \<in> set d \<and> is_live s \<and> p \<in> set (se_pids s)) \<or> ?m p \<noteq> None"
    using Cons.prems(4) e by (auto simp: index_all_at split: option.splits)
  have "own_keys d" "distinct (map fst d)" using Cons.prems(1,2) by (simp_all add: own_keys_def)
  then have "\<exists>sid s. foldl indexed ?m d p = Some sid \<and> (sid, Some s) \<in> set (d @ (e # d'))
      \<and> is_live s \<and> p \<in> set (se_pids s)"
    using holder some by (rule Cons.IH)
  then show ?case unfolding tail foldl_Cons .
qed

text \<open>
  A restart loses no process: after the daemon has opened the sessions on disk, every process a
  live session lists is routed to a live session that lists it, those that were waiting for an
  approval included.
\<close>

theorem restart_routes_every_live_process:
  assumes "key_ordered d" and "own_keys d" and "(k, Some s) \<in> set d" and "is_live s"
    and "p \<in> set (se_pids s)"
  shows "\<exists>s'. snd (find_by_pid p (open_store d ev)) = Some s' \<and> is_live s' \<and> p \<in> set (se_pids s')"
proof -
  let ?d = "map (\<lambda>(k, v). (k, map_option migrate_one v)) d"
  have same: "is_live (migrate_one t) = is_live t \<and> se_pids (migrate_one t) = se_pids t
      \<and> se_id (migrate_one t) = se_id t" for t
    by (simp add: migrate_one_def is_live_def)
  have ord: "key_ordered ?d" using assms(1) by (simp add: split_def ordered_mapped)
  have own: "own_keys ?d" using assms(2) same
    by (auto simp: own_keys_def list_all_iff split: option.splits)
  have "(k, Some (migrate_one s)) \<in> set ?d" using assms(3) by force
  then have ex: "\<exists>k t. (k, Some t) \<in> set ?d \<and> is_live t \<and> p \<in> set (se_pids t)"
    using assms(4,5) same by metis
  have none: "Map.empty p = None \<or> (\<exists>t. (the (Map.empty p), Some t) \<in> set (?d @ []) \<and> is_live t
      \<and> p \<in> set (se_pids t))"
    by simp
  from index_names_holder[OF own key_ordered_distinct[OF ord] none disjI1[OF ex]]
  obtain sid t where t: "foldl indexed Map.empty ?d p = Some sid" "(sid, Some t) \<in> set ?d"
    "is_live t" "p \<in> set (se_pids t)"
    unfolding append_Nil2 by blast
  have sessions: "st_sessions (open_store d ev) = ?d"
    by (simp add: open_store_def rebuild_pid_index_def migrate_waiting_approval_def)
  have "st_index (open_store d ev) = foldl indexed Map.empty ?d"
    by (simp add: open_store_def rebuild_pid_index_def migrate_waiting_approval_def foldl_conv_fold
        split_def)
  moreover have "get_session (open_store d ev) sid = Some t"
    using t(2) key_ordered_distinct[OF ord] by (simp add: get_session_def sessions)
  ultimately have "snd (find_by_pid p (open_store d ev)) = Some t"
    using t by (simp add: find_by_pid_def)
  then show ?thesis using t by blast
qed

theorem restart_routes_every_live_process_witness:
  "\<exists>s'. snd (find_by_pid 7 (open_store [(''s'', Some (W_session\<lparr>se_state := WaitingApproval\<rparr>))] (\<lambda>_. [])))
       = Some s' \<and> is_live s' \<and> 7 \<in> set (se_pids s')"
  by (rule restart_routes_every_live_process[of _ "''s''" "W_session\<lparr>se_state := WaitingApproval\<rparr>"])
    (simp_all add: own_keys_def W_session_defs is_live_def)

text \<open>
  Ending a session takes its processes from whoever holds them now: when a process identifier it
  lists has been taken over by another live session, that session is no longer found by it.
\<close>

theorem termination_unroutes_reused_process:
  assumes "key_ordered (st_sessions S)" and "get_session S a = Some sa" and "is_live sa"
    and "p \<in> set (se_pids sa)" and "a \<noteq> b" and "snd (find_by_pid p S) = Some sb" and "se_id sb = b"
    and "get_session S b = Some sb"
  shows "snd (find_by_pid p (fst (terminate True now a S))) = None
    \<and> get_session (fst (terminate True now a S)) b = Some sb \<and> is_live sb \<and> p \<in> set (se_pids sb)"
proof -
  have purge: "fold (\<lambda>q m. m(q := None)) ps m p = None" if "p \<in> set ps \<or> m p = None" for ps m
    using that by (induction ps arbitrary: m) auto
  have "snd (update_session True a (terminated_at now) False S)"
    using assms(2,3) by (simp add: update_session_def split_def Let_def terminated_at_def)
  then have "st_index (fst (terminate True now a S)) p = None"
    using assms(2,4) by (simp add: terminate_def split_def Let_def purge)
  then have "snd (find_by_pid p (fst (terminate True now a S))) = None" by (simp add: find_by_pid_def)
  then show ?thesis
    using assms(1,5,6,8) found_by_pid[OF assms(6)] by (simp add: get_terminate get_update)
qed

definition W_two :: session_store where
  "W_two = register_pid True ''t'' 7 (create True (new_session 0 ''t'' AtCodex ''codex'' [] None)
     (create True W_session empty_store))"

theorem termination_unroutes_reused_process_witness:
  "snd (find_by_pid 7 W_two) \<noteq> None \<and> snd (find_by_pid 7 (fst (terminate True 9 ''s'' W_two))) = None"
proof -
  let ?t = "(new_session 0 ''t'' AtCodex ''codex'' [] None)\<lparr>se_pids := [7]\<rparr>"
  have S: "key_ordered (st_sessions W_two)" "get_session W_two ''s'' = Some W_session"
    "get_session W_two ''t'' = Some ?t" "st_index W_two 7 = Some ''t''"
    by (simp_all add: W_two_def W_session_defs register_pid_def create_def persist_def update_session_def
        get_session_def empty_store_def index_all_def less_char_def)
  have found: "snd (find_by_pid 7 W_two) = Some ?t"
    using S by (simp add: find_by_pid_def is_live_def new_session_def)
  have "snd (find_by_pid 7 (fst (terminate True 9 ''s'' W_two))) = None"
    using termination_unroutes_reused_process[OF S(1,2) _ _ _ found _ S(3), of 9]
    by (simp add: W_session_defs is_live_def)
  then show ?thesis using found by simp
qed

section \<open>Two updates at once\<close>

text \<open>
  An update reads the session and later writes it back; between the two, other threads of the daemon
  may read and write the same session.
\<close>

definition read_phase :: "string \<Rightarrow> session_store \<Rightarrow> session option" where
  "read_phase sid S = get_session S sid"

definition write_phase :: "bool \<Rightarrow> string \<Rightarrow> session \<Rightarrow> session_store \<Rightarrow> session_store" where
  "write_phase wr sid s S =
     (if wr then S\<lparr>st_sessions := db_insert sid (Some s) (st_sessions S)\<rparr> else S)"

lemma update_in_phases:
  "update_session wr sid f missing S =
     (case read_phase sid S of
        None \<Rightarrow> (S, missing)
      | Some s \<Rightarrow> (write_phase wr sid (fst (f s)) S, snd (f s)))"
  by (simp add: update_session_def read_phase_def write_phase_def split_def Let_def split: option.split)

text \<open>
  The termination of a session can be undone by an event: when an event of a live session has
  been read for and the session is terminated before it is written back, the termination reports
  success, the session is terminated, and the write makes it live again.
\<close>

theorem racing_event_undoes_termination:
  assumes "key_ordered (st_sessions S)" and "get_session S sid = Some s" and "is_live s"
    and "read_phase sid S = Some snapshot"
  shows "let (S1, ok) = terminate True now sid S;
             S2 = write_phase True sid (snapshot\<lparr>se_event_count := se_event_count snapshot + 1,
                                                 se_last_event_at := ts\<rparr>) S1
         in ok \<and> map_option se_state (get_session S1 sid) = Some Terminated
            \<and> map_option is_live (get_session S2 sid) = Some True"
proof -
  have snap: "snapshot = s" using assms(2,4) by (simp add: read_phase_def)
  have ok: "snd (terminate True now sid S)"
    using assms(2,3) by (simp add: terminate_def update_session_def split_def Let_def terminated_at_def)
  have S1: "get_session (fst (terminate True now sid S)) sid
      = Some (s\<lparr>se_state := Terminated, se_end_time := Some now\<rparr>)"
    using assms by (simp add: get_terminate get_update_Some terminated_at_def)
  have "key_ordered (st_sessions (fst (terminate True now sid S)))"
    using step_ordered[OF assms(1), of undefined "SoTerminate True now sid"] by simp
  then show ?thesis
    using ok S1 assms(3) snap
    by (simp add: split_def Let_def write_phase_def get_insert is_live_def)
qed

theorem racing_event_undoes_termination_witness:
  "let (S1, ok) = terminate True 9 ''s'' (create True W_session empty_store);
       S2 = write_phase True ''s'' (W_session\<lparr>se_event_count := se_event_count W_session + 1,
                                               se_last_event_at := 8\<rparr>) S1
   in ok \<and> map_option se_state (get_session S1 ''s'') = Some Terminated
      \<and> map_option is_live (get_session S2 ''s'') = Some True"
  by (rule racing_event_undoes_termination[where s = W_session])
    (simp_all add: read_phase_def create_def persist_def W_session_defs empty_store_def get_session_def
      is_live_def index_all_def)

section \<open>The events of a session\<close>

lemma length_insert_le: "length (db_insert k v d) \<le> Suc (length d)"
  by (induction k v d rule: db_insert.induct) auto

lemma length_insert_below: "length d < n \<Longrightarrow> length (db_insert k v d) \<le> n"
  using length_insert_le[of k v d] by linarith

lemma events_step:
  "st_events (session_step V S op) =
     (case op of SoAppend wr we sid ev \<Rightarrow> st_events (append_event wr we sid ev S) | _ \<Rightarrow> st_events S)"
  by (cases op)
    (auto simp: create_def persist_def activate_def request_approval_def approve_def terminate_def
      split_def Let_def set_privileged_def inc_events_def register_pid_def find_by_pid_def
      record_priv_esc_def provision_jit_def revoke_jit_def decommission_jit_def escalate_def
      resolve_escalation_def expire_stale_def open_store_def rebuild_pid_index_def
      migrate_waiting_approval_def split: option.split dest!: arg_cong[where f = fst])

text \<open>
  No session ever has more than ten thousand events on disk, whatever is done and however often
  the daemon restarts; the events that come after are counted and not kept.
\<close>

theorem event_trees_are_bounded:
  "length (st_events (foldl (session_step V) empty_store ops) sid) \<le> 10000"
proof -
  have step: "\<forall>k. length (st_events (session_step V S op) k) \<le> 10000"
    if "\<forall>k. length (st_events S k) \<le> 10000" for S op
  proof (cases op)
    case (SoAppend wr we k ev)
    then show ?thesis
      using that
      by (auto simp: length_insert_below events_step append_event_def split_def Let_def MAX_EVENTS_PER_SESSION_def)
  qed (use that in \<open>simp_all add: events_step del: session_step.simps\<close>)
  have "\<forall>k. length (st_events (foldl (session_step V) S ops) k) \<le> 10000"
    if "\<forall>k. length (st_events S k) \<le> 10000" for S
    using that by (induction ops arbitrary: S) (simp_all add: step)
  then show ?thesis by (simp add: empty_store_def)
qed

end
