(* ===== verification/TranscriptTaint.thy ===== *)
theory TranscriptTaint
  imports KernelMaps Caller
begin

text \<open>
  agent/src/transcript_taint.rs: the watcher that reads what agents append to their transcripts and
  raises taint on the process tree of an agent that took in external content. Arguments: the
  JSON parser, \<open>from_utf8_lossy\<close>, what the file system says of a transcript at a poll and what a
  read of it returns, the contents of /proc.
\<close>

section \<open>Provenance\<close>

definition is_external_tool :: "string \<Rightarrow> bool" where
  "is_external_tool name =
     (let n = to_ascii_lowercase name
      in n = ''webfetch'' \<or> n = ''websearch'' \<or> n = ''web_fetch'' \<or> n = ''web_search''
         \<or> starts_with n ''mcp__'')"

datatype provenance = WebFetch | WebSearch | Mcp string

fun provenance_label :: "provenance \<Rightarrow> string" where
  "provenance_label WebFetch = ''web_fetch''"
| "provenance_label WebSearch = ''web_search''"
| "provenance_label (Mcp server) = ''mcp:'' @ server"

definition from_tool :: "string \<Rightarrow> provenance option" where
  "from_tool name =
     (let n = to_ascii_lowercase name
      in if n = ''webfetch'' \<or> n = ''web_fetch'' then Some WebFetch
         else if n = ''websearch'' \<or> n = ''web_search'' then Some WebSearch
         else case strip_prefix ''mcp__'' n of
                Some rest \<Rightarrow> Some (Mcp (hd (split_str ''__'' rest)))
              | None \<Rightarrow> None)"

definition block_signal :: "json \<Rightarrow> provenance option" where
  "block_signal block =
     (if Option.bind (json_get block ''type'') as_str = Some ''tool_use'' then
        (case Option.bind (json_get block ''name'') as_str of Some n \<Rightarrow> from_tool n | None \<Rightarrow> None)
      else None)"

definition record_signal :: "(string \<Rightarrow> json option) \<Rightarrow> string \<Rightarrow> provenance option" where
  "record_signal parse line =
     (case parse line of
        None \<Rightarrow> None
      | Some v \<Rightarrow>
          if Option.bind (json_get v ''type'') as_str \<noteq> Some ''assistant'' then None
          else (case json_get v ''message'' of
                  None \<Rightarrow> None
                | Some m \<Rightarrow> (case json_get m ''content'' of
                               Some (JArr blocks) \<Rightarrow> find_map block_signal blocks
                             | _ \<Rightarrow> None)))"

lemma external_tools_have_provenance: "is_external_tool n \<longleftrightarrow> from_tool n \<noteq> None"
  by (auto simp: is_external_tool_def from_tool_def Let_def strip_prefix_def split: option.split)

section \<open>Tailing a transcript\<close>

definition MAX_READ_PER_POLL :: nat where
  "MAX_READ_PER_POLL = 512 * 1024"

record tail =
  ta_offset :: nat
  ta_ino :: "64 word"
  ta_partial :: string

text \<open>
  A transcript at a poll: its size and inode, its creation time (or modification time, where the file
  system has none), and the bytes a read of at most \<open>n\<close> from an offset returns, \<open>None\<close> when the
  file cannot be opened, sought or read.
\<close>

record transcript_file =
  tf_size :: nat
  tf_ino :: "64 word"
  tf_created :: "timestamp option"
  tf_read :: "nat \<Rightarrow> nat \<Rightarrow> string option"

definition first_sight :: "timestamp \<Rightarrow> transcript_file \<Rightarrow> tail" where
  "first_sight started f =
     (let created_since_start = (case tf_created f of Some t \<Rightarrow> started \<le> t | None \<Rightarrow> False)
      in \<lparr>ta_offset = (if created_since_start then 0 else tf_size f), ta_ino = tf_ino f,
          ta_partial = []\<rparr>)"

definition restart_if_rotated :: "transcript_file \<Rightarrow> tail \<Rightarrow> tail" where
  "restart_if_rotated f t =
     (if ta_ino t \<noteq> tf_ino f \<or> tf_size f < ta_offset t
      then \<lparr>ta_offset = 0, ta_ino = tf_ino f, ta_partial = []\<rparr> else t)"

definition NL :: char where
  "NL = CHR 0x0A"

definition line_signal :: "(string \<Rightarrow> json option) \<Rightarrow> string \<Rightarrow> provenance option" where
  "line_signal parse line = (let l = trim line in if l = [] then None else record_signal parse l)"

definition scan_text ::
  "(string \<Rightarrow> json option) \<Rightarrow> string \<Rightarrow> string \<times> provenance list" where
  "scan_text parse s =
     (let (complete, rest) = (case rsplit_once NL s of Some (a, b) \<Rightarrow> (a, b) | None \<Rightarrow> ([], s))
      in (rest, List.map_filter (line_signal parse) (str_lines complete)))"

definition drain_transcript ::
  "(string \<Rightarrow> string) \<Rightarrow> (string \<Rightarrow> json option) \<Rightarrow> timestamp \<Rightarrow> transcript_file option \<Rightarrow> string
     \<Rightarrow> (string \<rightharpoonup> tail) \<Rightarrow> (string \<rightharpoonup> tail) \<times> provenance list" where
  "drain_transcript lossy parse started file path tails =
     (case file of
        None \<Rightarrow> (tails, [])
      | Some f \<Rightarrow>
          (let t = restart_if_rotated f (case tails path of Some t \<Rightarrow> t | None \<Rightarrow> first_sight started f);
               tails1 = tails(path \<mapsto> t)
           in if tf_size f \<le> ta_offset t then (tails1, [])
              else (case tf_read f (ta_offset t) (min (tf_size f - ta_offset t) MAX_READ_PER_POLL) of
                      None \<Rightarrow> (tails1, [])
                    | Some buf \<Rightarrow>
                        (let (rest, signals) = scan_text parse (ta_partial t @ lossy buf)
                         in (tails1(path \<mapsto> t\<lparr>ta_offset := ta_offset t + length buf,
                                                 ta_partial := rest\<rparr>), signals)))))"

definition retain_tails :: "(string \<Rightarrow> bool) \<Rightarrow> (string \<rightharpoonup> tail) \<Rightarrow> (string \<rightharpoonup> tail)" where
  "retain_tails still_there tails = tails |` {p. still_there p}"

section \<open>From a transcript to the processes\<close>

text \<open>
  /proc as the watcher reads it: the numeric entries in directory order, each with the targets of
  its descriptors (\<open>None\<close> when they cannot be listed) and its parent.
\<close>

record proc_entry =
  px_pid :: pid
  px_fds :: "string list option"
  px_parent :: "pid option"

definition pid_holding_file :: "(string \<Rightarrow> string option) \<Rightarrow> pid \<Rightarrow> proc_entry list \<Rightarrow> string \<Rightarrow> pid option" where
  "pid_holding_file canonical me procs path =
     (let want = (case canonical path of Some c \<Rightarrow> c | None \<Rightarrow> path)
      in map_option px_pid
           (List.find (\<lambda>e. px_pid e \<noteq> me
                        \<and> (case px_fds e of None \<Rightarrow> False | Some fds \<Rightarrow> want \<in> set fds)) procs))"

definition children_of :: "proc_entry list \<Rightarrow> pid \<Rightarrow> pid list" where
  "children_of procs p = map px_pid (filter (\<lambda>e. px_parent e = Some p) procs)"

text \<open>The walk: \<open>out\<close> is what has been found, \<open>stack\<close> what is still to be visited, its top first.\<close>

fun push_kids :: "pid list \<Rightarrow> pid list \<Rightarrow> pid list \<Rightarrow> pid list \<times> pid list" where
  "push_kids [] out stack = (out, stack)"
| "push_kids (k # ks) out stack =
     (if k \<notin> set out then push_kids ks (out @ [k]) (k # stack) else push_kids ks out stack)"

lemma push_kids_adds:
  "push_kids ks out stack = (out', stack') \<Longrightarrow>
   set out' = set out \<union> set ks \<and> set stack' = set stack \<union> (set out' - set out)
   \<and> (out' = out \<longrightarrow> stack' = stack)"
proof (induction ks out stack rule: push_kids.induct)
  case (2 k ks out stack)
  show ?case
  proof (cases "k \<in> set out")
    case False
    then have IH: "set out' = set (out @ [k]) \<union> set ks"
      "set stack' = set (k # stack) \<union> (set out' - set (out @ [k]))"
      using 2 by auto
    then have "out' \<noteq> out" using False by auto
    then show ?thesis using IH False by auto
  qed (use 2 in auto)
qed auto

function walk_tree :: "proc_entry list \<Rightarrow> pid list \<Rightarrow> pid list \<Rightarrow> pid list" where
  "walk_tree procs out [] = out"
| "walk_tree procs out (p # stack) =
     (let (out', stack') = push_kids (children_of procs p) out stack in walk_tree procs out' stack')"
  by pat_completeness auto
termination
proof (relation "(\<lambda>(procs, out, stack). card (px_pid ` set procs - set out)) <*mlex*>
                 measure (\<lambda>(procs, out, stack). length stack)", simp add: wf_mlex)
  fix procs out p stack x out' stack'
  assume x: "x = push_kids (children_of procs p) out stack" "(out', stack') = x"
  let ?A = "px_pid ` set procs"
  have push: "set out' = set out \<union> set (children_of procs p)" "out' = out \<longrightarrow> stack' = stack"
    using push_kids_adds[of "children_of procs p" out stack out' stack'] x by auto
  have kids: "set (children_of procs p) \<subseteq> ?A" by (auto simp: children_of_def)
  show "((procs, out', stack'), procs, out, p # stack)
        \<in> (\<lambda>(procs, out, stack). card (px_pid ` set procs - set out)) <*mlex*>
           measure (\<lambda>(procs, out, stack). length stack)"
  proof (cases "set (children_of procs p) \<subseteq> set out")
    case True
    have "push_kids ks out stack = (out, stack)" if "set ks \<subseteq> set out" for ks
      using that by (induction ks) auto
    then show ?thesis using True x by (auto simp: mlex_prod_def)
  next
    case False
    then have "?A - set out' \<subset> ?A - set out" using push(1) kids by auto
    then have "card (?A - set out') < card (?A - set out)" by (simp add: psubset_card_mono)
    then show ?thesis by (simp add: mlex_prod_def)
  qed
qed

declare walk_tree.simps(2) [simp del]

definition pid_and_descendants :: "proc_entry list \<Rightarrow> pid \<Rightarrow> pid list" where
  "pid_and_descendants procs p = walk_tree procs [p] [p]"

text \<open>\<open>up\<close>: the loader is running and has given its channel.\<close>

definition on_external_ingestion ::
  "(string \<Rightarrow> string option) \<Rightarrow> pid \<Rightarrow> proc_entry list \<Rightarrow> bool \<Rightarrow> string \<Rightarrow> ebpf_command list" where
  "on_external_ingestion canonical me procs up path =
     (case pid_holding_file canonical me procs path of
        None \<Rightarrow> []
      | Some p \<Rightarrow> if up then map (\<lambda>q. CSetTaint q False) (pid_and_descendants procs p) else [])"

section \<open>The walk finds every descendant\<close>

definition parent_edges :: "proc_entry list \<Rightarrow> (pid \<times> pid) set" where
  "parent_edges procs = {(p, px_pid e) |p e. e \<in> set procs \<and> px_parent e = Some p}"

lemma children_are_edges: "q \<in> set (children_of procs p) \<longleftrightarrow> (p, q) \<in> parent_edges procs"
  by (auto simp: children_of_def parent_edges_def)

lemma walk_invariant:
  assumes "set stack \<subseteq> set out" and "\<And>x. x \<in> set out - set stack \<Longrightarrow> set (children_of procs x) \<subseteq> set out"
    and "\<And>x. x \<in> set out \<Longrightarrow> (p, x) \<in> (parent_edges procs)\<^sup>*"
  shows "set out \<subseteq> set (walk_tree procs out stack)
    \<and> (\<forall>x \<in> set (walk_tree procs out stack). set (children_of procs x) \<subseteq> set (walk_tree procs out stack)
        \<and> (p, x) \<in> (parent_edges procs)\<^sup>*)"
  using assms
proof (induction procs out stack rule: walk_tree.induct)
  case (1 procs out)
  then show ?case by auto
next
  case (2 procs out q stack)
  obtain out' stack' where k: "push_kids (children_of procs q) out stack = (out', stack')"
    by (cases "push_kids (children_of procs q) out stack") auto
  note adds = push_kids_adds[OF k]
  have "set stack' \<subseteq> set out'" using adds "2.prems"(1) by auto
  moreover have "set (children_of procs x) \<subseteq> set out'" if "x \<in> set out' - set stack'" for x
  proof (cases "x = q")
    case False
    then have "x \<in> set out - set (q # stack)" using that adds by auto
    then show ?thesis using "2.prems"(2) adds by blast
  qed (use adds in auto)
  moreover have "(p, x) \<in> (parent_edges procs)\<^sup>*" if "x \<in> set out'" for x
  proof -
    have "q \<in> set out" using "2.prems"(1) by simp
    then have "(p, q) \<in> (parent_edges procs)\<^sup>*" by (rule "2.prems"(3))
    moreover have "x \<in> set out \<or> (q, x) \<in> parent_edges procs"
      using that adds children_are_edges[of x procs q] by auto
    ultimately show ?thesis using "2.prems"(3)[of x] by (auto intro: rtrancl_into_rtrancl)
  qed
  ultimately have "set out' \<subseteq> set (walk_tree procs out' stack')
    \<and> (\<forall>x \<in> set (walk_tree procs out' stack'). set (children_of procs x) \<subseteq> set (walk_tree procs out' stack')
        \<and> (p, x) \<in> (parent_edges procs)\<^sup>*)"
    using "2.IH"[of "(out', stack')" out' stack'] k by simp
  then show ?case using k adds by (simp add: walk_tree.simps(2) Let_def)
qed

lemma walk_finds_descendants:
  "set (pid_and_descendants procs p) = {q. (p, q) \<in> (parent_edges procs)\<^sup>*}"
proof -
  let ?R = "set (pid_and_descendants procs p)"
  have inv: "p \<in> ?R" "\<And>x. x \<in> ?R \<Longrightarrow> set (children_of procs x) \<subseteq> ?R"
    "\<And>x. x \<in> ?R \<Longrightarrow> (p, x) \<in> (parent_edges procs)\<^sup>*"
    using walk_invariant[of "[p]" "[p]" procs p] by (auto simp: pid_and_descendants_def)
  have "q \<in> ?R" if "(p, q) \<in> (parent_edges procs)\<^sup>*" for q
    using that by (induction rule: rtrancl_induct) (use inv children_are_edges in blast)+
  then show ?thesis using inv(3) by auto
qed

text \<open>
  The walk over /proc ends, and finds exactly the process itself and every process below it in the
  parent relation, however the entries are ordered and even when parents form a cycle.
\<close>

theorem walk_finds_exactly_the_descendants:
  "set (pid_and_descendants procs p) = {q. (p, q) \<in> (parent_edges procs)\<^sup>*}"
  by (rule walk_finds_descendants)

section \<open>External content taints the whole tree\<close>

lemma taint_list:
  "plain m \<Longrightarrow> length (bm_entries m) + length qs \<le> bm_max m \<Longrightarrow>
   (q \<in> set qs \<or> (\<exists>t. bm_get m q = Some t \<and> ti_tainted t)) \<Longrightarrow>
   \<exists>t. bm_get (fold (\<lambda>q m. raise_taint E q False m) qs m) q = Some t \<and> ti_tainted t"
proof (induction qs arbitrary: m)
  case (Cons r qs)
  let ?m = "raise_taint E r False m"
  have p: "plain ?m" using Cons.prems(1) by (simp add: raise_taint_def Let_def bm_simps)
  have len: "length (bm_entries ?m) + length qs \<le> bm_max ?m"
    using Cons.prems(1,2) by (simp add: raise_taint_def Let_def insert_length bm_simps)
  have "q \<in> set qs \<or> (\<exists>t. bm_get ?m q = Some t \<and> ti_tainted t)"
    using Cons.prems by (auto simp: raise_taint_def Let_def bm_get_insert)
  with Cons.IH[OF p len] show ?case by simp
qed auto

lemma apply_taints:
  "k_taint (apply_commands E (map (\<lambda>q. CSetTaint q False) qs) K)
     = fold (\<lambda>q m. raise_taint E q False m) qs (k_taint K)"
  unfolding apply_commands_def by (induction qs arbitrary: K) simp_all

text \<open>
  C31. External content taints the whole tree: when a process other than the daemon holds the transcript
  and the kernel's map has room, then after the commands are applied the process found and every
  process below it are tainted.
\<close>

theorem ingestion_taints_the_tree:
  assumes "pid_holding_file canonical me procs path = Some p"
    and "room (length (pid_and_descendants procs p)) (k_taint K)"
    and "(p, q) \<in> (parent_edges procs)\<^sup>*"
  shows "\<exists>t. bm_get (k_taint (apply_commands E (on_external_ingestion canonical me procs True path) K)) q
             = Some t \<and> ti_tainted t"
proof -
  have "q \<in> set (pid_and_descendants procs p)"
    using assms(3) by (simp add: walk_finds_descendants)
  then show ?thesis
    using assms(1,2) taint_list[of "k_taint K" "pid_and_descendants procs p" q E]
    by (simp add: on_external_ingestion_def apply_taints room_def)
qed

section \<open>Every record is read once\<close>

text \<open>The signals of a text, line by line.\<close>

definition signals_of :: "(string \<Rightarrow> json option) \<Rightarrow> string \<Rightarrow> provenance list" where
  "signals_of parse s = List.map_filter (line_signal parse) (split_on (\<lambda>c. c = NL) s)"

lemma map_filter_append: "List.map_filter f (xs @ ys) = List.map_filter f xs @ List.map_filter f ys"
  by (simp add: List.map_filter_def)

lemma line_signal_Nil [simp]: "line_signal parse [] = None"
  by (simp add: line_signal_def)

lemma signals_of_Nil [simp]: "signals_of parse [] = []"
  by (simp add: signals_of_def List.map_filter_def)

lemma signals_of_append: "signals_of parse (a @ NL # b) = signals_of parse a @ signals_of parse b"
  by (simp add: signals_of_def split_on_append map_filter_append)

lemma signals_after_newline:
  "a = [] \<or> last a = NL \<Longrightarrow> signals_of parse (a @ b) = signals_of parse a @ signals_of parse b"
proof (cases a rule: rev_cases)
  case (snoc x y)
  assume "a = [] \<or> last a = NL"
  then have a: "a = x @ [NL]" using snoc by auto
  have "signals_of parse (x @ NL # []) = signals_of parse x @ []" unfolding signals_of_append by simp
  then show ?thesis using a signals_of_append[of parse x b] by simp
qed simp

lemma split_on_subset: "w \<in> set (split_on p s) \<Longrightarrow> set w \<subseteq> set s"
proof (induction s arbitrary: w)
  case (Cons c s)
  then show ?case by (cases "split_on p s") (fastforce split: if_splits)+
qed simp

lemma lines_signals:
  assumes "CHR 0x0D \<notin> set s"
  shows "List.map_filter (line_signal parse) (str_lines s) = signals_of parse s"
proof -
  let ?ps = "split_on (\<lambda>c. c = NL) s"
  have "strip_cr w = w" if "w \<in> set ?ps" for w
    using that assms split_on_subset[of w] by (fastforce simp: strip_cr_def ends_with_iff)
  then have "map strip_cr (butlast ?ps) = butlast ?ps"
    by (simp add: map_idI in_set_butlastD)
  then have "List.map_filter (line_signal parse) (str_lines s)
      = List.map_filter (line_signal parse) (butlast ?ps)
        @ List.map_filter (line_signal parse) (if last ?ps = [] then [] else [last ?ps])"
    by (simp add: str_lines_def NL_def Let_def map_filter_append)
  also have "List.map_filter (line_signal parse) (if last ?ps = [] then [] else [last ?ps])
      = List.map_filter (line_signal parse) [last ?ps]"
    by (simp add: map_filter_simps)
  also have "List.map_filter (line_signal parse) (butlast ?ps) @ \<dots> = List.map_filter (line_signal parse) ?ps"
    by (metis map_filter_append append_butlast_last_id split_on_nonempty)
  finally show ?thesis by (simp add: signals_of_def)
qed

lemma scan_text_split:
  assumes "scan_text parse s = (rest, sigs)" and "CHR 0x0D \<notin> set s"
  shows "\<exists>d. s = d @ rest \<and> (d = [] \<or> last d = NL) \<and> NL \<notin> set rest \<and> sigs = signals_of parse d"
proof (cases "rsplit_once NL s")
  case None
  then have "NL \<notin> set s" by (simp add: rsplit_once_def split_once_None)
  moreover have "rest = s" "sigs = []"
    using assms(1) None by (auto simp: scan_text_def str_lines_def map_filter_simps)
  ultimately show ?thesis by simp
next
  case (Some ab)
  obtain a b where ab: "ab = (a, b)" by (cases ab)
  then have s: "s = a @ NL # b" "NL \<notin> set b" using rsplit_once_Some[of NL s a b] Some by auto
  have "rest = b" "sigs = signals_of parse a"
    using assms Some ab s(1) lines_signals[of a parse] by (auto simp: scan_text_def)
  moreover have "signals_of parse (a @ [NL]) = signals_of parse a"
    using signals_of_append[of parse a "[]"] by simp
  ultimately show ?thesis using s by (intro exI[of _ "a @ [NL]"]) simp
qed

text \<open>The file at a poll has the content \<open>c\<close>: its size, and what a read returns.\<close>

definition shows_content :: "64 word \<Rightarrow> string \<Rightarrow> transcript_file \<Rightarrow> bool" where
  "shows_content ino c f =
     (tf_size f = length c \<and> tf_ino f = ino
      \<and> (\<forall>off n b. tf_read f off n = Some b \<longrightarrow> prefix b (drop off c)))"

definition poll_step ::
  "(string \<Rightarrow> string) \<Rightarrow> (string \<Rightarrow> json option) \<Rightarrow> timestamp \<Rightarrow> string
     \<Rightarrow> (string \<rightharpoonup> tail) \<times> provenance list \<Rightarrow> transcript_file \<Rightarrow> (string \<rightharpoonup> tail) \<times> provenance list" where
  "poll_step lossy parse started path st f =
     (let (tails, sigs) = drain_transcript lossy parse started (Some f) path (fst st)
      in (tails, snd st @ sigs))"

text \<open>What has been read is whole lines, scanned, and the beginning of a line, kept.\<close>

definition read_so_far ::
  "(string \<Rightarrow> json option) \<Rightarrow> 64 word \<Rightarrow> string \<Rightarrow> string \<Rightarrow> (string \<rightharpoonup> tail) \<times> provenance list \<Rightarrow> bool" where
  "read_so_far parse ino path c st =
     (\<exists>t d. fst st path = Some t \<and> ta_ino t = ino \<and> ta_offset t \<le> length c
        \<and> take (ta_offset t) c = d @ ta_partial t \<and> (d = [] \<or> last d = NL)
        \<and> NL \<notin> set (ta_partial t) \<and> snd st = signals_of parse d)"

lemma poll_from:
  assumes lossy: "\<And>s. is_ascii s \<Longrightarrow> lossy s = s" and c: "is_ascii c" "CHR 0x0D \<notin> set c"
    and f: "shows_content ino c f" and pre: "prefix c0 c"
    and t: "(case tails path of Some t \<Rightarrow> t | None \<Rightarrow> first_sight started f) = t"
    and inv: "ta_ino t = ino" "ta_offset t \<le> length c0" "take (ta_offset t) c0 = d @ ta_partial t"
      "d = [] \<or> last d = NL" "NL \<notin> set (ta_partial t)" "sigs = signals_of parse d"
  shows "read_so_far parse ino path c (poll_step lossy parse started path (tails, sigs) f)"
proof -
  have off: "ta_offset t \<le> length c" using inv(2) prefix_length_le[OF pre] by simp
  have tk: "take (ta_offset t) c = d @ ta_partial t"
    using pre inv(2,3) by (auto simp: prefix_def)
  have same: "restart_if_rotated f t = t"
    using f inv(1) off by (simp add: restart_if_rotated_def shows_content_def)
  let ?read = "tf_read f (ta_offset t) (min (tf_size f - ta_offset t) MAX_READ_PER_POLL)"
  have stay: "read_so_far parse ino path c (tails(path \<mapsto> t), sigs)"
    using inv off tk by (auto simp: read_so_far_def)
  show ?thesis
  proof (cases "tf_size f \<le> ta_offset t \<or> ?read = None")
    case True
    then show ?thesis
      using stay t same by (auto simp: poll_step_def drain_transcript_def Let_def)
  next
    case False
    then obtain buf where buf: "?read = Some buf" by auto
    then have "prefix buf (drop (ta_offset t) c)" using f by (auto simp: shows_content_def)
    then obtain more where more: "drop (ta_offset t) c = buf @ more" by (auto simp: prefix_def)
    then have whole: "c = d @ ta_partial t @ buf @ more"
      by (metis tk append_take_drop_id append.assoc)
    then have ascii: "lossy buf = buf" using c(1) lossy by simp
    obtain rest new where scan: "scan_text parse (ta_partial t @ buf) = (rest, new)"
      by (cases "scan_text parse (ta_partial t @ buf)") auto
    have "CHR 0x0D \<notin> set (ta_partial t @ buf)" using c(2) whole by auto
    from scan_text_split[OF scan this] obtain e where e: "ta_partial t @ buf = e @ rest"
      "e = [] \<or> last e = NL" "NL \<notin> set rest" "new = signals_of parse e" by blast
    have len: "ta_offset t + length buf \<le> length c"
      using more off by (metis add_le_mono1 append_take_drop_id le_add1 length_append length_drop le_add_diff_inverse2 add.commute add_le_cancel_right)
    have "take (ta_offset t + length buf) c = d @ e @ rest"
      using whole e(1) tk off by (metis append.assoc append_take_drop_id length_append length_take min.absorb2 more take_add append_eq_conv_conj)
    moreover have "d @ e = [] \<or> last (d @ e) = NL" using inv(4) e(2) by (cases "e = []") auto
    moreover have "sigs @ new = signals_of parse (d @ e)"
      using inv(4,6) e(4) signals_after_newline[of d parse e] by simp
    ultimately have "read_so_far parse ino path c
        (tails(path \<mapsto> t\<lparr>ta_offset := ta_offset t + length buf, ta_partial := rest\<rparr>), sigs @ new)"
      using inv(1) len e(3) by (auto simp: read_so_far_def intro!: exI[of _ "d @ e"])
    then show ?thesis
      using False buf t same scan ascii by (simp add: poll_step_def drain_transcript_def Let_def)
  qed
qed

lemma polls_read:
  assumes lossy: "\<And>s. is_ascii s \<Longrightarrow> lossy s = s"
  shows "read_so_far parse ino path c st \<Longrightarrow> sorted_wrt prefix (c # map fst polls) \<Longrightarrow>
    list_all (\<lambda>(c, f). is_ascii c \<and> CHR 0x0D \<notin> set c \<and> shows_content ino c f) polls \<Longrightarrow>
    read_so_far parse ino path (last (c # map fst polls))
      (foldl (poll_step lossy parse started path) st (map snd polls))"
proof (induction polls arbitrary: c st)
  case (Cons p polls)
  obtain c' f where p: "p = (c', f)" by (cases p)
  obtain t d where t: "fst st path = Some t" "ta_ino t = ino" "ta_offset t \<le> length c"
    "take (ta_offset t) c = d @ ta_partial t" "d = [] \<or> last d = NL"
    "NL \<notin> set (ta_partial t)" "snd st = signals_of parse d"
    using Cons.prems(1) by (auto simp: read_so_far_def)
  have "read_so_far parse ino path c' (poll_step lossy parse started path (fst st, snd st) f)"
    by (rule poll_from[where ?c0.0 = c and t = t and d = d]) (use Cons.prems(2,3) p t lossy in auto)
  then show ?case using Cons.IH[of c' "poll_step lossy parse started path st f"] Cons.prems(2,3) p by simp
qed simp


text \<open>A transcript that grows between two polls in the middle of a line.\<close>

definition W_line :: string where
  "W_line = ''{use WebFetch}'' @ [NL]"

definition W_parse :: "string \<Rightarrow> json option" where
  "W_parse s = (if s = ''{use WebFetch}'' then
     Some (JObj [(''type'', JStr ''assistant''),
       (''message'', JObj [(''content'', JArr [JObj [(''type'', JStr ''tool_use''),
                                                     (''name'', JStr ''WebFetch'')]])])])
     else None)"

definition W_file :: "string \<Rightarrow> transcript_file" where
  "W_file c = \<lparr>tf_size = length c, tf_ino = 5, tf_created = Some 100,
     tf_read = (\<lambda>off n. Some (take n (drop off c)))\<rparr>"

lemma W_scan:
  "scan_text W_parse ''{use We'' = (''{use We'', [])"
  "scan_text W_parse ''{use WebFetch}\<newline>'' = ([], [WebFetch])"
  by code_simp+


theorem ingestion_taints_the_tree_witness:
  "\<forall>E K. \<exists>t. bm_get (k_taint (apply_commands E
          (on_external_ingestion (\<lambda>p. Some p) 1
             [\<lparr>px_pid = 20, px_fds = None, px_parent = Some 10\<rparr>,
              \<lparr>px_pid = 10, px_fds = Some [''/t.jsonl''], px_parent = Some 1\<rparr>] True ''/t.jsonl'')
          (K\<lparr>k_taint := \<lparr>bm_present = True, bm_max = 8, bm_evict = (\<lambda>l. None), bm_entries = []\<rparr>\<rparr>))) 20
       = Some t \<and> ti_tainted t"
proof (intro allI, rule ingestion_taints_the_tree[where p = 10])
  fix K :: kernel
  let ?procs = "[\<lparr>px_pid = 20, px_fds = None, px_parent = Some 10\<rparr>,
     \<lparr>px_pid = 10, px_fds = Some [''/t.jsonl''], px_parent = Some 1\<rparr>]"
  show "pid_holding_file (\<lambda>p. Some p) 1 ?procs ''/t.jsonl'' = Some 10"
    by (simp add: pid_holding_file_def)
  have "pid_and_descendants ?procs 10 = [10, 20]"
    by (simp add: pid_and_descendants_def walk_tree.simps children_of_def)
  then show "room (length (pid_and_descendants ?procs 10))
      (k_taint (K\<lparr>k_taint := \<lparr>bm_present = True, bm_max = 8, bm_evict = (\<lambda>l. None), bm_entries = []\<rparr>\<rparr>))"
    by (simp add: room_def plain_def)
  show "(10, 20) \<in> (parent_edges ?procs)\<^sup>*"
    by (rule r_into_rtrancl)
      (simp add: children_are_edges [symmetric], simp add: children_of_def)
qed

end
