(* ===== verification/Correlation.thy ===== *)
theory Correlation
  imports Observer AgentDetect
begin

text \<open>
  agent/src/analyzer/correlation.rs: the engine that keeps the recent events of each session and
  looks for attack patterns in them, its matcher and the built-in patterns. Arguments:
  \<open>lower\<close> (\<open>str::to_lowercase\<close>) and \<open>nanos\<close> (the optional nanosecond count of an instant, which a
  chain's identifier prints).
\<close>

section \<open>Patterns and windows\<close>

datatype severity = SevCritical | SevHigh | SevMedium | SevLow

definition severity_text :: "severity \<Rightarrow> string" where
  "severity_text s =
     (case s of SevCritical \<Rightarrow> ''critical'' | SevHigh \<Rightarrow> ''high'' | SevMedium \<Rightarrow> ''medium''
      | SevLow \<Rightarrow> ''low'')"

definition chain_severity_rank :: "severity \<Rightarrow> nat" where
  "chain_severity_rank s = (case s of SevCritical \<Rightarrow> 4 | SevHigh \<Rightarrow> 3 | SevMedium \<Rightarrow> 2 | SevLow \<Rightarrow> 1)"

record pattern_step =
  ps_activity :: activity_class
  ps_target :: "string option"
  ps_order :: nat
  ps_min_count :: nat
  ps_ancestry :: bool

record attack_pattern =
  ak_id :: string
  ak_name :: string
  ak_description :: string
  ak_severity :: severity
  ak_steps :: "pattern_step list"
  ak_window_secs :: nat
  ak_mitre_id :: "string option"
  ak_excluded :: "string list"

record window_event =
  we_event_id :: string
  we_activity :: activity_class
  we_target :: string
  we_process :: string
  we_pid :: pid
  we_ppid :: "pid option"
  we_timestamp :: timestamp

definition CREDENTIAL_INDICATORS :: "string list" where
  "CREDENTIAL_INDICATORS =
     [''.ssh/'', ''.aws/credentials'', ''.aws/config'', ''id_rsa'', ''id_ed25519'', ''id_ecdsa'',
      ''.env'', ''.npmrc'', ''.pypirc'', ''.netrc'', ''credentials'', ''keychain'', ''vault'', ''passwd'',
      ''shadow'', ''private_key'', ''secret'', ''token'', ''api_key'', ''.kube/config'',
      ''.docker/config'']"

definition is_credential_target :: "(string \<Rightarrow> string) \<Rightarrow> string \<Rightarrow> bool" where
  "is_credential_target lower target = list_ex (contains (lower target)) CREDENTIAL_INDICATORS"

definition classify_event_kind :: "(string \<Rightarrow> string) \<Rightarrow> event_kind \<Rightarrow> string \<Rightarrow> activity_class" where
  "classify_event_kind lower k target =
     (case k of
        AgentStdout \<Rightarrow> AcAgentSpeech | AgentStdin \<Rightarrow> AcAgentSpeech
      | TranscriptWrite \<Rightarrow> AcFileWrite
      | FileOpen \<Rightarrow> if is_credential_target lower target then AcCredentialAccess else AcFileRead
      | FileCreate \<Rightarrow> AcFileWrite | FileWrite \<Rightarrow> AcFileWrite
      | FileDelete \<Rightarrow> AcFileDelete | FileRename \<Rightarrow> AcFileDelete
      | ProcessExec \<Rightarrow> AcProcessExec
      | ProcessFork \<Rightarrow> AcProcessFork | ProcessExit \<Rightarrow> AcProcessFork
      | NetworkConnect \<Rightarrow> AcNetworkConnect
      | NetworkSend \<Rightarrow> AcNetworkSend | NetworkRecv \<Rightarrow> AcNetworkSend
      | DnsQuery \<Rightarrow> AcDnsQuery
      | TamperPtrace \<Rightarrow> AcPrivilegeEscalation | TamperSignal \<Rightarrow> AcPrivilegeEscalation
      | TamperMount \<Rightarrow> AcPrivilegeEscalation | TamperUmount \<Rightarrow> AcPrivilegeEscalation
      | ContainedExecBlocked \<Rightarrow> AcProcessExec
      | ContainedFileBlocked \<Rightarrow> AcCredentialAccess
      | OffensivePrompt \<Rightarrow> AcCredentialAccess
      | MprotectWx \<Rightarrow> AcPrivilegeEscalation
      | AttackChain \<Rightarrow> AcCredentialAccess
      | McpToolCall \<Rightarrow> AcFileRead | LlmRequest \<Rightarrow> AcFileRead | LlmResponse \<Rightarrow> AcFileRead
      | LlmToolCall \<Rightarrow> AcFileRead | ProxyBlock \<Rightarrow> AcFileRead | ProxyDetection \<Rightarrow> AcFileRead
      | DlpPii \<Rightarrow> AcFileRead | PromptInjection \<Rightarrow> AcFileRead | SkillFileChange \<Rightarrow> AcFileRead
      | SkillGitRepoDrop \<Rightarrow> AcFileRead)"

definition window_event_of :: "(string \<Rightarrow> string) \<Rightarrow> security_event \<Rightarrow> window_event" where
  "window_event_of lower ev =
     \<lparr>we_event_id = ev_id ev, we_activity = classify_event_kind lower (ev_kind ev) (ev_target ev),
      we_target = ev_target ev, we_process = ev_process ev, we_pid = ev_pid ev, we_ppid = ev_ppid ev,
      we_timestamp = ev_timestamp ev\<rparr>"

record matched_event =
  me_event_id :: string
  me_step_order :: nat
  me_activity :: activity_class
  me_target :: string
  me_process :: string
  me_pid :: pid
  me_timestamp :: timestamp

record attack_chain =
  ac_id :: string
  ac_pattern_id :: string
  ac_pattern_name :: string
  ac_description :: string
  ac_session_id :: string
  ac_severity :: severity
  ac_matched :: "matched_event list"
  ac_detected_at :: timestamp
  ac_mitre_id :: "string option"

section \<open>Matching\<close>

definition target_matches_single :: "string \<Rightarrow> string \<Rightarrow> bool" where
  "target_matches_single target pattern =
     (if ends_with pattern ''*'' then starts_with target (butlast pattern)
      else contains target pattern)"

definition target_matches :: "(string \<Rightarrow> string) \<Rightarrow> string \<Rightarrow> string \<Rightarrow> bool" where
  "target_matches lower target pattern =
     (let t = lower target; p = lower pattern
      in if contains p ''|''
         then list_ex (\<lambda>alt. target_matches_single t (trim alt)) (split_on (\<lambda>c. c = CHR ''|'') p)
         else target_matches_single t p)"

definition is_related :: "window_event \<Rightarrow> window_event \<Rightarrow> bool" where
  "is_related prev ev =
     (we_pid prev = we_pid ev
      \<or> we_ppid ev = Some (we_pid prev)
      \<or> we_ppid prev = Some (we_pid ev)
      \<or> (case (we_ppid prev, we_ppid ev) of (Some p1, Some p2) \<Rightarrow> p1 = p2 \<and> p1 \<noteq> 0 | _ \<Rightarrow> False))"

definition step_accepts :: "(string \<Rightarrow> string) \<Rightarrow> pattern_step \<Rightarrow> window_event \<Rightarrow> bool" where
  "step_accepts lower st ev =
     (we_activity ev = ps_activity st
      \<and> (case ps_target st of None \<Rightarrow> True | Some pat \<Rightarrow> target_matches lower (we_target ev) pat))"

definition matched_of :: "pattern_step \<Rightarrow> window_event \<Rightarrow> matched_event" where
  "matched_of st e =
     \<lparr>me_event_id = we_event_id e, me_step_order = ps_order st, me_activity = we_activity e,
      me_target = we_target e, me_process = we_process e, me_pid = we_pid e,
      me_timestamp = we_timestamp e\<rparr>"

text \<open>The three filters on a step's candidates: the window, the order in time, the ancestry.\<close>

definition admissible ::
  "timestamp \<Rightarrow> timestamp \<Rightarrow> window_event option \<Rightarrow> pattern_step \<Rightarrow> window_event \<Rightarrow> bool" where
  "admissible start now prev st ev =
     (start \<le> we_timestamp ev \<and> we_timestamp ev \<le> now
      \<and> (case prev of None \<Rightarrow> True | Some l \<Rightarrow> we_timestamp l \<le> we_timestamp ev)
      \<and> (ps_ancestry st \<longrightarrow> (case prev of None \<Rightarrow> True | Some l \<Rightarrow> is_related l ev)))"

text \<open>\<open>prev\<close> is the event taken for the previous step; the code keeps its timestamp beside it.\<close>

fun find_ordered_chain ::
  "timestamp \<Rightarrow> timestamp \<Rightarrow> window_event option \<Rightarrow> (pattern_step \<times> window_event list) list
     \<Rightarrow> matched_event list option" where
  "find_ordered_chain start now prev [] = Some []"
| "find_ordered_chain start now prev ((st, cands) # rest) =
     (let ok = filter (admissible start now prev st) cands;
          chosen = (if 1 < ps_min_count st
                    then (if length ok < ps_min_count st then None else Some (last ok))
                    else (case ok of [] \<Rightarrow> None | e # _ \<Rightarrow> Some e))
      in case chosen of
           None \<Rightarrow> None
         | Some e \<Rightarrow> map_option (\<lambda>ms. matched_of st e # ms) (find_ordered_chain start now (Some e) rest))"

definition candidates_for ::
  "(string \<Rightarrow> string) \<Rightarrow> window_event list \<Rightarrow> pattern_step \<Rightarrow> window_event list" where
  "candidates_for lower window st = filter (step_accepts lower st) window"

definition secs :: "nat \<Rightarrow> timestamp" where
  "secs n = int n * 1000000000"

definition match_pattern ::
  "(string \<Rightarrow> string) \<Rightarrow> (timestamp \<Rightarrow> int option) \<Rightarrow> attack_pattern \<Rightarrow> window_event list \<Rightarrow> string
     \<Rightarrow> timestamp \<Rightarrow> attack_chain option" where
  "match_pattern lower nanos p window sid now =
     (if ak_steps p = [] then None
      else let steps = sort_key ps_order (ak_steps p);
               cands = map (\<lambda>st. (st, candidates_for lower window st)) steps
           in if list_ex (\<lambda>(st, c). length c < ps_min_count st) cands then None
              else map_option
                (\<lambda>ms. \<lparr>ac_id = ''chain-'' @ ak_id p @ ''-''
                         @ show_int (case nanos now of Some n \<Rightarrow> n | None \<Rightarrow> 0),
                       ac_pattern_id = ak_id p, ac_pattern_name = ak_name p,
                       ac_description = ak_description p, ac_session_id = sid,
                       ac_severity = ak_severity p, ac_matched = ms, ac_detected_at = now,
                       ac_mitre_id = ak_mitre_id p\<rparr>)
                (find_ordered_chain (now - secs (ak_window_secs p)) now None cands))"

section \<open>The engine\<close>

record correlation_engine =
  ce_windows :: "string \<rightharpoonup> window_event list"
  ce_chains :: "attack_chain list"
  ce_patterns :: "attack_pattern list"
  ce_fired :: "(string \<times> string) set"

definition MAX_WINDOW_SIZE :: nat where
  "MAX_WINDOW_SIZE = 1000"

definition MAX_CHAINS :: nat where
  "MAX_CHAINS = 500"

definition MAX_WINDOW_SECS :: nat where
  "MAX_WINDOW_SECS = 300"

definition push_window :: "timestamp \<Rightarrow> window_event \<Rightarrow> window_event list \<Rightarrow> window_event list" where
  "push_window now e w =
     dropWhile (\<lambda>f. we_timestamp f < now - secs MAX_WINDOW_SECS) (last_n MAX_WINDOW_SIZE (w @ [e]))"

definition window_of :: "string \<Rightarrow> correlation_engine \<Rightarrow> window_event list" where
  "window_of sid E = (case ce_windows E sid of Some w \<Rightarrow> w | None \<Rightarrow> [])"

definition is_excluded ::
  "(string \<Rightarrow> string) \<Rightarrow> attack_pattern \<Rightarrow> string \<Rightarrow> string \<Rightarrow> window_event list \<Rightarrow> bool" where
  "is_excluded lower p sid pname window =
     (ak_excluded p \<noteq> []
      \<and> (list_ex (\<lambda>x. contains (lower sid) x \<or> contains (lower pname) x) (ak_excluded p)
         \<or> list_ex (\<lambda>w. list_ex (contains (lower (we_process w))) (ak_excluded p)) window))"

definition new_chains ::
  "(string \<Rightarrow> string) \<Rightarrow> (timestamp \<Rightarrow> int option) \<Rightarrow> correlation_engine \<Rightarrow> window_event list
     \<Rightarrow> security_event \<Rightarrow> string \<Rightarrow> attack_chain list" where
  "new_chains lower nanos E window ev sid =
     List.map_filter
       (\<lambda>p. if (sid, ak_id p) \<in> ce_fired E \<or> is_excluded lower p sid (ev_process ev) window then None
            else match_pattern lower nanos p window sid (ev_timestamp ev))
       (ce_patterns E)"

text \<open>\<open>Iterator::max_by_key\<close>: the last of the greatest.\<close>

definition max_by_key :: "('a \<Rightarrow> nat) \<Rightarrow> 'a list \<Rightarrow> 'a option" where
  "max_by_key f xs =
     (case xs of [] \<Rightarrow> None | x # r \<Rightarrow> Some (foldl (\<lambda>b y. if f b \<le> f y then y else b) x r))"

definition correlate ::
  "(string \<Rightarrow> string) \<Rightarrow> (timestamp \<Rightarrow> int option) \<Rightarrow> security_event \<Rightarrow> string \<Rightarrow> correlation_engine
     \<Rightarrow> correlation_engine \<times> attack_chain option" where
  "correlate lower nanos ev sid E =
     (let window = push_window (ev_timestamp ev) (window_event_of lower ev) (window_of sid E);
          E1 = E\<lparr>ce_windows := (ce_windows E)(sid \<mapsto> window)\<rparr>;
          found = new_chains lower nanos E1 window ev sid
      in (E1\<lparr>ce_fired := ce_fired E \<union> set (map (\<lambda>c. (sid, ac_pattern_id c)) found),
             ce_chains := (if found = [] then ce_chains E else last_n MAX_CHAINS (ce_chains E @ found))\<rparr>,
          max_by_key (\<lambda>c. chain_severity_rank (ac_severity c)) found))"

definition recent_chains :: "nat \<Rightarrow> correlation_engine \<Rightarrow> attack_chain list" where
  "recent_chains n E = take n (rev (ce_chains E))"

definition chains_for_session :: "string \<Rightarrow> nat \<Rightarrow> correlation_engine \<Rightarrow> attack_chain list" where
  "chains_for_session sid n E = take n (filter (\<lambda>c. ac_session_id c = sid) (rev (ce_chains E)))"

definition remove_session :: "string \<Rightarrow> correlation_engine \<Rightarrow> correlation_engine" where
  "remove_session sid E =
     E\<lparr>ce_windows := (ce_windows E)(sid := None), ce_fired := Set.filter (\<lambda>(s, _). s \<noteq> sid) (ce_fired E)\<rparr>"

definition window_size :: "string \<Rightarrow> correlation_engine \<Rightarrow> nat" where
  "window_size sid E = length (window_of sid E)"

section \<open>The built-in patterns\<close>

definition RIGHT_ARROW :: string where
  "RIGHT_ARROW = [CHR 0xE2, CHR 0x86, CHR 0x92]"

definition pattern_step_of ::
  "activity_class \<Rightarrow> string option \<Rightarrow> nat \<Rightarrow> nat \<Rightarrow> bool \<Rightarrow> pattern_step" where
  "pattern_step_of a t ord cnt anc =
     \<lparr>ps_activity = a, ps_target = t, ps_order = ord, ps_min_count = cnt, ps_ancestry = anc\<rparr>"

definition P_credential_exfil :: attack_pattern where
  "P_credential_exfil =
     \<lparr>ak_id = ''credential_exfil'', ak_name = ''Credential Exfiltration'',
      ak_description =
        ''Sensitive credential file read followed by outbound network transfer ''
        @ EM_DASH
        @ '' classic exfil pattern where stolen keys are sent to attacker infrastructure.'',
      ak_severity = SevCritical,
      ak_steps =
        [pattern_step_of AcCredentialAccess (Some ''.ssh/|.aws/|id_rsa|id_ed25519|id_ecdsa|credentials|.env'') 0 1 False,
         pattern_step_of AcNetworkConnect None 1 1 False],
      ak_window_secs = 120, ak_mitre_id = Some ''T1552.001 + T1041'',
      ak_excluded = known_agents\<rparr>"

definition P_staged_exfil :: attack_pattern where
  "P_staged_exfil =
     \<lparr>ak_id = ''staged_exfil'', ak_name = ''Staged Data Exfiltration'',
      ak_description =
        ''Sensitive file read, followed by compression/archiving, then outbound network ''
        @ ''transfer ''
        @ EM_DASH
        @ '' staged exfil to evade size-based detection.'',
      ak_severity = SevCritical,
      ak_steps =
        [pattern_step_of AcCredentialAccess (Some ''.ssh/|.aws/|.env|credentials|secret|token|api_key|id_rsa|id_ed25519'') 0 1 False,
         pattern_step_of AcProcessExec (Some ''tar|zip|gzip|bzip2|xz|7z|rar'') 1 1 False,
         pattern_step_of AcNetworkConnect None 2 1 False],
      ak_window_secs = 180, ak_mitre_id = Some ''T1560.001 + T1041'',
      ak_excluded = []\<rparr>"

definition P_payload_drop :: attack_pattern where
  "P_payload_drop =
     \<lparr>ak_id = ''payload_drop'', ak_name = ''Payload Drop & Execute'',
      ak_description =
        ''File written to temporary or unusual path, then immediately executed ''
        @ EM_DASH
        @ '' classic dropper behavior (download ''
        @ RIGHT_ARROW
        @ '' chmod ''
        @ RIGHT_ARROW
        @ '' run).'',
      ak_severity = SevCritical,
      ak_steps =
        [pattern_step_of AcFileWrite (Some ''/tmp/|/var/tmp/|/dev/shm/|payload|dropper|.sh|.py|.elf|.bin'') 0 1 False,
         pattern_step_of AcProcessExec (Some ''/tmp/|/var/tmp/|/dev/shm/'') 1 1 True],
      ak_window_secs = 60, ak_mitre_id = Some ''T1105 + T1059'',
      ak_excluded = []\<rparr>"

definition P_lateral_movement :: attack_pattern where
  "P_lateral_movement =
     \<lparr>ak_id = ''lateral_movement'', ak_name = ''Lateral Movement (SSH)'',
      ak_description =
        ''Credential file access followed by outbound SSH connection ''
        @ EM_DASH
        @ '' agent may be attempting to pivot to another host using stolen keys.'',
      ak_severity = SevHigh,
      ak_steps =
        [pattern_step_of AcCredentialAccess None 0 1 False,
         pattern_step_of AcNetworkConnect (Some '':22'') 1 1 False],
      ak_window_secs = 300, ak_mitre_id = Some ''T1021.004'',
      ak_excluded = []\<rparr>"

definition P_privilege_escalation_chain :: attack_pattern where
  "P_privilege_escalation_chain =
     \<lparr>ak_id = ''privilege_escalation_chain'', ak_name = ''Privilege Escalation Chain'',
      ak_description =
        ''Privilege escalation tool invoked, followed by credential file access ''
        @ EM_DASH
        @ '' agent may be using elevated privileges to steal secrets.'',
      ak_severity = SevHigh,
      ak_steps =
        [pattern_step_of AcProcessExec (Some ''sudo|su|pkexec|doas'') 0 1 False,
         pattern_step_of AcCredentialAccess None 1 1 False],
      ak_window_secs = 60, ak_mitre_id = Some ''T1548'',
      ak_excluded = []\<rparr>"

definition P_data_staging :: attack_pattern where
  "P_data_staging =
     \<lparr>ak_id = ''data_staging'', ak_name = ''Data Staging'',
      ak_description =
        ''Multiple sensitive files read in quick succession, then written to a single archive ''
        @ EM_DASH
        @ '' data collection before exfiltration.'',
      ak_severity = SevHigh,
      ak_steps =
        [pattern_step_of AcCredentialAccess (Some ''.ssh/|.aws/|.env|credentials|secret|token|passwd|shadow|id_rsa|id_ed25519|id_ecdsa'') 0 3 False,
         pattern_step_of AcFileWrite (Some ''.tar|.zip|.gz|.tgz|.bz2|.7z|.rar|exfil|staging|archive'') 1 1 False],
      ak_window_secs = 120, ak_mitre_id = Some ''T1074'',
      ak_excluded = []\<rparr>"

definition P_reverse_shell :: attack_pattern where
  "P_reverse_shell =
     \<lparr>ak_id = ''reverse_shell'', ak_name = ''Reverse Shell'',
      ak_description =
        ''Outbound network connection immediately followed by interactive shell execution ''
        @ EM_DASH
        @ '' classic reverse shell or bind shell callback.'',
      ak_severity = SevCritical,
      ak_steps =
        [pattern_step_of AcNetworkConnect None 0 1 False,
         pattern_step_of AcProcessExec (Some ''sh|bash|zsh|fish|dash|csh|tcsh|/bin/sh|/bin/bash'') 1 1 False],
      ak_window_secs = 30, ak_mitre_id = Some ''T1059.004'',
      ak_excluded = known_agents\<rparr>"

definition P_llm_exec_chain :: attack_pattern where
  "P_llm_exec_chain =
     \<lparr>ak_id = ''llm_exec_chain'', ak_name = ''LLM '' @ RIGHT_ARROW @ '' File '' @ RIGHT_ARROW @ '' Exec Attack Chain'',
      ak_description =
        ''Offensive prompt detected in LLM API call, followed by file write and binary ''
        @ ''execution ''
        @ EM_DASH
        @ '' AI agent may be weaponizing LLM-generated code. This is the highest-confidence ''
        @ ''indicator of an AI-driven attack.'',
      ak_severity = SevCritical,
      ak_steps =
        [pattern_step_of AcCredentialAccess None 0 1 False,
         pattern_step_of AcFileWrite None 1 1 False,
         pattern_step_of AcProcessExec None 2 1 True],
      ak_window_secs = 120, ak_mitre_id = Some ''T1059 + T1027'',
      ak_excluded = []\<rparr>"

definition P_wx_exec_chain :: attack_pattern where
  "P_wx_exec_chain =
     \<lparr>ak_id = ''wx_exec_chain'', ak_name = ''Runtime Code Generation & Callback'',
      ak_description =
        ''Write''
        @ RIGHT_ARROW
        @ ''Execute memory transition (mprotect W''
        @ RIGHT_ARROW
        @ ''X) followed by outbound network connection ''
        @ EM_DASH
        @ '' indicates runtime-generated code (possibly LLM-synthesized shellcode) is ''
        @ ''actively executing and calling home.'',
      ak_severity = SevCritical,
      ak_steps =
        [pattern_step_of AcPrivilegeEscalation None 0 1 False,
         pattern_step_of AcNetworkConnect None 1 1 True],
      ak_window_secs = 60, ak_mitre_id = Some ''T1055 + T1071'',
      ak_excluded = [''claude'', ''cursor'', ''copilot'', ''codex'', ''windsurf'', ''devin'', ''aider'', ''cline'', ''node'']\<rparr>"

definition P_env_harvesting :: attack_pattern where
  "P_env_harvesting =
     \<lparr>ak_id = ''env_harvesting'', ak_name = ''Environment Variable Harvesting'',
      ak_description =
        ''Burst of reads on environment and configuration files ''
        @ EM_DASH
        @ '' agent is systematically collecting secrets and credentials across the system.'',
      ak_severity = SevHigh,
      ak_steps =
        [pattern_step_of AcCredentialAccess (Some ''.env|.credentials|.config|.npmrc|.pypirc|.netrc|.aws/|.kube/|.docker/|credentials|id_rsa|id_ed25519|secret|token'') 0 5 False],
      ak_window_secs = 60, ak_mitre_id = Some ''T1552.001'',
      ak_excluded = []\<rparr>"

definition builtin_patterns :: "attack_pattern list" where
  "builtin_patterns =
     [P_credential_exfil,
      P_staged_exfil,
      P_payload_drop,
      P_lateral_movement,
      P_privilege_escalation_chain,
      P_data_staging,
      P_reverse_shell,
      P_llm_exec_chain,
      P_wx_exec_chain,
      P_env_harvesting]"

definition new_correlation :: correlation_engine where
  "new_correlation =
     \<lparr>ce_windows = Map.empty, ce_chains = [], ce_patterns = builtin_patterns, ce_fired = {}\<rparr>"

section \<open>What the window holds\<close>

datatype correlation_op = CoEvent security_event string | CoRemove string

fun correlation_step ::
  "(string \<Rightarrow> string) \<Rightarrow> (timestamp \<Rightarrow> int option) \<Rightarrow> correlation_engine \<Rightarrow> correlation_op
     \<Rightarrow> correlation_engine" where
  "correlation_step lower nanos E (CoEvent ev sid) = fst (correlate lower nanos ev sid E)"
| "correlation_step lower nanos E (CoRemove sid) = remove_session sid E"

text \<open>The events of one session in a history, as the window stores them.\<close>

fun op_events :: "(string \<Rightarrow> string) \<Rightarrow> string \<Rightarrow> correlation_op \<Rightarrow> window_event list" where
  "op_events lower sid (CoEvent ev s) = (if s = sid then [window_event_of lower ev] else [])"
| "op_events lower sid (CoRemove s) = []"

definition session_events ::
  "(string \<Rightarrow> string) \<Rightarrow> string \<Rightarrow> correlation_op list \<Rightarrow> window_event list" where
  "session_events lower sid ops = concat (map (op_events lower sid) ops)"

definition recent_window :: "window_event list \<Rightarrow> window_event list" where
  "recent_window es =
     filter (\<lambda>e. we_timestamp (last es) - secs MAX_WINDOW_SECS \<le> we_timestamp e)
       (last_n MAX_WINDOW_SIZE es)"

abbreviation in_time_order :: "window_event list \<Rightarrow> bool" where
  "in_time_order es \<equiv> sorted (map we_timestamp es)"

lemma prune_push:
  assumes "c1 \<le> c2"
  shows "dropWhile (\<lambda>f. we_timestamp f < c2)
           (last_n n (dropWhile (\<lambda>f. we_timestamp f < c1) (last_n n xs) @ [e]))
         = dropWhile (\<lambda>f. we_timestamp f < c2) (last_n n (xs @ [e]))"
proof -
  let ?P1 = "\<lambda>f. we_timestamp f < c1" and ?P2 = "\<lambda>f. we_timestamp f < c2"
  define A where "A = last_n n xs"
  define K B where "K = takeWhile ?P1 A" and "B = dropWhile ?P1 A"
  have A: "A = K @ B" by (simp add: K_def B_def)
  have K: "\<forall>x \<in> set K. ?P2 x" using assms by (auto simp: K_def dest: set_takeWhileD)
  have len: "length A \<le> n" by (simp add: A_def)
  have "dropWhile ?P2 (last_n n (B @ [e])) = dropWhile ?P2 (last_n n (A @ [e]))"
  proof (cases "length A < n \<or> K = []")
    case True
    then have "K = [] \<or> last_n n (A @ [e]) = K @ B @ [e] \<and> last_n n (B @ [e]) = B @ [e]"
      using A by auto
    then show ?thesis using K A by (auto simp: dropWhile_append2)
  next
    case False
    then obtain k K' where K': "K = k # K'" by (cases K) auto
    then have "last_n n (A @ [e]) = K' @ B @ [e]" "last_n n (B @ [e]) = B @ [e]"
      using A False len by (auto simp: last_n_def)
    then show ?thesis using K K' by (simp add: dropWhile_append2)
  qed
  then show ?thesis by (simp add: A_def B_def last_n_append)
qed

lemma dropWhile_sorted:
  "in_time_order es \<Longrightarrow> dropWhile (\<lambda>f. we_timestamp f < c) es = filter (\<lambda>f. c \<le> we_timestamp f) es"
  by (induction es) (auto simp: not_less intro!: filter_True[symmetric])

lemma sorted_last_n: "sorted (map f xs) \<Longrightarrow> sorted (map f (last_n n xs))"
  by (simp add: last_n_def drop_map[symmetric] sorted_wrt_drop del: drop_map)

lemma push_recent:
  assumes "in_time_order (es @ [e])"
  shows "push_window (we_timestamp e) e (recent_window es) = recent_window (es @ [e])"
proof (cases "es = []")
  case True
  then show ?thesis by (simp add: push_window_def recent_window_def MAX_WINDOW_SIZE_def secs_def)
next
  case False
  let ?c = "we_timestamp (last es) - secs MAX_WINDOW_SECS"
  have es: "in_time_order es" using assms by (simp add: sorted_append)
  have le: "?c \<le> we_timestamp e - secs MAX_WINDOW_SECS"
    using assms False by (auto simp: sorted_append)
  have "recent_window es = dropWhile (\<lambda>f. we_timestamp f < ?c) (last_n MAX_WINDOW_SIZE es)"
    by (simp add: recent_window_def dropWhile_sorted sorted_last_n es)
  then show ?thesis
    using prune_push[OF le, of MAX_WINDOW_SIZE es e]
    by (simp add: push_window_def recent_window_def dropWhile_sorted[OF sorted_last_n[OF assms]])
qed

lemma correlate_window:
  "window_of s (fst (correlate lower nanos ev sid E)) =
     (if s = sid then push_window (ev_timestamp ev) (window_event_of lower ev) (window_of sid E)
      else window_of s E)"
  by (simp add: correlate_def Let_def window_of_def)

lemma session_events_simps [simp]:
  "session_events lower sid [] = []"
  "session_events lower sid (ops @ [op]) = session_events lower sid ops @ op_events lower sid op"
  by (simp_all add: session_events_def)

lemma window_run:
  "window_of sid E = [] \<Longrightarrow> CoRemove sid \<notin> set ops \<Longrightarrow> in_time_order (session_events lower sid ops) \<Longrightarrow>
   window_of sid (foldl (correlation_step lower nanos) E ops) = recent_window (session_events lower sid ops)"
proof (induction ops rule: rev_induct)
  case Nil
  then show ?case by (simp add: recent_window_def)
next
  case (snoc op ops)
  have IH: "window_of sid (foldl (correlation_step lower nanos) E ops) = recent_window (session_events lower sid ops)"
    using snoc by (auto simp: sorted_append)
  show ?case
  proof (cases op)
    case (CoEvent ev s)
    show ?thesis
    proof (cases "s = sid")
      case True
      then show ?thesis
        using push_recent[of "session_events lower sid ops" "window_event_of lower ev"] snoc.prems CoEvent IH
        by (simp add: correlate_window window_event_of_def)
    qed (use CoEvent IH in \<open>simp add: correlate_window\<close>)
  next
    case (CoRemove s)
    then have "s \<noteq> sid" using snoc.prems by auto
    then show ?thesis using IH CoRemove by (simp add: remove_session_def window_of_def)
  qed
qed

text \<open>
  C38. While a session is not removed and its events come in the order of their times, its window is
  exactly the events of the last five minutes among the last thousand of them, whatever happens
  in other sessions.
\<close>

theorem window_is_the_recent_events:
  assumes "CoRemove sid \<notin> set ops" and "in_time_order (session_events lower sid ops)"
  shows "window_of sid (foldl (correlation_step lower nanos) new_correlation ops)
         = recent_window (session_events lower sid ops)"
  by (rule window_run) (use assms in \<open>auto simp: window_of_def new_correlation_def\<close>)

section \<open>The greedy scan against its specification\<close>

text \<open>
  What a pattern asks for: one event per step, each a candidate of its step, in the window, not
  before the event of the step before it and related to it where the step says so.
\<close>

fun chain_ok ::
  "timestamp \<Rightarrow> timestamp \<Rightarrow> window_event option \<Rightarrow> (pattern_step \<times> window_event list) list
     \<Rightarrow> window_event list \<Rightarrow> bool" where
  "chain_ok start now prev [] [] = True"
| "chain_ok start now prev ((st, c) # rest) (e # es) =
     (e \<in> set c \<and> admissible start now prev st e \<and> chain_ok start now (Some e) rest es)"
| "chain_ok start now prev _ _ = False"

lemma found_chain_ok:
  "find_ordered_chain start now prev sc = Some ms \<Longrightarrow>
   \<exists>es. chain_ok start now prev sc es \<and> ms = map (\<lambda>(st, e). matched_of st e) (zip (map fst sc) es)"
proof (induction start now prev sc arbitrary: ms rule: find_ordered_chain.induct)
  case (2 start now prev st cands rest)
  let ?ok = "filter (admissible start now prev st) cands"
  let ?ch = "if 1 < ps_min_count st then (if length ?ok < ps_min_count st then None else Some (last ?ok))
             else (case ?ok of [] \<Rightarrow> None | e # _ \<Rightarrow> Some e)"
  obtain e ms' where e: "?ch = Some e" and ms': "find_ordered_chain start now (Some e) rest = Some ms'"
    and ms: "ms = matched_of st e # ms'"
    using "2.prems" by (auto simp: Let_def split: option.splits)
  have "e \<in> set ?ok"
  proof (cases "1 < ps_min_count st")
    case True
    then have "?ok \<noteq> []" "e = last ?ok" using e by (auto split: if_splits)
    then show ?thesis using last_in_set by blast
  next
    case False
    then obtain r where "?ok = e # r" using e by (auto split: list.splits)
    then show ?thesis by (simp only: list.set_intros)
  qed
  moreover obtain es where "chain_ok start now (Some e) rest es"
    "ms' = map (\<lambda>(st, e). matched_of st e) (zip (map fst rest) es)"
    using "2.IH"[OF refl refl e ms'] by blast
  ultimately show ?case using ms by (intro exI[of _ "e # es"]) auto
next
  case (1 start now prev)
  then show ?case by (intro exI[of _ "[]"]) simp
qed

text \<open>A step that asks for one event and says nothing of ancestry.\<close>

definition plain_step :: "pattern_step \<Rightarrow> bool" where
  "plain_step st = (ps_min_count st \<le> 1 \<and> \<not> ps_ancestry st)"

lemma chain_ok_earlier:
  "list_all (\<lambda>(st, c). plain_step st) sc \<Longrightarrow> chain_ok start now (Some a) sc es \<Longrightarrow>
   we_timestamp b \<le> we_timestamp a \<Longrightarrow> chain_ok start now (Some b) sc es"
  by (cases "(start, now, Some a, sc, es)" rule: chain_ok.cases)
    (auto simp: admissible_def plain_step_def)

lemma greedy_complete:
  "list_all (\<lambda>(st, c). plain_step st \<and> in_time_order c) sc \<Longrightarrow> chain_ok start now prev sc es \<Longrightarrow>
   find_ordered_chain start now prev sc \<noteq> None"
proof (induction sc arbitrary: prev es)
  case (Cons x rest)
  obtain st c where x: "x = (st, c)" by (cases x)
  obtain e es' where es: "es = e # es'" using Cons.prems(2) x by (cases es) auto
  let ?ok = "filter (admissible start now prev st) c"
  have e: "e \<in> set ?ok" using Cons.prems(2) x es by simp
  then obtain f r where f: "?ok = f # r" by (cases ?ok) auto
  have "in_time_order ?ok" using Cons.prems(1) x by (simp add: sorted_filter)
  then have le: "we_timestamp f \<le> we_timestamp e" using e f by auto
  have plain: "list_all (\<lambda>(st, c). plain_step st) rest"
    using Cons.prems(1) by (auto simp: list_all_iff)
  have "chain_ok start now (Some f) rest es'"
    using chain_ok_earlier[OF plain _ le] Cons.prems(2) x es by simp
  then have "find_ordered_chain start now (Some f) rest \<noteq> None"
    using Cons.IH Cons.prems(1) by simp
  moreover have "\<not> 1 < ps_min_count st" using Cons.prems(1) x by (auto simp: plain_step_def)
  ultimately show ?case using f x by simp
qed simp

definition step_candidates ::
  "(string \<Rightarrow> string) \<Rightarrow> attack_pattern \<Rightarrow> window_event list \<Rightarrow> (pattern_step \<times> window_event list) list" where
  "step_candidates lower p w =
     map (\<lambda>st. (st, candidates_for lower w st)) (sort_key ps_order (ak_steps p))"

lemma greedy_found:
  assumes "in_time_order w" and "list_all plain_step (ak_steps p)" and "ak_steps p \<noteq> []"
  shows "match_pattern lower nanos p w sid now \<noteq> None
     \<longleftrightarrow> (\<exists>es. chain_ok (now - secs (ak_window_secs p)) now None (step_candidates lower p w) es)"
proof
  assume "match_pattern lower nanos p w sid now \<noteq> None"
  then obtain ms where
    "find_ordered_chain (now - secs (ak_window_secs p)) now None (step_candidates lower p w) = Some ms"
    by (auto simp: match_pattern_def step_candidates_def Let_def split: if_splits)
  from found_chain_ok[OF this] show "\<exists>es. chain_ok (now - secs (ak_window_secs p)) now None (step_candidates lower p w) es"
    by blast
next
  let ?sc = "step_candidates lower p w"
  assume "\<exists>es. chain_ok (now - secs (ak_window_secs p)) now None ?sc es"
  then obtain es where es: "chain_ok (now - secs (ak_window_secs p)) now None ?sc es" by blast
  have "list_all (\<lambda>(st, c). plain_step st \<and> in_time_order c) ?sc"
    using assms by (auto simp: step_candidates_def candidates_for_def list_all_iff sorted_filter)
  then have "find_ordered_chain (now - secs (ak_window_secs p)) now None ?sc \<noteq> None"
    using es by (rule greedy_complete)
  moreover have "chain_ok start n prev sc es \<Longrightarrow> list_all (\<lambda>(st, c). plain_step st) sc \<Longrightarrow>
      \<not> list_ex (\<lambda>(st, c). length c < ps_min_count st) sc" for start n prev sc es
  proof (induction start n prev sc es rule: chain_ok.induct)
    case (2 start now prev st c rest e es)
    then have "0 < length c" by (cases c) auto
    moreover have "ps_min_count st \<le> 1" using "2.prems" by (simp add: plain_step_def)
    ultimately have "\<not> length c < ps_min_count st" by linarith
    then show ?case using 2 by simp
  qed simp_all
  from this[OF es] have "\<not> list_ex (\<lambda>(st, c). length c < ps_min_count st) ?sc"
    using assms(2) by (auto simp: step_candidates_def list_all_iff)
  ultimately show "match_pattern lower nanos p w sid now \<noteq> None"
    using assms(3) by (auto simp: match_pattern_def step_candidates_def Let_def)
qed

text \<open>
  C37. For a pattern whose steps ask for one event each and say nothing of ancestry, over a window in
  time order, the greedy forward scan finds a chain exactly when there is one: some choice of one
  matching event per step, in the order of the steps and of time, within the time window of the pattern.
\<close>

theorem greedy_scan_is_complete:
  assumes "in_time_order w" and "list_all plain_step (ak_steps p)" and "ak_steps p \<noteq> []"
  shows "match_pattern lower nanos p w sid now \<noteq> None
     \<longleftrightarrow> (\<exists>es. chain_ok (now - secs (ak_window_secs p)) now None (step_candidates lower p w) es)"
  using assms by (rule greedy_found)

section \<open>Every plain attack is reported\<close>

fun chains_of ::
  "(string \<Rightarrow> string) \<Rightarrow> (timestamp \<Rightarrow> int option) \<Rightarrow> correlation_engine \<Rightarrow> correlation_op
     \<Rightarrow> attack_chain list" where
  "chains_of lower nanos E (CoEvent ev sid) =
     (let w = push_window (ev_timestamp ev) (window_event_of lower ev) (window_of sid E)
      in new_chains lower nanos (E\<lparr>ce_windows := (ce_windows E)(sid \<mapsto> w)\<rparr>) w ev sid)"
| "chains_of lower nanos E (CoRemove sid) = []"

interpretation chains: bounded_log "correlation_step lower nanos" ce_chains "chains_of lower nanos" 500
  for lower nanos
proof
  fix E :: correlation_engine and op
  assume "length (ce_chains E) \<le> 500"
  then show "ce_chains (correlation_step lower nanos E op)
      = last_n 500 (ce_chains E @ chains_of lower nanos E op)"
    by (cases op) (simp_all add: correlate_def Let_def MAX_CHAINS_def remove_session_def)
qed

lemma match_pattern_names:
  "match_pattern lower nanos p w sid now = Some c \<Longrightarrow>
   ac_pattern_id c = ak_id p \<and> ac_session_id c = sid \<and> ac_severity c = ak_severity p"
  by (auto simp: match_pattern_def Let_def split: if_splits)

lemma in_map_filter: "y \<in> set (List.map_filter f xs) \<longleftrightarrow> (\<exists>x \<in> set xs. f x = Some y)"
  by (force simp: List.map_filter_def)

lemma new_chains_iff:
  "c \<in> set (new_chains lower nanos E w ev sid) \<longleftrightarrow>
     (\<exists>p \<in> set (ce_patterns E). (sid, ak_id p) \<notin> ce_fired E \<and> \<not> is_excluded lower p sid (ev_process ev) w
        \<and> match_pattern lower nanos p w sid (ev_timestamp ev) = Some c)"
  by (auto simp: new_chains_def in_map_filter split: if_splits)

lemma patterns_step [simp]: "ce_patterns (correlation_step lower nanos E op) = ce_patterns E"
  by (cases op) (simp_all add: correlate_def Let_def remove_session_def)

lemma patterns_run [simp]: "ce_patterns (foldl (correlation_step lower nanos) E ops) = ce_patterns E"
  by (induction ops arbitrary: E) auto

lemma fired_event:
  "ce_fired (correlation_step lower nanos E (CoEvent ev sid)) =
     ce_fired E \<union> {(sid, ac_pattern_id c) |c. c \<in> set (chains_of lower nanos E (CoEvent ev sid))}"
  by (auto simp: correlate_def Let_def)

text \<open>A pair is marked only when its chain has been found.\<close>

lemma fired_were_found:
  "(s, i) \<in> ce_fired (foldl (correlation_step lower nanos) E ops) \<Longrightarrow> (s, i) \<notin> ce_fired E \<Longrightarrow>
   \<exists>c \<in> set (produced (correlation_step lower nanos) (chains_of lower nanos) E ops).
     ac_session_id c = s \<and> ac_pattern_id c = i"
proof (induction ops arbitrary: E)
  case (Cons op ops)
  show ?case
  proof (cases "(s, i) \<in> ce_fired (correlation_step lower nanos E op)")
    case False
    then show ?thesis using Cons.IH[OF _ False] Cons.prems(1) by auto
  next
    case True
    show ?thesis
    proof (cases op)
      case (CoEvent ev sid)
      then have "s = sid" "\<exists>c \<in> set (chains_of lower nanos E op). ac_pattern_id c = i"
        using True Cons.prems(2) unfolding CoEvent fired_event by auto
      then show ?thesis
        using CoEvent by (force simp: Let_def new_chains_iff dest: match_pattern_names)
    next
      case (CoRemove sid)
      then show ?thesis using True Cons.prems(2) by (auto simp: remove_session_def)
    qed
  qed
qed simp

text \<open>The last event of a history completes the pattern.\<close>

definition completes ::
  "(string \<Rightarrow> string) \<Rightarrow> attack_pattern \<Rightarrow> window_event list \<Rightarrow> window_event list \<Rightarrow> bool" where
  "completes lower p evs es =
     chain_ok (we_timestamp (last evs) - secs (ak_window_secs p)) (we_timestamp (last evs)) None
       (step_candidates lower p (recent_window evs)) es"

text \<open>
  C34. Every plain attack is reported: when the events of a session, in the order of their times and
  in the memory of the window, hold one event per step of a pattern in order, and the pattern is
  not excluded for the session, then a chain of that pattern has been found for that session by the
  time of the last of them.
\<close>

theorem plain_attacks_are_reported:
  assumes "CoRemove sid \<notin> set ops"
    and "in_time_order (session_events lower sid (ops @ [CoEvent ev sid]))"
    and "p \<in> set builtin_patterns" and "list_all plain_step (ak_steps p)" and "ak_steps p \<noteq> []"
    and "completes lower p (session_events lower sid (ops @ [CoEvent ev sid])) es"
    and "\<not> is_excluded lower p sid (ev_process ev)
           (recent_window (session_events lower sid (ops @ [CoEvent ev sid])))"
  shows "\<exists>c \<in> set (produced (correlation_step lower nanos) (chains_of lower nanos) new_correlation
                      (ops @ [CoEvent ev sid])).
           ac_session_id c = sid \<and> ac_pattern_id c = ak_id p"
proof -
  let ?ops = "ops @ [CoEvent ev sid]" and ?new = "chains_of lower nanos"
  let ?E = "foldl (correlation_step lower nanos) new_correlation ops" and ?evs = "session_events lower sid (ops @ [CoEvent ev sid])"
  let ?w = "push_window (ev_timestamp ev) (window_event_of lower ev) (window_of sid ?E)"
  have "window_of sid (foldl (correlation_step lower nanos) new_correlation ?ops) = recent_window ?evs"
    by (rule window_run) (use assms(1,2) in \<open>auto simp: window_of_def new_correlation_def\<close>)
  then have w: "?w = recent_window ?evs" by (simp add: correlate_window)
  have now: "we_timestamp (last ?evs) = ev_timestamp ev" by (simp add: window_event_of_def)
  have "in_time_order ?w"
    using assms(2) unfolding w recent_window_def by (intro sorted_filter sorted_last_n)
  then have "match_pattern lower nanos p ?w sid (ev_timestamp ev) \<noteq> None"
    using greedy_found[OF _ assms(4,5)] assms(6) unfolding completes_def w now by blast
  then obtain c where c: "match_pattern lower nanos p ?w sid (ev_timestamp ev) = Some c" by blast
  note names = match_pattern_names[OF c]
  show ?thesis
  proof (cases "(sid, ak_id p) \<in> ce_fired ?E")
    case True
    then show ?thesis
      using fired_were_found[OF True] by (auto simp: new_correlation_def produced_append)
  next
    case False
    then have "c \<in> set (?new ?E (CoEvent ev sid))"
      using c assms(3,7) w by (auto simp: Let_def new_chains_iff new_correlation_def)
    then show ?thesis using names by (auto simp: produced_append)
  qed
qed

section \<open>Once per session\<close>

lemma distinct_map_filter:
  "distinct (map g xs) \<Longrightarrow> (\<And>x y. f x = Some y \<Longrightarrow> h y = g x) \<Longrightarrow> distinct (map h (List.map_filter f xs))"
proof (induction xs)
  case (Cons x xs)
  then have "g x \<notin> h ` set (List.map_filter f xs)"
    by (auto simp: in_map_filter)
  then show ?case using Cons by (simp add: map_filter_simps split: option.split)
qed (simp add: map_filter_simps)

lemma new_chains_distinct:
  "distinct (map ak_id (ce_patterns E)) \<Longrightarrow> distinct (map ac_pattern_id (new_chains lower nanos E w ev sid))"
  unfolding new_chains_def
  by (rule distinct_map_filter) (auto dest: match_pattern_names split: if_splits)

lemma found_once:
  "CoRemove sid \<notin> set ops \<Longrightarrow> distinct (map ak_id (ce_patterns E)) \<Longrightarrow>
   (let cs = filter (\<lambda>c. ac_session_id c = sid)
               (produced (correlation_step lower nanos) (chains_of lower nanos) E ops)
    in distinct (map ac_pattern_id cs) \<and> (\<forall>c \<in> set cs. (sid, ac_pattern_id c) \<notin> ce_fired E))"
proof (induction ops arbitrary: E)
  case (Cons op ops)
  let ?E = "correlation_step lower nanos E op"
  let ?mine = "filter (\<lambda>c. ac_session_id c = sid)"
  define later where "later = ?mine (produced (correlation_step lower nanos) (chains_of lower nanos) ?E ops)"
  have IH: "distinct (map ac_pattern_id later)" "\<forall>c \<in> set later. (sid, ac_pattern_id c) \<notin> ce_fired ?E"
    using Cons.IH[of ?E] Cons.prems by (auto simp: Let_def later_def)
  show ?case
  proof (cases op)
    case (CoRemove s)
    then have "s \<noteq> sid" using Cons.prems(1) by auto
    then show ?thesis using IH CoRemove by (auto simp: Let_def later_def remove_session_def)
  next
    case (CoEvent ev s)
    have sess: "ac_session_id c = s \<and> (s, ac_pattern_id c) \<notin> ce_fired E"
      if "c \<in> set (chains_of lower nanos E op)" for c
      using that CoEvent by (auto simp: Let_def new_chains_iff dest: match_pattern_names)
    show ?thesis
    proof (cases "s = sid")
      case False
      then have "?mine (chains_of lower nanos E op) = []" using sess by (auto simp: filter_empty_conv)
      moreover have "(sid, i) \<in> ce_fired ?E \<longleftrightarrow> (sid, i) \<in> ce_fired E" for i
        using False unfolding CoEvent fired_event by auto
      ultimately show ?thesis using IH by (simp add: later_def)
    next
      case True
      then have "?mine (chains_of lower nanos E op) = chains_of lower nanos E op"
        using sess by (simp add: filter_id_conv)
      moreover have "distinct (map ac_pattern_id (chains_of lower nanos E op))"
        using CoEvent Cons.prems(2) by (simp add: Let_def new_chains_distinct)
      moreover have "(sid, ac_pattern_id c) \<in> ce_fired ?E" if "c \<in> set (chains_of lower nanos E op)" for c
        using that True unfolding CoEvent fired_event by auto
      moreover have "(sid, i) \<in> ce_fired E \<Longrightarrow> (sid, i) \<in> ce_fired ?E" for i
        unfolding CoEvent fired_event by auto
      ultimately have "distinct (map ac_pattern_id (chains_of lower nanos E op @ later))
          \<and> (\<forall>c \<in> set (chains_of lower nanos E op @ later). (sid, ac_pattern_id c) \<notin> ce_fired E)"
        using IH sess True by (fastforce simp: distinct_append)
      then show ?thesis
        using \<open>?mine (chains_of lower nanos E op) = chains_of lower nanos E op\<close>
        by (simp add: later_def)
    qed
  qed
qed simp

lemma builtin_ids:
  "map ak_id builtin_patterns =
     [''credential_exfil'', ''staged_exfil'', ''payload_drop'', ''lateral_movement'',
      ''privilege_escalation_chain'', ''data_staging'', ''reverse_shell'', ''llm_exec_chain'',
      ''wx_exec_chain'', ''env_harvesting'']"
  by (simp add: builtin_patterns_def P_credential_exfil_def P_staged_exfil_def P_payload_drop_def
      P_lateral_movement_def P_privilege_escalation_chain_def P_data_staging_def P_reverse_shell_def
      P_llm_exec_chain_def P_wx_exec_chain_def P_env_harvesting_def)

text \<open>
  Until a session is removed, each pattern is reported at most once for it, whatever the order
  of the events and whatever other sessions do.
\<close>

theorem each_pattern_fires_once:
  assumes "CoRemove sid \<notin> set ops"
  shows "distinct (map ac_pattern_id (filter (\<lambda>c. ac_session_id c = sid)
           (produced (correlation_step lower nanos) (chains_of lower nanos) new_correlation ops)))"
  using found_once[OF assms, of new_correlation lower nanos] builtin_ids
  by (simp add: Let_def new_correlation_def)

section \<open>Bounds\<close>

definition correlation_bounded :: "correlation_engine \<Rightarrow> bool" where
  "correlation_bounded E \<longleftrightarrow>
     (\<forall>sid. length (window_of sid E) \<le> 1000) \<and> length (ce_chains E) \<le> 500"

interpretation correlation_bounds: invariant_system "correlation_step lower nanos" correlation_bounded
  for lower nanos
proof
  fix E :: correlation_engine and op
  assume E: "correlation_bounded E"
  have "length (push_window now e w) \<le> 1000" for now e w
    using length_dropWhile_le[of _ "last_n MAX_WINDOW_SIZE (w @ [e])"]
    by (fastforce simp: push_window_def MAX_WINDOW_SIZE_def intro: order.trans)
  moreover have "window_of s (remove_session sid E) = (if s = sid then [] else window_of s E)" for s sid
    by (simp add: window_of_def remove_session_def)
  ultimately have "\<forall>sid. length (window_of sid (correlation_step lower nanos E op)) \<le> 1000"
    using E by (cases op) (auto simp: correlation_bounded_def correlate_window)
  moreover have "length (ce_chains (correlation_step lower nanos E op)) \<le> 500"
    using E chains.step_items[of E lower nanos op] by (simp add: correlation_bounded_def)
  ultimately show "correlation_bounded (correlation_step lower nanos E op)"
    by (simp add: correlation_bounded_def)
qed

text \<open>
  C39. After any history no session's window holds more than a thousand events, and of everything
  that was ever found exactly the last five hundred chains are kept.
\<close>

theorem correlation_memory_is_bounded:
  "length (window_of sid (foldl (correlation_step lower nanos) new_correlation ops)) \<le> 1000
   \<and> ce_chains (foldl (correlation_step lower nanos) new_correlation ops)
       = last_n 500 (produced (correlation_step lower nanos) (chains_of lower nanos) new_correlation ops)"
  using correlation_bounds.run_inv[of new_correlation lower nanos ops]
    chains.items_run[of new_correlation lower nanos ops]
  by (simp add: correlation_bounded_def new_correlation_def window_of_def)

section \<open>What is never reported\<close>

text \<open>
  In a session whose identifier contains the name of a known agent, as the identifiers the daemon
  gives to the sessions of agents do, credential exfiltration and a reverse shell are never
  reported, whatever the session does.
\<close>

theorem agent_sessions_never_exfiltrate:
  assumes "a \<in> set known_agents" and "contains (lower sid) a"
    and "c \<in> set (produced (correlation_step lower nanos) (chains_of lower nanos) new_correlation ops)"
    and "ac_session_id c = sid"
  shows "ac_pattern_id c \<noteq> ''credential_exfil'' \<and> ac_pattern_id c \<noteq> ''reverse_shell''"
proof -
  have "\<forall>c \<in> set (produced (correlation_step lower nanos) (chains_of lower nanos) E ops).
      ac_session_id c = sid \<longrightarrow> ac_pattern_id c \<noteq> ''credential_exfil'' \<and> ac_pattern_id c \<noteq> ''reverse_shell''"
    if "ce_patterns E = builtin_patterns" for E
    using that
  proof (induction ops arbitrary: E)
    case (Cons op ops)
    have "ac_pattern_id c \<noteq> ''credential_exfil'' \<and> ac_pattern_id c \<noteq> ''reverse_shell''"
      if c: "c \<in> set (chains_of lower nanos E op)" "ac_session_id c = sid" for c
    proof (cases op)
      case (CoEvent ev s)
      then obtain p w where p: "p \<in> set builtin_patterns" "ac_pattern_id c = ak_id p" "s = sid"
        "\<not> is_excluded lower p s (ev_process ev) w"
        using c Cons.prems by (auto simp: Let_def new_chains_iff dest: match_pattern_names)
      have "is_excluded lower p s (ev_process ev) w" if "ak_excluded p = known_agents"
        using that assms(1,2) p(3) by (auto simp: is_excluded_def list_ex_iff)
      then have "ak_excluded p \<noteq> known_agents" using p(4) by blast
      then show ?thesis
        using p(1,2) by (auto simp: builtin_patterns_def P_credential_exfil_def P_staged_exfil_def
            P_payload_drop_def P_lateral_movement_def P_privilege_escalation_chain_def P_data_staging_def
            P_reverse_shell_def P_llm_exec_chain_def P_wx_exec_chain_def P_env_harvesting_def)
    qed (use c in simp)
    moreover have "ce_patterns (correlation_step lower nanos E op) = builtin_patterns"
      using Cons.prems by simp
    note Cons.IH[OF this]
    ultimately show ?case by auto
  qed simp
  from this[of new_correlation] show ?thesis using assms(3,4) by (simp add: new_correlation_def)
qed

text \<open>
  A decoy hides a payload drop: when the first temporary file written in the last minute was
  written by a process unrelated to everything that runs from a temporary directory, no payload
  drop is reported, although a chain the pattern asks for may be there.
\<close>

theorem decoy_hides_payload_drop:
  assumes "filter (admissible (now - secs 60) now None (hd (ak_steps P_payload_drop)))
             (candidates_for lower w (hd (ak_steps P_payload_drop))) = d # ds"
    and "\<forall>x \<in> set (candidates_for lower w (last (ak_steps P_payload_drop))). \<not> is_related d x"
  shows "match_pattern lower nanos P_payload_drop w sid now = None"
proof -
  have steps: "sort_key ps_order (ak_steps P_payload_drop) = ak_steps P_payload_drop"
    by (simp add: P_payload_drop_def pattern_step_of_def)
  obtain st0 st1 where st: "ak_steps P_payload_drop = [st0, st1]" "ps_min_count st0 = 1"
    "ps_min_count st1 = 1" "ps_ancestry st1"
    by (simp add: P_payload_drop_def pattern_step_of_def)
  have "filter (admissible (now - secs 60) now (Some d) st1) (candidates_for lower w st1) = []"
    using assms(2) st by (auto simp: filter_empty_conv admissible_def)
  then have "find_ordered_chain (now - secs 60) now None
      [(st0, candidates_for lower w st0), (st1, candidates_for lower w st1)] = None"
    using assms(1) st by simp
  moreover have "ak_window_secs P_payload_drop = 60" by (simp add: P_payload_drop_def)
  ultimately show ?thesis using steps st by (simp add: match_pattern_def)
qed

section \<open>Examples\<close>

definition W_event :: "event_kind \<Rightarrow> string \<Rightarrow> pid \<Rightarrow> nat \<Rightarrow> security_event" where
  "W_event k target p t =
     blank_event\<lparr>ev_kind := k, ev_target := target, ev_pid := p, ev_timestamp := secs t\<rparr>"

definition W_ops :: "correlation_op list" where
  "W_ops = [CoEvent (W_event FileOpen ''/home/u/.aws/credentials'' 7 10) ''s'',
            CoEvent (W_event ProcessExec ''/usr/bin/tar'' 8 20) ''s'']"

definition W_last :: security_event where
  "W_last = W_event NetworkConnect ''203.0.113.9:443'' 7 30"

definition W_evs :: "window_event list" where
  "W_evs = [window_event_of id (W_event FileOpen ''/home/u/.aws/credentials'' 7 10),
            window_event_of id (W_event ProcessExec ''/usr/bin/tar'' 8 20),
            window_event_of id W_last]"

lemma W_session: "session_events id ''s'' (W_ops @ [CoEvent W_last ''s'']) = W_evs"
  by (simp add: session_events_def W_ops_def W_evs_def)

lemma W_order: "in_time_order W_evs"
  by (simp add: W_evs_def W_last_def W_event_def window_event_of_def secs_def)

lemma W_completes: "completes id P_staged_exfil W_evs W_evs"
  by code_simp

theorem plain_attacks_are_reported_witness:
  "\<exists>c \<in> set (produced (correlation_step id (\<lambda>t. None)) (chains_of id (\<lambda>t. None)) new_correlation
                 (W_ops @ [CoEvent W_last ''s''])).
      ac_session_id c = ''s'' \<and> ac_pattern_id c = ak_id P_staged_exfil"
  by (rule plain_attacks_are_reported[where es = W_evs], unfold W_session)
    (simp_all add: W_ops_def W_order W_completes, simp_all add: builtin_patterns_def is_excluded_def
      P_staged_exfil_def pattern_step_of_def plain_step_def)

theorem window_is_the_recent_events_witness:
  "window_of ''s'' (foldl (correlation_step id (\<lambda>t. None)) new_correlation (W_ops @ [CoEvent W_last ''s'']))
   = recent_window W_evs"
  by (subst W_session[symmetric], rule window_is_the_recent_events, unfold W_session)
    (simp_all add: W_order, simp add: W_ops_def)

theorem greedy_scan_is_complete_witness:
  "match_pattern id (\<lambda>t. None) P_staged_exfil W_evs ''s'' (secs 30) \<noteq> None
   \<and> (\<exists>es. chain_ok (secs 30 - secs 180) (secs 30) None (step_candidates id P_staged_exfil W_evs) es)"
proof -
  have "match_pattern id (\<lambda>t. None) P_staged_exfil W_evs ''s'' (secs 30) \<noteq> None
     \<longleftrightarrow> (\<exists>es. chain_ok (secs 30 - secs (ak_window_secs P_staged_exfil)) (secs 30) None
                 (step_candidates id P_staged_exfil W_evs) es)"
    by (rule greedy_scan_is_complete[OF W_order])
      (simp_all add: P_staged_exfil_def pattern_step_of_def plain_step_def)
  moreover have "chain_ok (secs 30 - secs 180) (secs 30) None (step_candidates id P_staged_exfil W_evs) W_evs"
    by code_simp
  ultimately show ?thesis by (auto simp: P_staged_exfil_def)
qed

theorem each_pattern_fires_once_witness:
  "distinct (map ac_pattern_id (filter (\<lambda>c. ac_session_id c = ''s'')
     (produced (correlation_step id (\<lambda>t. None)) (chains_of id (\<lambda>t. None)) new_correlation
        (W_ops @ [CoEvent W_last ''s'', CoEvent W_last ''s'']))))"
  by (rule each_pattern_fires_once) (simp add: W_ops_def)

theorem agent_sessions_never_exfiltrate_witness:
  "\<forall>c \<in> set (produced (correlation_step id (\<lambda>t. None)) (chains_of id (\<lambda>t. None)) new_correlation
                 [CoEvent (W_event FileOpen ''/home/u/.ssh/id_rsa'' 7 10) ''auto-claude-7'',
                  CoEvent (W_event NetworkConnect ''203.0.113.9:443'' 7 20) ''auto-claude-7'']).
      ac_session_id c = ''auto-claude-7'' \<longrightarrow> ac_pattern_id c \<noteq> ''credential_exfil''"
proof (intro ballI impI)
  fix c
  assume c: "c \<in> set (produced (correlation_step id (\<lambda>t. None)) (chains_of id (\<lambda>t. None)) new_correlation
                 [CoEvent (W_event FileOpen ''/home/u/.ssh/id_rsa'' 7 10) ''auto-claude-7'',
                  CoEvent (W_event NetworkConnect ''203.0.113.9:443'' 7 20) ''auto-claude-7''])"
    and sid: "ac_session_id c = ''auto-claude-7''"
  have "''claude'' \<in> set known_agents" by (simp add: known_agents_def AGENT_NAMES_def)
  moreover have "contains (id ''auto-claude-7'') ''claude''" by simp
  ultimately show "ac_pattern_id c \<noteq> ''credential_exfil''"
    using agent_sessions_never_exfiltrate[OF _ _ c sid] by blast
qed

text \<open>Process 7 drops a payload and runs it; process 99 wrote a log line before it.\<close>

definition W_drop :: "window_event list" where
  "W_drop = [window_event_of id (W_event FileWrite ''/tmp/log'' 99 10),
             window_event_of id (W_event FileWrite ''/tmp/payload'' 7 20),
             window_event_of id (W_event ProcessExec ''/tmp/payload'' 7 30)]"

theorem decoy_hides_payload_drop_witness:
  "match_pattern id (\<lambda>t. None) P_payload_drop W_drop ''s'' (secs 30) = None
   \<and> chain_ok (secs 30 - secs 60) (secs 30) None (step_candidates id P_payload_drop W_drop) (tl W_drop)
   \<and> match_pattern id (\<lambda>t. None) P_payload_drop (tl W_drop) ''s'' (secs 30) \<noteq> None"
proof (intro conjI)
  show "match_pattern id (\<lambda>t. None) P_payload_drop W_drop ''s'' (secs 30) = None"
  proof (rule decoy_hides_payload_drop)
    show "filter (admissible (secs 30 - secs 60) (secs 30) None (hd (ak_steps P_payload_drop)))
        (candidates_for id W_drop (hd (ak_steps P_payload_drop))) = hd W_drop # [hd (tl W_drop)]"
      by code_simp
    show "\<forall>x \<in> set (candidates_for id W_drop (last (ak_steps P_payload_drop))). \<not> is_related (hd W_drop) x"
      by code_simp
  qed
qed code_simp+

end
