(* ===== verification/McpInventory.thy ===== *)
theory McpInventory
  imports Prelude Values
begin

text \<open>
  The part of agent/src/scanner/inventory.rs that lists the MCP servers in the configuration files of
  the agents, with its helpers: what counts as a secret, as a pinned package and as a local address.
  Arguments: \<open>read_json\<close> and \<open>read_toml\<close>, the contents of a file as a JSON value (\<open>None\<close> when it is
  missing, too long or does not parse).
\<close>

section \<open>Helpers\<close>

definition strip_query :: "string \<Rightarrow> string" where
  "strip_query u = hd (split_on (\<lambda>c. c = CHR ''?'' \<or> c = CHR ''#'') u)"

definition is_local_url :: "string \<Rightarrow> bool" where
  "is_local_url u =
     (let rest = (case split_str ''://'' u of _ # r # _ \<Rightarrow> r | _ \<Rightarrow> u);
          host = hd (split_on (\<lambda>c. c = CHR ''/'' \<or> c = CHR '':'') rest)
      in host \<in> {''localhost'', ''127.0.0.1'', ''::1'', ''[::1]''} \<or> ends_with host ''.localhost'')"

definition SECRET_WORDS :: "string list" where
  "SECRET_WORDS =
     [''token'', ''key'', ''apikey'', ''secret'', ''password'', ''passwd'', ''pwd'', ''pat'', ''auth'',
      ''credential'', ''credentials'', ''bearer'', ''cookie'', ''session'']"

definition looks_secret_name :: "string \<Rightarrow> bool" where
  "looks_secret_name k =
     list_ex (\<lambda>w. w \<in> set SECRET_WORDS)
       (split_on (\<lambda>c. \<not> is_ascii_alphanumeric c) (to_ascii_lowercase k))"

definition has_pinned_version :: "string \<Rightarrow> bool" where
  "has_pinned_version a =
     (contains a ''==''
      \<or> (let body = (case strip_prefix ''@'' a of Some b \<Rightarrow> b | None \<Rightarrow> a)
         in case rsplit_once (CHR ''@'') body of
              Some (_, c # _) \<Rightarrow> is_ascii_digit c
            | _ \<Rightarrow> False))"

definition redact_arg :: "string \<Rightarrow> string" where
  "redact_arg a =
     (let alnum = length (filter is_ascii_alphanumeric a);
          long_opaque = (32 \<le> length a \<and> length a * 9 \<le> alnum * 10 \<and> \<not> contains a ''/'');
          known_prefix = list_ex (starts_with a)
            [''sk-'', ''ghp_'', ''gho_'', ''github_pat_'', ''xox'', ''AKIA'', ''AIza''];
          whole = (if long_opaque \<or> known_prefix then ''[redacted]'' else a)
      in case split_once (CHR ''='') a of
           Some (k, _) \<Rightarrow> if looks_secret_name k \<or> 40 < length a then k @ ''=[redacted]'' else whole
         | None \<Rightarrow> whole)"

section \<open>One server\<close>

record mcp_server =
  ms_name :: string
  ms_agent :: string
  ms_owner :: string
  ms_source :: string
  ms_scope :: string
  ms_transport :: string
  ms_command :: "string option"
  ms_url :: "string option"
  ms_env_keys :: "string list"
  ms_flags :: "string list"
  ms_tools :: "(string \<times> string) list option"
  ms_tools_note :: "string option"

fun as_object :: "json \<Rightarrow> (string \<times> json) list option" where
  "as_object (JObj kvs) = Some kvs"
| "as_object _ = None"

fun as_array :: "json \<Rightarrow> json list option" where
  "as_array (JArr vs) = Some vs"
| "as_array _ = None"

definition get_any :: "json \<Rightarrow> string list \<Rightarrow> json option" where
  "get_any v names = find_map (json_get v) names"

definition spec_url :: "json \<Rightarrow> string option" where
  "spec_url spec =
     map_option strip_query (Option.bind (get_any spec [''url'', ''httpUrl'', ''serverUrl'']) as_str)"

definition spec_command :: "json \<Rightarrow> string option \<times> string list" where
  "spec_command spec =
     (let (cmd, args) =
        (case json_get spec ''command'' of
           Some (JStr s) \<Rightarrow> (Some s, [])
         | Some (JArr a) \<Rightarrow> (case List.map_filter as_str a of [] \<Rightarrow> (None, []) | c # r \<Rightarrow> (Some c, r))
         | _ \<Rightarrow> (None, []))
      in (cmd, args @ (case Option.bind (json_get spec ''args'') as_array of
                         Some a \<Rightarrow> List.map_filter as_str a | None \<Rightarrow> [])))"

definition transport_of :: "json \<Rightarrow> string" where
  "transport_of spec =
     (let fallback = (if spec_url spec \<noteq> None \<and> fst (spec_command spec) = None then ''http'' else ''stdio'')
      in case Option.bind (get_any spec [''type'', ''transport'']) as_str of
           None \<Rightarrow> fallback
         | Some t \<Rightarrow> if contains t ''sse'' then ''sse''
                    else if contains t ''http'' \<or> t = ''remote'' then ''http'' else fallback)"

definition shown_command :: "string \<Rightarrow> string list \<Rightarrow> string" where
  "shown_command c args =
     join '' '' (redact_arg c # map redact_arg (take 3 args)
       @ (if 3 < length args then [''(+'' @ show_nat (length args - 3) @ '' args)''] else []))"

definition env_keys_of :: "json \<Rightarrow> string list" where
  "env_keys_of spec =
     (case Option.bind (get_any spec [''env'', ''environment'']) as_object of
        Some o' \<Rightarrow> map fst o' | None \<Rightarrow> [])"

definition flags_of :: "json \<Rightarrow> string option \<Rightarrow> string list" where
  "flags_of spec command =
     (let headers_present = (case Option.bind (json_get spec ''headers'') as_object of
                               Some o' \<Rightarrow> o' \<noteq> [] | None \<Rightarrow> False)
      in (case spec_url spec of Some u \<Rightarrow> if is_local_url u then [] else [''remote''] | None \<Rightarrow> [])
         @ (if list_ex looks_secret_name (env_keys_of spec) \<or> headers_present
            then [''credentials in config''] else [])
         @ (case command of
              None \<Rightarrow> []
            | Some c \<Rightarrow>
                (let base = last_segment (case first_word c of Some w \<Rightarrow> w | None \<Rightarrow> [])
                 in if base \<in> {''npx'', ''uvx'', ''bunx'', ''pnpx''}
                       \<and> \<not> list_ex has_pinned_version (snd (spec_command spec))
                    then [''unpinned package''] else [])))"

definition mcp_from_json ::
  "string \<Rightarrow> json \<Rightarrow> string \<Rightarrow> string \<Rightarrow> string \<Rightarrow> string \<Rightarrow> mcp_server" where
  "mcp_from_json name spec agent owner source scope =
     (let (cmd, args) = spec_command spec;
          command = map_option (\<lambda>c. shown_command c args) cmd
      in \<lparr>ms_name = name, ms_agent = agent, ms_owner = owner, ms_source = source, ms_scope = scope,
          ms_transport = transport_of spec, ms_command = command, ms_url = spec_url spec,
          ms_env_keys = env_keys_of spec, ms_flags = flags_of spec command,
          ms_tools = None, ms_tools_note = None\<rparr>)"

section \<open>The files of one home\<close>

definition MCP_JSON_SOURCES :: "(string \<times> string \<times> string list) list" where
  "MCP_JSON_SOURCES =
     [(''claude'', ''.claude.json'', [''mcpServers'']),
      (''claude'', ''.mcp.json'', [''mcpServers'']),
      (''cursor'', ''.cursor/mcp.json'', [''mcpServers'']),
      (''windsurf'', ''.codeium/windsurf/mcp_config.json'', [''mcpServers'']),
      (''gemini'', ''.gemini/settings.json'', [''mcpServers'']),
      (''claude-desktop'', ''.config/Claude/claude_desktop_config.json'', [''mcpServers'']),
      (''vscode'', ''.config/Code/User/mcp.json'', [''servers'']),
      (''vscode'', ''.config/Code/User/settings.json'', [''mcp'', ''servers'']),
      (''opencode'', ''.config/opencode/opencode.json'', [''mcp''])]"

text \<open>A JSON pointer through objects; \<open>join\<close> with an absolute path replaces the base.\<close>

fun json_pointer :: "string list \<Rightarrow> json \<Rightarrow> json option" where
  "json_pointer [] v = Some v"
| "json_pointer (k # ks) v = Option.bind (json_get v k) (json_pointer ks)"

definition join_path :: "string \<Rightarrow> string \<Rightarrow> string" where
  "join_path a b = (if starts_with b ''/'' then b else if a = [] then b else path_join a b)"

text \<open>\<open>Path::starts_with\<close>, by components.\<close>

definition path_parts :: "string \<Rightarrow> string list" where
  "path_parts p = filter (\<lambda>w. w \<noteq> [] \<and> w \<noteq> ''.'') (split_on (\<lambda>c. c = CHR ''/'') p)"

definition path_under :: "string \<Rightarrow> string \<Rightarrow> bool" where
  "path_under p base =
     (starts_with p ''/'' = starts_with base ''/'' \<and> prefix (path_parts base) (path_parts p))"

definition servers_in ::
  "(string \<times> json) list option \<Rightarrow> string \<Rightarrow> string \<Rightarrow> string \<Rightarrow> string \<Rightarrow> mcp_server list" where
  "servers_in servers agent owner source scope =
     (case servers of
        None \<Rightarrow> []
      | Some kvs \<Rightarrow> map (\<lambda>(name, spec). mcp_from_json name spec agent owner source scope) kvs)"

definition project_servers ::
  "(string \<Rightarrow> json option) \<Rightarrow> string \<Rightarrow> string \<Rightarrow> string \<Rightarrow> string \<Rightarrow> string \<Rightarrow> json \<Rightarrow> mcp_server list" where
  "project_servers read_json agent owner home path proj pv =
     servers_in (Option.bind (json_get pv ''mcpServers'') as_object) agent owner path (''project:'' @ proj)
     @ (if path_under proj home
        then (let pm = join_path proj ''.mcp.json''
              in case read_json pm of
                   None \<Rightarrow> []
                 | Some pj \<Rightarrow>
                     servers_in (Option.bind (json_get pj ''mcpServers'') as_object) agent owner pm
                       (''project:'' @ proj))
        else [])"

definition collect_codex_mcp :: "(string \<Rightarrow> json option) \<Rightarrow> string \<Rightarrow> string \<Rightarrow> mcp_server list" where
  "collect_codex_mcp read_toml owner home =
     (let path = join_path home ''.codex/config.toml''
      in case read_toml path of
           None \<Rightarrow> []
         | Some doc \<Rightarrow> servers_in (Option.bind (json_get doc ''mcp_servers'') as_object) ''codex'' owner path ''user'')"

definition collect_source ::
  "(string \<Rightarrow> json option) \<Rightarrow> string \<Rightarrow> string \<Rightarrow> string \<times> string \<times> string list \<Rightarrow> mcp_server list" where
  "collect_source read_json owner home src =
     (case src of (agent, rel, pointer) \<Rightarrow>
        (let path = join_path home rel
         in case read_json path of
              None \<Rightarrow> []
            | Some j \<Rightarrow>
                servers_in (Option.bind (json_pointer pointer j) as_object) agent owner path ''user''
                @ (if rel = ''.claude.json''
                   then (case Option.bind (json_get j ''projects'') as_object of
                           None \<Rightarrow> []
                         | Some projects \<Rightarrow>
                             concat (map (\<lambda>(proj, pv). project_servers read_json agent owner home path proj pv)
                                       projects))
                   else [])))"

definition collect_mcp ::
  "(string \<Rightarrow> json option) \<Rightarrow> (string \<Rightarrow> json option) \<Rightarrow> string \<Rightarrow> string \<Rightarrow> mcp_server list" where
  "collect_mcp read_json read_toml owner home =
     concat (map (collect_source read_json owner home) MCP_JSON_SOURCES)
     @ collect_codex_mcp read_toml owner home"

text \<open>\<open>retain(|m| seen.insert(key))\<close>: the first row of each key is kept.\<close>

fun retain_first :: "('a \<Rightarrow> 'k) \<Rightarrow> 'k list \<Rightarrow> 'a list \<Rightarrow> 'a list" where
  "retain_first key seen [] = []"
| "retain_first key seen (x # xs) =
     (if key x \<in> set seen then retain_first key seen xs
      else x # retain_first key (key x # seen) xs)"

definition dedup_key :: "mcp_server \<Rightarrow> string" where
  "dedup_key m =
     ms_agent m @ [CHR 0x00] @ ms_owner m @ [CHR 0x00] @ ms_scope m @ [CHR 0x00] @ ms_name m"

definition collect_servers ::
  "(string \<Rightarrow> json option) \<Rightarrow> (string \<Rightarrow> json option) \<Rightarrow> (string \<times> string) list \<Rightarrow> mcp_server list" where
  "collect_servers read_json read_toml homes =
     retain_first dedup_key []
       (concat (map (\<lambda>(owner, home). collect_mcp read_json read_toml owner home) homes))"

section \<open>Which declaration is listed\<close>

lemma in_retain_first:
  "x \<in> set (retain_first key seen xs) \<longleftrightarrow>
     key x \<notin> set seen \<and> List.find (\<lambda>y. key y = key x) xs = Some x"
proof (induction key seen xs rule: retain_first.induct)
  case (2 key seen y xs)
  then show ?case by (cases "key y \<in> set seen"; cases "key y = key x") auto
qed simp

definition declared_servers ::
  "(string \<Rightarrow> json option) \<Rightarrow> (string \<Rightarrow> json option) \<Rightarrow> (string \<times> string) list \<Rightarrow> mcp_server list" where
  "declared_servers read_json read_toml homes =
     concat (map (\<lambda>(owner, home). collect_mcp read_json read_toml owner home) homes)"

text \<open>
  A server is listed exactly when it is the first declaration of its name by its agent, owner and
  scope, in the order in which the files are read; a later one, in another file of the same agent
  and with another address, is not listed.
\<close>

theorem only_the_first_declaration_is_listed:
  "m \<in> set (collect_servers read_json read_toml homes) \<longleftrightarrow>
     List.find (\<lambda>y. dedup_key y = dedup_key m) (declared_servers read_json read_toml homes) = Some m"
  by (simp add: collect_servers_def declared_servers_def in_retain_first)

text \<open>A server of \<open>.mcp.json\<close> behind one of the same name in \<open>.claude.json\<close>.\<close>

definition W_files :: "string \<Rightarrow> json option" where
  "W_files p =
     (if p = ''/home/u/.claude.json''
      then Some (JObj [(''mcpServers'', JObj [(''wiki'', JObj [(''url'', JStr ''https://wiki.example/mcp'')])])])
      else if p = ''/home/u/.mcp.json''
      then Some (JObj [(''mcpServers'', JObj [(''wiki'', JObj [(''url'', JStr ''https://other.example/mcp'')])])])
      else None)"

lemma W_shadowed:
  "map ms_url (declared_servers W_files (\<lambda>p. None) [(''u'', ''/home/u'')])
     = [Some ''https://wiki.example/mcp'', Some ''https://other.example/mcp'']"
  "map ms_url (collect_servers W_files (\<lambda>p. None) [(''u'', ''/home/u'')]) = [Some ''https://wiki.example/mcp'']"
  by code_simp+

end
