(* ===== verification/McpGateway.thy ===== *)
theory McpGateway
  imports McpInventory KernelMaps PackageGuard Sled
begin

text \<open>
  agent/src/mcp_gateway.rs: the registry of managed and held MCP servers, the watch over the agents'
  configuration, the addresses handed to the kernel, and the proxy between an agent and a managed
  server. A \<open>BTreeMap\<close> is a list in key order. Arguments: the JSON parser and printer, the URL parser,
  the resolver, the clock, the answers of the upstream server, and whether a write of the registry
  succeeds.
\<close>

section \<open>The registry\<close>

record managed_server =
  mg_id :: string
  mg_name :: string
  mg_agent :: string
  mg_upstream :: string
  mg_source :: string
  mg_owner :: string
  mg_disabled :: "string set"
  mg_seen :: "(string \<times> string) list"

record held_server =
  hd_id :: string
  hd_name :: string
  hd_agent :: string
  hd_owner :: string
  hd_upstream :: string
  hd_source :: string
  hd_first_seen :: string

record registry =
  rg_servers :: "(string \<times> managed_server) list"
  rg_held :: "(string \<times> held_server) list"

text \<open>The registry in memory, and the one in the file, if there is one that parses.\<close>

record gateway =
  gw_mem :: registry
  gw_file :: "registry option"

definition load_registry :: "registry option \<Rightarrow> registry" where
  "load_registry f = (case f of Some r \<Rightarrow> r | None \<Rightarrow> \<lparr>rg_servers = [], rg_held = []\<rparr>)"

text \<open>\<open>wr\<close>: \<open>Inl\<close> the error of the write, \<open>Inr\<close> success.\<close>

definition save_registry :: "string + unit \<Rightarrow> gateway \<Rightarrow> gateway" where
  "save_registry wr G = (case wr of Inl e \<Rightarrow> G | Inr u \<Rightarrow> G\<lparr>gw_file := Some (gw_mem G)\<rparr>)"

definition restart_gateway :: "gateway \<Rightarrow> gateway" where
  "restart_gateway G = G\<lparr>gw_mem := load_registry (gw_file G)\<rparr>"

definition valid_id :: "string \<Rightarrow> bool" where
  "valid_id i =
     (i \<noteq> [] \<and> length i \<le> 64
      \<and> list_all (\<lambda>c. is_ascii_alphanumeric c \<or> c = CHR ''-'' \<or> c = CHR ''_'') i)"

definition valid_upstream :: "string \<Rightarrow> bool" where
  "valid_upstream u = (starts_with u ''https://'' \<or> starts_with u ''http://'')"

definition server_of :: "registry \<Rightarrow> string \<Rightarrow> managed_server option" where
  "server_of r i = map_of (rg_servers r) i"

definition held_of :: "registry \<Rightarrow> string \<Rightarrow> held_server option" where
  "held_of r i = map_of (rg_held r) i"

definition merge_old :: "managed_server \<Rightarrow> managed_server \<Rightarrow> managed_server" where
  "merge_old old s =
     s\<lparr>mg_disabled := mg_disabled s \<union> mg_disabled old,
       mg_seen := fold (\<lambda>(k, v) seen. if map_of seen k = None then db_insert k v seen else seen)
                    (mg_seen old) (mg_seen s)\<rparr>"

definition upsert :: "string + unit \<Rightarrow> managed_server \<Rightarrow> gateway \<Rightarrow> gateway \<times> (string + managed_server)" where
  "upsert wr s G =
     (if \<not> valid_id (mg_id s) then (G, Inl ''id may only hold letters, digits, - and _'')
      else if \<not> valid_upstream (mg_upstream s) then (G, Inl ''upstream must be an http(s) URL'')
      else if contains (mg_upstream s) ''127.0.0.1:7700/mcp/''
              \<or> contains (mg_upstream s) ''localhost:7700/mcp/''
      then (G, Inl ''upstream points at the gateway itself'')
      else
        (let r = gw_mem G;
             s' = (case server_of r (mg_id s) of Some old \<Rightarrow> merge_old old s | None \<Rightarrow> s);
             r' = r\<lparr>rg_held := db_remove (mg_id s) (rg_held r),
                    rg_servers := db_insert (mg_id s) s' (rg_servers r)\<rparr>
         in (save_registry wr (G\<lparr>gw_mem := r'\<rparr>), case wr of Inl e \<Rightarrow> Inl e | Inr u \<Rightarrow> Inr s')))"

definition remove_server :: "string + unit \<Rightarrow> string \<Rightarrow> gateway \<Rightarrow> gateway \<times> (string + unit)" where
  "remove_server wr i G =
     (if server_of (gw_mem G) i = None then (G, Inl (''no managed MCP server called '' @ i))
      else (save_registry wr
              (G\<lparr>gw_mem := (gw_mem G)\<lparr>rg_servers := db_remove i (rg_servers (gw_mem G))\<rparr>\<rparr>), wr))"

definition set_tool ::
  "string + unit \<Rightarrow> string \<Rightarrow> string \<Rightarrow> bool \<Rightarrow> gateway \<Rightarrow> gateway \<times> (string + managed_server)" where
  "set_tool wr i tool enabled G =
     (if tool = [] \<or> 128 < length tool \<or> has_control tool then (G, Inl ''not a tool name'')
      else case server_of (gw_mem G) i of
             None \<Rightarrow> (G, Inl (''no managed MCP server called '' @ i))
           | Some s \<Rightarrow>
               (let s' = (if enabled then s\<lparr>mg_disabled := mg_disabled s - {tool}\<rparr>
                          else s\<lparr>mg_disabled := insert tool (mg_disabled s)\<rparr>);
                    r' = (gw_mem G)\<lparr>rg_servers := db_insert i s' (rg_servers (gw_mem G))\<rparr>
                in (save_registry wr (G\<lparr>gw_mem := r'\<rparr>), case wr of Inl e \<Rightarrow> Inl e | Inr u \<Rightarrow> Inr s')))"

text \<open>The first paragraph on one line, its first sentence, at most 160 bytes.\<close>

definition first_sentence :: "string \<Rightarrow> string" where
  "first_sentence s =
     (let para = hd (split_str [CHR 0x0A, CHR 0x0A] (trim s));
          flat = join '' '' (split_whitespace para);
          end_at = min (case find_str flat ''. '' of Some i \<Rightarrow> i + 1 | None \<Rightarrow> length flat) 160
      in trim (take (cut_back flat end_at) flat))"

definition described :: "json list \<Rightarrow> (string \<times> string) list" where
  "described tools =
     fold (\<lambda>t seen.
        case Option.bind (json_get t ''name'') as_str of
          None \<Rightarrow> seen
        | Some n \<Rightarrow>
            db_insert n (case Option.bind (json_get t ''description'') as_str of
                           Some d \<Rightarrow> first_sentence d | None \<Rightarrow> []) seen) tools []"

definition remember_tools :: "string + unit \<Rightarrow> string \<Rightarrow> json list \<Rightarrow> gateway \<Rightarrow> gateway" where
  "remember_tools wr i tools G =
     (let seen = described tools
      in if seen = [] then G
         else case server_of (gw_mem G) i of
                None \<Rightarrow> G
              | Some s \<Rightarrow>
                  if mg_seen s = seen then G
                  else save_registry wr
                         (G\<lparr>gw_mem := (gw_mem G)\<lparr>rg_servers :=
                              db_insert i (s\<lparr>mg_seen := seen\<rparr>) (rg_servers (gw_mem G))\<rparr>\<rparr>))"

text \<open>\<open>tools_for\<close>: what the server itself answers, names and descriptions.\<close>

definition seed_tools ::
  "(string \<Rightarrow> (string \<times> string) list option) \<Rightarrow> string + unit \<Rightarrow> string \<Rightarrow> string \<Rightarrow> gateway \<Rightarrow> gateway"
where
  "seed_tools tools_for wr i upstream G =
     (case tools_for upstream of
        None \<Rightarrow> G
      | Some tools \<Rightarrow>
          remember_tools wr i
            (map (\<lambda>(n, d). JObj [(''description'', JStr d), (''name'', JStr n)]) tools) G)"

section \<open>The kernel\<close>

definition is_unspecified :: "ip_addr \<Rightarrow> bool" where
  "is_unspecified ip = (ip = V4 0 \<or> ip = V6 0)"

definition upstreams_of :: "registry \<Rightarrow> string list" where
  "upstreams_of r = map (mg_upstream \<circ> snd) (rg_servers r) @ map (hd_upstream \<circ> snd) (rg_held r)"

text \<open>
  \<open>parse_url\<close>: the host, if the URL has one, and the port or the default of its scheme;
  \<open>resolve\<close>: the addresses of a host and port. The code keeps the hosts in a set and sorts the
  addresses; the kernel keeps a set of them, so their order is not observable.
\<close>

definition sync_addresses ::
  "(string \<Rightarrow> (string option \<times> nat option) option) \<Rightarrow> (string \<Rightarrow> ip_addr list option) \<Rightarrow> registry
     \<Rightarrow> ip_addr list" where
  "sync_addresses parse_url resolve r =
     (let hosts = remdups (List.map_filter
            (\<lambda>u. case parse_url u of
                    Some (Some h, p) \<Rightarrow> Some (h @ '':'' @ show_nat (case p of Some n \<Rightarrow> n | None \<Rightarrow> 443))
                  | _ \<Rightarrow> None) (upstreams_of r));
          ips = concat (map (\<lambda>hp. case resolve hp of Some a \<Rightarrow> a | None \<Rightarrow> []) hosts)
      in remdups (filter (\<lambda>ip. \<not> is_loopback ip \<and> \<not> is_unspecified ip) ips))"

definition sync_kernel ::
  "(string \<Rightarrow> (string option \<times> nat option) option) \<Rightarrow> (string \<Rightarrow> ip_addr list option) \<Rightarrow> bool \<Rightarrow> registry
     \<Rightarrow> ebpf_command list" where
  "sync_kernel parse_url resolve up r =
     (if up then [CSetMcpUpstreams (sync_addresses parse_url resolve r)] else [])"

section \<open>Watching the configuration of the agents\<close>

text \<open>Each character that is not an ASCII letter, a digit, - or _ becomes one dash.\<close>

definition server_id :: "string \<Rightarrow> string \<Rightarrow> string \<Rightarrow> string" where
  "server_id name agent owner =
     take 64 (List.map_filter
       (\<lambda>c. if is_cont c then None
            else if is_ascii_alphanumeric c \<or> c = CHR ''-'' \<or> c = CHR ''_'' then Some (ascii_lower c)
            else Some (CHR ''-'')) (name @ ''-'' @ agent @ ''-'' @ owner))"

definition is_gateway_url :: "string \<Rightarrow> bool" where
  "is_gateway_url u =
     (starts_with u ''http://127.0.0.1:7700/mcp/'' \<or> starts_with u ''http://localhost:7700/mcp/'')"

definition id_of :: "mcp_server \<Rightarrow> string" where
  "id_of m = server_id (ms_name m) (ms_agent m) (ms_owner m)"

definition held_entry :: "string \<Rightarrow> mcp_server \<Rightarrow> string \<Rightarrow> held_server" where
  "held_entry now m url =
     \<lparr>hd_id = id_of m, hd_name = ms_name m, hd_agent = ms_agent m, hd_owner = ms_owner m,
      hd_upstream = url, hd_source = ms_source m, hd_first_seen = now\<rparr>"

definition watched_url :: "mcp_server \<Rightarrow> string option" where
  "watched_url m =
     (case ms_url m of
        None \<Rightarrow> None
      | Some url \<Rightarrow>
          if ms_transport m \<noteq> ''http'' \<or> is_gateway_url url \<or> ''remote'' \<notin> set (ms_flags m) then None
          else Some url)"

definition hold_one ::
  "string \<Rightarrow> mcp_server \<Rightarrow> registry \<times> held_server list \<Rightarrow> registry \<times> held_server list" where
  "hold_one now m st =
     (case st of (r, newly) \<Rightarrow>
        (case watched_url m of
           None \<Rightarrow> (r, newly)
         | Some url \<Rightarrow>
             if (case server_of r (id_of m) of Some s \<Rightarrow> mg_upstream s = url | None \<Rightarrow> False) then (r, newly)
             else if (case held_of r (id_of m) of Some h \<Rightarrow> hd_upstream h = url | None \<Rightarrow> False)
             then (r, newly)
             else (r\<lparr>rg_held := db_insert (id_of m) (held_entry now m url) (rg_held r)\<rparr>,
                   newly @ [held_entry now m url])))"

definition present_ids :: "mcp_server list \<Rightarrow> string set" where
  "present_ids ms =
     set (List.map_filter
       (\<lambda>m. case ms_url m of Some u \<Rightarrow> if is_gateway_url u then None else Some (id_of m) | None \<Rightarrow> None) ms)"

definition HELD_PREFIX :: string where
  "HELD_PREFIX = ''MCP_HELD:''"

definition TARGET_PREFIX :: string where
  "TARGET_PREFIX = ''MCP_TOOL:''"

definition held_event ::
  "(string \<Rightarrow> (string option \<times> nat option) option) \<Rightarrow> timestamp \<Rightarrow> int option \<Rightarrow> held_server \<Rightarrow> security_event"
where
  "held_event parse_url now nanos h =
     (let host = (case parse_url (hd_upstream h) of Some (Some x, _) \<Rightarrow> x | _ \<Rightarrow> [])
      in blank_event\<lparr>
        ev_id := ''mcp-held-'' @ show_int (case nanos of Some n \<Rightarrow> n | None \<Rightarrow> 0) @ ''-'' @ hd_id h,
        ev_kind := McpToolCall, ev_process := hd_agent h, ev_target := HELD_PREFIX @ hd_name h,
        ev_allowed := False,
        ev_reason := Some ''New MCP server: held until an administrator approves it'',
        ev_timestamp := now,
        ev_extra := Some (JObj [(''mcp_server'', JStr (hd_name h)), (''host'', JStr host),
                                (''source'', JStr (hd_source h)), (''held'', JBool True)])\<rparr>)"

text \<open>
  One pass: the gateway after it, the registry the kernel is told of (\<open>None\<close> when it is not told),
  and the servers to record. \<open>found = None\<close>: the inventory could not be collected.
\<close>

definition watch_once ::
  "string + unit \<Rightarrow> string \<Rightarrow> mcp_server list option \<Rightarrow> gateway
     \<Rightarrow> gateway \<times> registry option \<times> held_server list" where
  "watch_once wr now found G =
     (if rg_servers (gw_mem G) = [] then (G, None, [])
      else case found of
             None \<Rightarrow> (G, None, [])
           | Some ms \<Rightarrow>
               (let (r, newly) = fold (hold_one now) ms (gw_mem G, []);
                    r' = r\<lparr>rg_held := filter (\<lambda>(i, h). i \<in> present_ids ms) (rg_held r)\<rparr>;
                    dropped = (length (rg_held r') \<noteq> length (rg_held r));
                    G' = (if newly \<noteq> [] \<or> dropped then save_registry wr (G\<lparr>gw_mem := r'\<rparr>)
                          else G\<lparr>gw_mem := r'\<rparr>)
                in (G', if newly \<noteq> [] \<or> dropped then Some r' else None, newly)))"

section \<open>Messages\<close>

definition messages :: "json \<Rightarrow> json list" where
  "messages body = (case body of JArr a \<Rightarrow> a | JObj kvs \<Rightarrow> [JObj kvs] | _ \<Rightarrow> [])"

definition method_is :: "string \<Rightarrow> json \<Rightarrow> bool" where
  "method_is name m = (Option.bind (json_get m ''method'') as_str = Some name)"

definition tool_call_of :: "json \<Rightarrow> (json \<times> string \<times> json) option" where
  "tool_call_of m =
     (if \<not> method_is ''tools/call'' m then None
      else case Option.bind (json_pointer [''params'', ''name''] m) as_str of
             None \<Rightarrow> None
           | Some name \<Rightarrow>
               Some (case json_get m ''id'' of Some i \<Rightarrow> i | None \<Rightarrow> JNull, name,
                     case json_pointer [''params'', ''arguments''] m of Some a \<Rightarrow> a | None \<Rightarrow> JNull))"

definition tool_calls :: "json \<Rightarrow> (json \<times> string \<times> json) list" where
  "tool_calls body = List.map_filter tool_call_of (messages body)"

definition asks_for_tools :: "json \<Rightarrow> bool" where
  "asks_for_tools body = list_ex (method_is ''tools/list'') (messages body)"

definition refusal :: "json \<Rightarrow> string \<Rightarrow> string \<Rightarrow> json" where
  "refusal i server tool =
     JObj [(''jsonrpc'', JStr ''2.0''), (''id'', i),
       (''error'', JObj [(''code'', JNum ''-32001''),
          (''message'', JStr (''Ring Zero Security refused this call: the '' @ tool @ '' tool of the '' @ server
             @ '' MCP server is switched off on this machine. ''
             @ ''Ask the person you are working for if you need it.''))])]"

text \<open>The value at a key of an object is replaced.\<close>

fun json_set :: "string \<Rightarrow> json \<Rightarrow> json \<Rightarrow> json" where
  "json_set k v (JObj kvs) = JObj (map (\<lambda>(k', v'). (k', if k' = k then v else v')) kvs)"
| "json_set k v j = j"

definition tool_shown :: "string set \<Rightarrow> json \<Rightarrow> bool" where
  "tool_shown disabled t =
     (case Option.bind (json_get t ''name'') as_str of Some n \<Rightarrow> n \<notin> disabled | None \<Rightarrow> True)"

definition filter_tool_list :: "string set \<Rightarrow> json \<Rightarrow> (json \<times> json list) option" where
  "filter_tool_list disabled v =
     (case json_get v ''result'' of
        None \<Rightarrow> None
      | Some result \<Rightarrow>
          (case json_get result ''tools'' of
             Some (JArr tools) \<Rightarrow>
               Some (json_set ''result'' (json_set ''tools'' (JArr (filter (tool_shown disabled) tools)) result) v,
                     tools)
           | _ \<Rightarrow> None))"

text \<open>\<open>find_map\<close> over the messages of a batch, changing the one it stops at.\<close>

fun fix_first :: "string set \<Rightarrow> json list \<Rightarrow> json list \<times> json list option" where
  "fix_first disabled [] = ([], None)"
| "fix_first disabled (m # ms) =
     (case filter_tool_list disabled m of
        Some (m', all) \<Rightarrow> (m' # ms, Some all)
      | None \<Rightarrow> (let (ms', offered) = fix_first disabled ms in (m # ms', offered)))"

definition fix_value :: "string set \<Rightarrow> json \<Rightarrow> json \<times> json list option" where
  "fix_value disabled v =
     (case v of
        JArr a \<Rightarrow> (let (a', offered) = fix_first disabled a in (JArr a', offered))
      | _ \<Rightarrow> (case filter_tool_list disabled v of Some (v', all) \<Rightarrow> (v', Some all) | None \<Rightarrow> (v, None)))"

text \<open>\<open>split_inclusive('\n')\<close>.\<close>

fun split_inclusive :: "string \<Rightarrow> string list" where
  "split_inclusive [] = []"
| "split_inclusive (c # cs) =
     (if c = CHR 0x0A then [c] # split_inclusive cs
      else case split_inclusive cs of [] \<Rightarrow> [[c]]
           | w # ws \<Rightarrow> (c # w) # ws)"

text \<open>A line is its content and its line end; a carriage return before a line feed is taken off.\<close>

definition line_parts :: "string \<Rightarrow> string \<times> string" where
  "line_parts line =
     (if ends_with line [CHR 0x0A]
      then (let c = butlast line in if ends_with c [CHR 0x0D] then butlast c else c, [CHR 0x0A])
      else (line, []))"

definition fix_line ::
  "(string \<Rightarrow> json option) \<Rightarrow> (json \<Rightarrow> string) \<Rightarrow> string set \<Rightarrow> string \<Rightarrow> string \<times> json list option" where
  "fix_line parse print disabled line =
     (let (content, nl) = line_parts line
      in case strip_prefix ''data:'' content of
           None \<Rightarrow> (line, None)
         | Some data \<Rightarrow>
             (case parse (trim data) of
                None \<Rightarrow> (line, None)
              | Some v \<Rightarrow> (let (v', offered) = fix_value disabled v
                         in (''data: '' @ print v' @ nl, offered))))"

definition filter_body ::
  "(string \<Rightarrow> json option) \<Rightarrow> (json \<Rightarrow> string) \<Rightarrow> string set \<Rightarrow> string \<Rightarrow> string \<times> json list option" where
  "filter_body parse print disabled body =
     (case parse body of
        Some v \<Rightarrow> (let (v', offered) = fix_value disabled v in (print v', offered))
      | None \<Rightarrow>
          (let lines = map (fix_line parse print disabled) (split_inclusive body)
           in (concat (map fst lines),
               foldl (\<lambda>acc l. case snd l of Some a \<Rightarrow> Some a | None \<Rightarrow> acc) None lines)))"

section \<open>The proxy\<close>

definition ELLIPSIS :: string where
  "ELLIPSIS = [CHR 0xE2, CHR 0x80, CHR 0xA6]"

definition call_event ::
  "(json \<Rightarrow> string) \<Rightarrow> timestamp \<Rightarrow> int option \<Rightarrow> pid \<Rightarrow> string \<Rightarrow> string \<Rightarrow> string \<Rightarrow> json \<Rightarrow> bool
     \<Rightarrow> security_event" where
  "call_event print now nanos p process server tool args allowed =
     (let text = print args;
          shown = (if 400 < length text then take (cut_back text 400) text @ ELLIPSIS else text)
      in blank_event\<lparr>
        ev_id := ''mcp-'' @ show_int (case nanos of Some n \<Rightarrow> n | None \<Rightarrow> 0) @ ''-'' @ show_nat (unat p),
        ev_kind := McpToolCall, ev_pid := p, ev_process := (if process = [] then ''agent'' else process),
        ev_target := TARGET_PREFIX @ server @ ''/'' @ tool, ev_allowed := allowed,
        ev_reason := (if allowed then None
                      else Some (''The '' @ tool @ '' tool of '' @ server @ '' is switched off'')),
        ev_timestamp := now,
        ev_extra := Some (JObj [(''mcp_server'', JStr server), (''tool'', JStr tool),
                                (''arguments'', JStr shown)])\<rparr>)"

definition gateway_caller ::
  "(socket_addr \<Rightarrow> string) \<Rightarrow> (string \<Rightarrow> string) \<Rightarrow> proc_world \<Rightarrow> socket_addr \<Rightarrow> (pid \<times> string) option" where
  "gateway_caller show_peer lower W peer =
     map_option
       (\<lambda>who. case who of
          Inl e \<Rightarrow> (0, [])
        | Inr p \<Rightarrow>
            (case agent_in_lineage lower W p of
               Some (a, comm) \<Rightarrow> (word_of_nat a, comm)
             | None \<Rightarrow> (word_of_nat p, case pw_comm W p of Some c \<Rightarrow> trim c | None \<Rightarrow> [])))
       (pid_for_peer show_peer W peer)"

definition PASS_UP :: "string list" where
  "PASS_UP = [''content-type'', ''accept'', ''authorization'', ''mcp-session-id'', ''mcp-protocol-version'',
     ''last-event-id'', ''user-agent'']"

definition PASS_DOWN :: "string list" where
  "PASS_DOWN = [''content-type'', ''mcp-session-id'', ''www-authenticate'']"

record proxy_request =
  pq_method :: string
  pq_headers :: "(string \<times> string) list"
  pq_body :: string

record upstream_request =
  uq_method :: string
  uq_url :: string
  uq_headers :: "(string \<times> string) list"
  uq_body :: string

record proxy_response =
  pr_status :: nat
  pr_headers :: "(string \<times> string) list"
  pr_body :: string

definition text_response :: "nat \<Rightarrow> string \<Rightarrow> proxy_response" where
  "text_response st body =
     \<lparr>pr_status = st, pr_headers = [(''content-type'', ''text/plain; charset=utf-8'')], pr_body = body\<rparr>"

definition json_response :: "(json \<Rightarrow> string) \<Rightarrow> json \<Rightarrow> proxy_response" where
  "json_response print v =
     \<lparr>pr_status = 200, pr_headers = [(''content-type'', ''application/json'')], pr_body = print v\<rparr>"

text \<open>What one request does: the answer, the events recorded, the request sent to the server.\<close>

record outcome =
  oc_response :: proxy_response
  oc_events :: "security_event list"
  oc_sent :: "upstream_request option"

text \<open>
  The surroundings: JSON, the clock, what \<open>gateway_caller\<close> finds, the answer of the server
  (\<open>None\<close> when it cannot be reached) and the write of the registry.
\<close>

record proxy_env =
  pe_parse :: "string \<Rightarrow> json option"
  pe_print :: "json \<Rightarrow> string"
  pe_now :: timestamp
  pe_nanos :: "int option"
  pe_caller :: "pid \<times> string"
  pe_send :: "upstream_request \<Rightarrow> proxy_response option"
  pe_write :: "string + unit"

definition event_for :: "proxy_env \<Rightarrow> managed_server \<Rightarrow> bool \<Rightarrow> json \<times> string \<times> json \<Rightarrow> security_event" where
  "event_for V s allowed call =
     (case call of (i, name, args) \<Rightarrow>
        call_event (pe_print V) (pe_now V) (pe_nanos V) (fst (pe_caller V)) (snd (pe_caller V))
          (mg_name s) name args allowed)"

definition refused_calls :: "managed_server \<Rightarrow> json \<Rightarrow> (json \<times> string \<times> json) list" where
  "refused_calls s v = filter (\<lambda>(i, name, args). name \<in> mg_disabled s) (tool_calls v)"

definition answer_refused :: "proxy_env \<Rightarrow> managed_server \<Rightarrow> json \<Rightarrow> outcome" where
  "answer_refused V s v =
     (let errors = map (\<lambda>(i, name, args). refusal i (mg_name s) name) (refused_calls s v)
      in \<lparr>oc_response = json_response (pe_print V) (case v of JArr a \<Rightarrow> JArr errors | _ \<Rightarrow> hd errors),
          oc_events = map (event_for V s False) (refused_calls s v), oc_sent = None\<rparr>)"

definition forward ::
  "proxy_env \<Rightarrow> string \<Rightarrow> managed_server \<Rightarrow> proxy_request \<Rightarrow> json option \<Rightarrow> gateway \<Rightarrow> gateway \<times> outcome"
where
  "forward V i s rq parsed G =
     (let events = (case parsed of Some v \<Rightarrow> map (event_for V s True) (tool_calls v) | None \<Rightarrow> []);
          up = \<lparr>uq_method = pq_method rq, uq_url = mg_upstream s,
                uq_headers = filter (\<lambda>(k, v). k \<in> set PASS_UP) (pq_headers rq), uq_body = pq_body rq\<rparr>
      in case pe_send V up of
           None \<Rightarrow>
             (G, \<lparr>oc_response = text_response 502
                     (''Ring Zero Security could not reach the '' @ mg_name s @ '' MCP server''),
                  oc_events = events, oc_sent = Some up\<rparr>)
         | Some r \<Rightarrow>
             (let down = fold (\<lambda>(k, v) h. AList.update k v h)
                           (filter (\<lambda>(k, v). k \<in> set PASS_DOWN) (pr_headers r)) [];
                  (text, offered) =
                    (if (case parsed of Some v \<Rightarrow> asks_for_tools v | None \<Rightarrow> False)
                     then filter_body (pe_parse V) (pe_print V) (mg_disabled s) (pr_body r)
                     else (pr_body r, None));
                  G' = (case offered of Some all \<Rightarrow> remember_tools (pe_write V) i all G | None \<Rightarrow> G)
              in (G', \<lparr>oc_response = (text_response (pr_status r) text)\<lparr>pr_headers :=
                          fold (\<lambda>(k, v) h. AList.update k v h) down
                            (pr_headers (text_response (pr_status r) text))\<rparr>,
                       oc_events = events, oc_sent = Some up\<rparr>)))"

definition handle :: "proxy_env \<Rightarrow> string \<Rightarrow> socket_addr \<Rightarrow> proxy_request \<Rightarrow> gateway \<Rightarrow> gateway \<times> outcome" where
  "handle V i peer rq G =
     (let plain = (\<lambda>st body. (G, \<lparr>oc_response = text_response st body, oc_events = [], oc_sent = None\<rparr>))
      in if \<not> is_loopback (fst peer)
         then plain 403 ''the MCP gateway is reachable from this machine only''
         else case server_of (gw_mem G) i of
                None \<Rightarrow> plain 404 (''no MCP server called '' @ i @ '' is managed by Ring Zero Security'')
              | Some s \<Rightarrow>
                  if pq_method rq = ''GET'' then plain 405 []
                  else (let parsed = pe_parse V (pq_body rq)
                        in case parsed of
                             Some v \<Rightarrow> if refused_calls s v \<noteq> [] then (G, answer_refused V s v)
                                      else forward V i s rq parsed G
                           | None \<Rightarrow> forward V i s rq parsed G))"

section \<open>Switched-off tools\<close>

lemma refused_iff:
  "refused_calls s v = [] \<longleftrightarrow> (\<forall>(i, name, args) \<in> set (tool_calls v). name \<notin> mg_disabled s)"
  by (auto simp: refused_calls_def filter_empty_conv)

lemma forward_sent:
  "oc_sent (snd (forward V i s rq parsed G)) =
     Some \<lparr>uq_method = pq_method rq, uq_url = mg_upstream s,
           uq_headers = filter (\<lambda>(k, v). k \<in> set PASS_UP) (pq_headers rq), uq_body = pq_body rq\<rparr>"
  by (simp add: forward_def Let_def split: option.split prod.split)



section \<open>Tool lists\<close>

definition listed_tools :: "json \<Rightarrow> json list" where
  "listed_tools v = (case json_pointer [''result'', ''tools''] v of Some (JArr ts) \<Rightarrow> ts | _ \<Rightarrow> [])"

definition has_list :: "json \<Rightarrow> bool" where
  "has_list v = (filter_tool_list {} v \<noteq> None)"

lemma json_get_set: "json_get (json_set k v j) k' = (if k' = k then map_option (\<lambda>x. v) (json_get j k) else json_get j k')"
proof (cases j)
  case (JObj kvs)
  then show ?thesis by (induction kvs arbitrary: j) auto
qed auto

lemma filter_list_cases:
  "has_list v \<Longrightarrow> \<exists>w. filter_tool_list d v = Some (w, listed_tools v)"
  "\<not> has_list v \<Longrightarrow> filter_tool_list d v = None"
  "has_list v \<Longrightarrow> listed_tools (fst (the (filter_tool_list d v))) = filter (tool_shown d) (listed_tools v)"
  "has_list v \<Longrightarrow> k \<noteq> ''result'' \<Longrightarrow> json_get (fst (the (filter_tool_list d v))) k = json_get v k"
  by (auto simp: filter_tool_list_def has_list_def listed_tools_def json_get_set split: option.splits json.splits)

text \<open>
  In an answer that is one JSON-RPC message no switched-off tool is listed and every other tool
  is, in its place; the rest of the message is as the server sent it, and what the server
  offered is what is remembered.
\<close>

theorem switched_off_tools_are_hidden:
  assumes "\<And>a. v \<noteq> JArr a"
  shows "listed_tools (fst (fix_value d v)) = filter (tool_shown d) (listed_tools v)
    \<and> (\<forall>t \<in> set (listed_tools (fst (fix_value d v))). \<forall>n. json_get t ''name'' = Some (JStr n) \<longrightarrow> n \<notin> d)
    \<and> (\<forall>k. k \<noteq> ''result'' \<longrightarrow> json_get (fst (fix_value d v)) k = json_get v k)
    \<and> snd (fix_value d v) = (if has_list v then Some (listed_tools v) else None)"
proof -
  have fv: "fix_value d v =
      (if has_list v then (fst (the (filter_tool_list d v)), Some (listed_tools v)) else (v, None))"
    using assms filter_list_cases(1,2)[of v d] by (cases "has_list v"; cases v) (auto simp: fix_value_def)
  have "listed_tools v = []" if "\<not> has_list v"
    using that by (auto simp: has_list_def filter_tool_list_def listed_tools_def split: option.splits json.splits)
  then show ?thesis
    using filter_list_cases(3,4)[of v] by (auto simp: fv tool_shown_def)
qed

text \<open>
  In a batch only the first message with a tool list is filtered: every message after it is
  passed on as the server sent it, the switched-off tools in its list included.
\<close>

theorem later_lists_are_not_filtered:
  assumes "list_all (\<lambda>m. \<not> has_list m) before" and "has_list m"
  shows "fix_value d (JArr (before @ m # after)) =
     (JArr (before @ fst (the (filter_tool_list d m)) # after), Some (listed_tools m))"
proof -
  have "fix_first d (before @ m # after) =
      (before @ fst (the (filter_tool_list d m)) # after, Some (listed_tools m))"
    using assms
  proof (induction before)
    case Nil
    then show ?case using filter_list_cases(1)[of m d] by auto
  next
    case (Cons b before)
    then show ?case using filter_list_cases(2)[of b d] by auto
  qed
  then show ?thesis by (simp add: fix_value_def)
qed

section \<open>A switch stays where the administrator put it\<close>

datatype gateway_op =
    GoUpsert "string + unit" managed_server
  | GoRemove "string + unit" string
  | GoSet "string + unit" string string bool
  | GoRemember "string + unit" string "json list"
  | GoWatch "string + unit" string "mcp_server list option"
  | GoHandle proxy_env string socket_addr proxy_request
  | GoRestart

fun gateway_step :: "gateway \<Rightarrow> gateway_op \<Rightarrow> gateway" where
  "gateway_step G (GoUpsert wr s) = fst (upsert wr s G)"
| "gateway_step G (GoRemove wr i) = fst (remove_server wr i G)"
| "gateway_step G (GoSet wr i t b) = fst (set_tool wr i t b G)"
| "gateway_step G (GoRemember wr i ts) = remember_tools wr i ts G"
| "gateway_step G (GoWatch wr now found) = fst (watch_once wr now found G)"
| "gateway_step G (GoHandle V i peer rq) = fst (handle V i peer rq G)"
| "gateway_step G GoRestart = restart_gateway G"

definition registry_ordered :: "registry \<Rightarrow> bool" where
  "registry_ordered r = (key_ordered (rg_servers r) \<and> key_ordered (rg_held r))"

definition gateway_ordered :: "gateway \<Rightarrow> bool" where
  "gateway_ordered G = (registry_ordered (gw_mem G) \<and> registry_ordered (load_registry (gw_file G)))"

lemma save_simps [simp]:
  "gw_mem (save_registry wr G) = gw_mem G"
  "gw_file (save_registry wr G) = (case wr of Inl e \<Rightarrow> gw_file G | Inr u \<Rightarrow> Some (gw_mem G))"
  by (simp_all add: save_registry_def split: sum.split)

lemma key_ordered_filter: "key_ordered d \<Longrightarrow> key_ordered (filter P d)"
  by (induction d) (auto simp: keys_def)

lemma hold_one_servers: "rg_servers (fst (hold_one now m st)) = rg_servers (fst st)"
  by (cases st) (auto simp: hold_one_def split: option.split)

lemma hold_all_servers: "rg_servers (fst (fold (hold_one now) ms st)) = rg_servers (fst st)"
  by (induction ms arbitrary: st) (auto simp: hold_one_servers)

lemma hold_one_ordered: "registry_ordered (fst st) \<Longrightarrow> registry_ordered (fst (hold_one now m st))"
  by (cases st) (auto simp: hold_one_def registry_ordered_def key_ordered_insert split: option.split)

lemma hold_all_ordered: "registry_ordered (fst st) \<Longrightarrow> registry_ordered (fst (fold (hold_one now) ms st))"
  by (induction ms arbitrary: st) (auto simp: hold_one_ordered)

lemma watch_mem:
  "gw_mem (fst (watch_once wr now (Some ms) G)) =
     (if rg_servers (gw_mem G) = [] then gw_mem G
      else (let r = fst (fold (hold_one now) ms (gw_mem G, []))
            in r\<lparr>rg_held := filter (\<lambda>(i, h). i \<in> present_ids ms) (rg_held r)\<rparr>))"
  by (simp add: watch_once_def Let_def split: prod.split)

lemma watch_none [simp]: "watch_once wr now None G = (G, None, [])"
  by (simp add: watch_once_def)

lemma watch_servers [simp]: "rg_servers (gw_mem (fst (watch_once wr now found G))) = rg_servers (gw_mem G)"
proof (cases found)
  case (Some ms)
  then show ?thesis
    using hold_all_servers[of now ms "(gw_mem G, [])"] by (simp add: watch_mem Let_def)
qed simp

lemma forward_gateway:
  "fst (forward V i s rq parsed G) = G
   \<or> (\<exists>all. fst (forward V i s rq parsed G) = remember_tools (pe_write V) i all G)"
  by (simp add: forward_def Let_def split: option.split prod.split) blast

lemma handle_gateway:
  "fst (handle V i peer rq G) = G \<or> (\<exists>all. fst (handle V i peer rq G) = remember_tools (pe_write V) i all G)"
  using forward_gateway by (simp add: handle_def Let_def split: option.split)

lemma mem_ordered_step:
  assumes "registry_ordered (gw_mem G)" and "op \<noteq> GoRestart"
  shows "registry_ordered (gw_mem (gateway_step G op))"
proof -
  have rem: "registry_ordered (gw_mem (remember_tools wr i ts G))" for wr i ts
    using assms(1) by (simp add: remember_tools_def Let_def registry_ordered_def key_ordered_insert split: option.split)
  show ?thesis
  proof (cases op)
    case (GoWatch wr now found)
    then show ?thesis
      using assms(1) hold_all_ordered[of "(gw_mem G, [])" now]
      by (cases found) (auto simp: watch_mem Let_def registry_ordered_def key_ordered_filter)
  next
    case (GoHandle V i peer rq)
    then show ?thesis using handle_gateway[of V i peer rq G] rem assms(1) by auto
  qed (use assms rem in \<open>auto simp: upsert_def remove_server_def set_tool_def Let_def registry_ordered_def
      key_ordered_insert key_ordered_remove split: option.split\<close>)
qed

text \<open>Every operation leaves the file alone or writes the registry it leaves in memory.\<close>

lemma file_step:
  "op \<noteq> GoRestart \<Longrightarrow>
   gw_file (gateway_step G op) = gw_file G \<or> gw_file (gateway_step G op) = Some (gw_mem (gateway_step G op))"
proof (cases op)
  case (GoHandle V i peer rq)
  then show ?thesis
    using handle_gateway[of V i peer rq G]
    by (auto simp: remember_tools_def Let_def split: option.split sum.split)
next
  case (GoWatch wr now found)
  then show ?thesis by (cases found) (auto simp: watch_once_def Let_def split: prod.split sum.split)
qed (auto simp: upsert_def remove_server_def set_tool_def remember_tools_def Let_def split: option.split sum.split)

interpretation gateway: invariant_system gateway_step gateway_ordered
proof
  fix G op
  assume G: "gateway_ordered G"
  show "gateway_ordered (gateway_step G op)"
  proof (cases "op = GoRestart")
    case True
    then show ?thesis using G by (simp add: gateway_ordered_def restart_gateway_def)
  next
    case False
    then show ?thesis
      using G mem_ordered_step[of G op] file_step[OF False, of G]
      by (auto simp: gateway_ordered_def load_registry_def)
  qed
qed

definition switched_off :: "string \<Rightarrow> string \<Rightarrow> registry \<Rightarrow> bool" where
  "switched_off i t r = (\<exists>s. server_of r i = Some s \<and> t \<in> mg_disabled s)"

text \<open>
  The operations a switch survives: not the removal of the server, not the switch itself; a failed
  write is allowed as long as the daemon is not restarted after it, so writes succeed here.
\<close>

fun written_ok :: "gateway_op \<Rightarrow> bool" where
  "written_ok (GoUpsert wr s) = (wr = Inr ())"
| "written_ok (GoRemove wr i) = (wr = Inr ())"
| "written_ok (GoSet wr i t b) = (wr = Inr ())"
| "written_ok (GoRemember wr i ts) = (wr = Inr ())"
| "written_ok (GoWatch wr now found) = (wr = Inr ())"
| "written_ok (GoHandle V i peer rq) = (pe_write V = Inr ())"
| "written_ok GoRestart = True"

fun leaves_switch :: "string \<Rightarrow> string \<Rightarrow> gateway_op \<Rightarrow> bool" where
  "leaves_switch i t (GoRemove wr j) = (j \<noteq> i)"
| "leaves_switch i t (GoSet wr j u b) = (j \<noteq> i \<or> u \<noteq> t \<or> \<not> b)"
| "leaves_switch i t op = True"

lemma switch_step:
  assumes "registry_ordered (gw_mem G)" and "switched_off i t (gw_mem G)"
    and "leaves_switch i t op" and "op \<noteq> GoRestart"
  shows "switched_off i t (gw_mem (gateway_step G op))"
proof -
  have ins: "server_of (r\<lparr>rg_servers := db_insert j s (rg_servers (gw_mem G))\<rparr>) k
      = (if k = j then Some s else server_of (gw_mem G) k)" for r j k s
    using assms(1) by (simp add: server_of_def registry_ordered_def map_of_insert)
  have rem: "switched_off i t (gw_mem (remember_tools wr j ts G))" for wr j ts
    using assms(2) by (auto simp: remember_tools_def Let_def switched_off_def ins split: option.split)
  show ?thesis
  proof (cases op)
    case (GoHandle V j peer rq)
    then show ?thesis using handle_gateway[of V j peer rq G] rem assms(2) by auto
  next
    case (GoWatch wr now found)
    then show ?thesis using assms(2) by (simp add: switched_off_def server_of_def)
  next
    case (GoRemove wr j)
    then show ?thesis
      using assms(2,3) by (auto simp: remove_server_def switched_off_def server_of_def map_of_remove)
  next
    case (GoUpsert wr s)
    have "switched_off i t (gw_mem G\<lparr>rg_held := h, rg_servers := db_insert (mg_id s)
        (case server_of (gw_mem G) (mg_id s) of Some old \<Rightarrow> merge_old old s | None \<Rightarrow> s)
        (rg_servers (gw_mem G))\<rparr>)" for h
      using assms(2) ins[where r = "gw_mem G\<lparr>rg_held := h\<rparr>"] by (auto simp: switched_off_def merge_old_def)
    then show ?thesis using GoUpsert assms(2) by (simp add: upsert_def Let_def)
  next
    case (GoSet wr j u b)
    then show ?thesis
      using assms(2,3) by (auto simp: set_tool_def Let_def switched_off_def ins split: option.split)
  qed (use assms(4) rem in auto)
qed

lemma file_follows:
  assumes "gw_file G = Some (gw_mem G)" and "written_ok op"
  shows "gw_file (gateway_step G op) = Some (gw_mem (gateway_step G op))"
proof (cases op)
  case (GoHandle V i peer rq)
  then show ?thesis
    using handle_gateway[of V i peer rq G] assms
    by (auto simp: remember_tools_def Let_def split: option.split)
next
  case (GoWatch wr now found)
  show ?thesis
  proof (cases found)
    case (Some ms)
    have "newly = [] \<Longrightarrow> fold (hold_one now) xs (r, q) = (r', newly) \<Longrightarrow> q = [] \<and> r' = r" for xs r q r' newly
      by (induction xs arbitrary: r q)
        (auto simp: hold_one_def split: option.splits if_splits)
    then have "fold (hold_one now) ms (gw_mem G, []) = (r, []) \<Longrightarrow> r = gw_mem G" for r by blast
    moreover have "length (filter P xs) = length xs \<Longrightarrow> filter P xs = xs" for P and xs :: "(string \<times> held_server) list"
      by (metis filter_id_conv length_filter_less less_irrefl)
    ultimately have "length (filter P (rg_held (gw_mem G))) = length (rg_held (gw_mem G))
        \<Longrightarrow> gw_mem G\<lparr>rg_held := filter P (rg_held (gw_mem G))\<rparr> = gw_mem G" for P
      by simp
    moreover note \<open>\<And>r. fold (hold_one now) ms (gw_mem G, []) = (r, []) \<Longrightarrow> r = gw_mem G\<close>
    ultimately show ?thesis
      using GoWatch Some assms
      by (auto simp: watch_once_def Let_def split: prod.split)
  qed (use GoWatch assms in simp)
qed (use assms in \<open>auto simp: upsert_def remove_server_def set_tool_def remember_tools_def restart_gateway_def
    load_registry_def Let_def split: option.split\<close>)

lemma switch_run:
  "gateway_ordered G \<Longrightarrow> switched_off i t (gw_mem G) \<Longrightarrow> gw_file G = Some (gw_mem G) \<Longrightarrow>
   list_all (\<lambda>op. leaves_switch i t op \<and> written_ok op) ops \<Longrightarrow>
   switched_off i t (gw_mem (foldl gateway_step G ops))"
proof (induction ops arbitrary: G)
  case (Cons op ops)
  have "switched_off i t (gw_mem (gateway_step G op))"
  proof (cases "op = GoRestart")
    case True
    then show ?thesis using Cons.prems by (simp add: restart_gateway_def load_registry_def)
  qed (use switch_step[of G i t op] Cons.prems in \<open>auto simp: gateway_ordered_def\<close>)
  then show ?case
    using Cons.IH gateway.step_inv[OF Cons.prems(1)] file_follows[OF Cons.prems(3)] Cons.prems(4) by simp
qed simp


section \<open>A new server is out of reach\<close>

lemma map_of_filter_key: "map_of (filter (\<lambda>(k, v). P k) xs) k = (if P k then map_of xs k else None)"
  by (induction xs) auto

definition known_at :: "string \<Rightarrow> string \<Rightarrow> registry \<Rightarrow> bool" where
  "known_at i url r =
     ((\<exists>s. server_of r i = Some s \<and> mg_upstream s = url) \<or> (\<exists>h. held_of r i = Some h \<and> hd_upstream h = url))"

lemma hold_one_held:
  "registry_ordered r \<Longrightarrow>
   held_of (fst (hold_one now m (r, newly))) i =
     (case watched_url m of
        None \<Rightarrow> held_of r i
      | Some url \<Rightarrow> if i = id_of m \<and> \<not> known_at i url r then Some (held_entry now m url) else held_of r i)"
  by (auto simp: hold_one_def held_of_def known_at_def server_of_def registry_ordered_def map_of_insert
      split: option.split)

lemma hold_one_server_of: "server_of (fst (hold_one now m st)) i = server_of (fst st) i"
  by (simp add: server_of_def hold_one_servers)

lemma held_entry_upstream [simp]: "hd_upstream (held_entry now m url) = url"
  by (simp add: held_entry_def)

lemma hold_one_known:
  assumes "registry_ordered r"
    and "watched_url m = Some url \<and> i = id_of m
         \<or> known_at i url r \<and> (i = id_of m \<longrightarrow> watched_url m = None \<or> watched_url m = Some url)"
  shows "known_at i url (fst (hold_one now m (r, newly)))"
  using assms(2) unfolding known_at_def
  by (auto simp: hold_one_held[OF assms(1)] hold_one_server_of known_at_def split: option.split)

lemma hold_all_known:
  "registry_ordered r \<Longrightarrow>
   (\<exists>m \<in> set ms. watched_url m = Some url \<and> id_of m = i) \<or> known_at i url r \<Longrightarrow>
   (\<forall>m \<in> set ms. id_of m = i \<longrightarrow> watched_url m = None \<or> watched_url m = Some url) \<Longrightarrow>
   known_at i url (fst (fold (hold_one now) ms (r, newly)))"
proof (induction ms arbitrary: r newly)
  case (Cons m ms)
  obtain r' newly' where st: "hold_one now m (r, newly) = (r', newly')" by fastforce
  have ordered: "registry_ordered r'" using hold_one_ordered[of "(r, newly)" now m] Cons.prems(1) st by simp
  have "(\<exists>m \<in> set ms. watched_url m = Some url \<and> id_of m = i) \<or> known_at i url r'"
    using Cons.prems(2,3) hold_one_known[OF Cons.prems(1), of m url i now newly] st by auto
  then show ?case using Cons.IH[OF ordered] Cons.prems(3) st by simp
qed simp

lemma watched_present: "m \<in> set ms \<Longrightarrow> watched_url m = Some url \<Longrightarrow> id_of m \<in> present_ids ms"
  by (force simp: present_ids_def watched_url_def List.map_filter_def split: option.splits if_splits)

lemma watch_knows:
  assumes "registry_ordered (gw_mem G)" and "rg_servers (gw_mem G) \<noteq> []"
    and "m \<in> set ms" and "watched_url m = Some url"
    and "\<forall>m' \<in> set ms. id_of m' = id_of m \<longrightarrow> watched_url m' = None \<or> watched_url m' = Some url"
  shows "known_at (id_of m) url (gw_mem (fst (watch_once wr now (Some ms) G)))"
proof -
  let ?r = "fst (fold (hold_one now) ms (gw_mem G, []))"
  have "known_at (id_of m) url ?r" using hold_all_known[OF assms(1)] assms(3-5) by blast
  moreover have "id_of m \<in> present_ids ms" using assms(3,4) by (rule watched_present)
  ultimately show ?thesis
    using assms(2) by (simp add: watch_mem Let_def known_at_def server_of_def held_of_def map_of_filter_key)
qed

lemma known_upstream: "known_at i url r \<Longrightarrow> url \<in> set (upstreams_of r)"
  by (force simp: known_at_def server_of_def held_of_def upstreams_of_def dest: map_of_SomeD)

text \<open>The kernel's lookup for a connection, GPL/bpf/ringzero.bpf.c \<open>mcp_upstream_denied\<close>.\<close>

definition mcp_upstream_denied :: "loader_env \<Rightarrow> kernel \<Rightarrow> ip_addr \<Rightarrow> bool \<Rightarrow> bool" where
  "mcp_upstream_denied E K ip agent =
     (agent \<and> (case ip of
        V4 a \<Rightarrow> bm_has (k_mcp4 K) (ne_key E a)
      | V6 a \<Rightarrow> (case to_ipv4_mapped a of
                  Some m \<Rightarrow> bm_has (k_mcp4 K) (ne_key E m)
                | None \<Rightarrow> bm_has (k_mcp6 K) a)))"

definition mcp_room :: "loader_env \<Rightarrow> ip_addr list \<Rightarrow> kernel \<Rightarrow> bool" where
  "mcp_room E ips K = (room (length (mcp_v4 E ips)) (k_mcp4 K) \<and> room (length (mcp_v6 ips)) (k_mcp6 K))"

lemma upstreams_denied:
  assumes "mcp_room E ips K"
  shows "mcp_upstream_denied E (apply_mcp_upstreams E ips K) ip True \<longleftrightarrow>
     (case ip of V4 a \<Rightarrow> ne_key E a \<in> set (mcp_v4 E ips)
      | V6 a \<Rightarrow> (case to_ipv4_mapped a of Some m \<Rightarrow> ne_key E m \<in> set (mcp_v4 E ips) | None \<Rightarrow> a \<in> set (mcp_v6 ips)))"
  using assms
  by (auto simp: mcp_upstream_denied_def apply_mcp_upstreams_def mcp_room_def replace_set_has image_image
      split: ip_addr.split option.split)

lemma listed_is_denied:
  assumes "mcp_room E ips K" and "ip \<in> set ips"
  shows "mcp_upstream_denied E (apply_mcp_upstreams E ips K) ip True"
  using assms(2)
  by (force simp: upstreams_denied[OF assms(1)] mcp_v4_def mcp_v6_def List.map_filter_def
      split: ip_addr.split option.split)

definition host_port :: "string \<times> nat option \<Rightarrow> string" where
  "host_port hp = fst hp @ '':'' @ show_nat (case snd hp of Some n \<Rightarrow> n | None \<Rightarrow> 443)"

lemma synced_addresses:
  assumes "url \<in> set (upstreams_of r)" and "parse_url url = Some (Some host, port)"
    and "resolve (host_port (host, port)) = Some addrs" and "ip \<in> set addrs"
    and "\<not> is_loopback ip" and "\<not> is_unspecified ip"
  shows "ip \<in> set (sync_addresses parse_url resolve r)"
  using assms by (force simp: sync_addresses_def Let_def List.map_filter_def host_port_def split: option.split)


text \<open>
  Two servers whose names give the same identifier (the case of a letter, a dot or a slash is
  enough) and whose addresses differ: the first is neither managed nor held after a pass, so it
  can be reached, and every pass holds and records both of them again.
\<close>

theorem colliding_server_escapes:
  assumes "registry_ordered (gw_mem G)" and "rg_servers (gw_mem G) \<noteq> []"
    and "id_of m1 = id_of m2" and "watched_url m1 = Some u1" and "watched_url m2 = Some u2" and "u1 \<noteq> u2"
    and "server_of (gw_mem G) (id_of m1) = None"
    and "held_of (gw_mem G) (id_of m1) = None \<or> held_of (gw_mem G) (id_of m1) = Some (held_entry before m2 u2)"
  shows "(case watch_once wr now (Some [m1, m2]) G of (G', told, newly) \<Rightarrow>
      \<not> known_at (id_of m1) u1 (gw_mem G')
      \<and> newly = [held_entry now m1 u1, held_entry now m2 u2]
      \<and> held_of (gw_mem G') (id_of m1) = Some (held_entry now m2 u2))"
proof -
  let ?r0 = "gw_mem G"
  let ?r1 = "?r0\<lparr>rg_held := db_insert (id_of m1) (held_entry now m1 u1) (rg_held ?r0)\<rparr>"
  let ?r2 = "?r1\<lparr>rg_held := db_insert (id_of m1) (held_entry now m2 u2) (rg_held ?r1)\<rparr>"
  have one: "hold_one now m1 (?r0, []) = (?r1, [held_entry now m1 u1])"
    using assms(4,6-8) by (auto simp: hold_one_def)
  have ord: "key_ordered (rg_held ?r1)"
    using assms(1) by (simp add: registry_ordered_def key_ordered_insert)
  have "held_of ?r1 (id_of m1) = Some (held_entry now m1 u1)" "server_of ?r1 (id_of m1) = None"
    using assms(1,7) by (simp_all add: held_of_def server_of_def registry_ordered_def map_of_insert)
  then have two: "hold_one now m2 (?r1, [held_entry now m1 u1]) = (?r2, [held_entry now m1 u1, held_entry now m2 u2])"
    using assms(3,5,6) by (simp add: hold_one_def)
  have present: "id_of m1 \<in> present_ids [m1, m2]" using watched_present[of m1 "[m1, m2]"] assms(4) by simp
  have "held_of ?r2 (id_of m1) = Some (held_entry now m2 u2)"
    using ord by (simp add: held_of_def map_of_insert)
  then show ?thesis
    using one two present assms(2,6,7)
    by (simp add: watch_once_def Let_def known_at_def held_of_def server_of_def map_of_filter_key)
qed

lemma mcp_fields [simp]:
  "ms_transport (mcp_from_json name spec agent owner source scope) = transport_of spec"
  "ms_url (mcp_from_json name spec agent owner source scope) = spec_url spec"
  "\<exists>c. ms_flags (mcp_from_json name spec agent owner source scope) = flags_of spec c"
  by (auto simp: mcp_from_json_def Let_def split: prod.split)

lemma strip_query_prefix: "prefix (strip_query u) u"
proof (induction u)
  case (Cons c u)
  obtain w ws where "split_on (\<lambda>c. c = CHR ''?'' \<or> c = CHR ''#'') u = w # ws"
    using split_on_nonempty by (cases "split_on (\<lambda>c. c = CHR ''?'' \<or> c = CHR ''#'') u") auto
  then show ?case using Cons by (simp add: strip_query_def)
qed (simp add: strip_query_def)

lemma localhost_is_local:
  assumes "CHR '':'' \<notin> set y" and "\<not> starts_with y ''/''"
  shows "is_local_url (''https://localhost:'' @ y)"
proof -
  have "\<not> contains (''localhost:'' @ y) ''://''"
  proof
    assume "contains (''localhost:'' @ y) ''://''"
    then obtain a b where ab: "''localhost'' @ CHR '':'' # y = a @ CHR '':'' # ''//'' @ b"
      by (auto simp: contains_iff)
    have "split_once (CHR '':'') (''localhost'' @ CHR '':'' # y) = Some (''localhost'', y)"
      by (rule split_once_app) simp
    moreover have "CHR '':'' \<notin> set a"
    proof
      assume "CHR '':'' \<in> set a"
      then have "1 < length (filter (\<lambda>c. c = CHR '':'') (a @ CHR '':'' # ''//'' @ b))"
        by (auto simp: filter_empty_conv length_greater_0_conv[symmetric] simp del: length_greater_0_conv)
      moreover have "filter (\<lambda>c. c = CHR '':'') y = []" using assms(1) by (auto simp: filter_empty_conv)
      ultimately show False unfolding ab[symmetric] by simp
    qed
    then have "split_once (CHR '':'') (a @ CHR '':'' # ''//'' @ b) = Some (a, ''//'' @ b)"
      by (rule split_once_app)
    ultimately have "y = ''//'' @ b" unfolding ab by simp
    then show False using assms(2) by simp
  qed
  then have "find_str (''localhost:'' @ y) ''://'' = None" by (rule iffD2[OF find_str_None])
  then have rest: "split_str ''://'' (''localhost:'' @ y) = [''localhost:'' @ y]"
    by (subst split_str.simps) simp
  have "split_str ''://'' (''https://localhost:'' @ y) = [''https'', ''localhost:'' @ y]"
    using rest by (subst split_str.simps) simp
  moreover have "hd (split_on (\<lambda>c. c = CHR ''/'' \<or> c = CHR '':'') (''localhost:'' @ y)) = ''localhost''"
    by simp
  ultimately show ?thesis by (simp add: is_local_url_def)
qed

text \<open>
  Servers in disguise are never watched, so never held: one whose type says SSE, whatever else
  it says, and one whose address carries the name of the local host in front of its real host, as
  user information before the \<open>@\<close>.
\<close>

theorem disguised_servers_are_not_watched:
  assumes "(\<exists>t. json_get spec ''type'' = Some (JStr t) \<and> contains t ''sse'')
           \<or> (\<exists>u host. json_get spec ''url'' = Some (JStr (''https://localhost:'' @ u @ CHR ''@'' # host))
                \<and> CHR '':'' \<notin> set (u @ host) \<and> CHR ''/'' \<notin> set u)"
  shows "watched_url (mcp_from_json name spec agent owner source scope) = None"
  using assms
proof
  assume "\<exists>t. json_get spec ''type'' = Some (JStr t) \<and> contains t ''sse''"
  then have "transport_of spec = ''sse''" by (auto simp: transport_of_def get_any_def Let_def)
  then show ?thesis by (simp add: watched_url_def split: option.split)
next
  assume "\<exists>u host. json_get spec ''url'' = Some (JStr (''https://localhost:'' @ u @ CHR ''@'' # host))
                \<and> CHR '':'' \<notin> set (u @ host) \<and> CHR ''/'' \<notin> set u"
  then obtain u host where u: "json_get spec ''url'' = Some (JStr (''https://localhost:'' @ u @ CHR ''@'' # host))"
    and clean: "CHR '':'' \<notin> set (u @ host)" "CHR ''/'' \<notin> set u" by blast
  define y where "y = strip_query (u @ CHR ''@'' # host)"
  have "strip_query (''https://localhost:'' @ x) = ''https://localhost:'' @ strip_query x" for x
    by (cases "split_on (\<lambda>c. c = CHR ''?'' \<or> c = CHR ''#'') x") (simp_all add: strip_query_def)
  then have url: "spec_url spec = Some (''https://localhost:'' @ y)"
    using u by (simp add: spec_url_def get_any_def y_def)
  obtain z where z: "u @ CHR ''@'' # host = y @ z"
    using strip_query_prefix[of "u @ CHR ''@'' # host"] by (auto simp: y_def prefix_def)
  then have "set y \<subseteq> set (u @ CHR ''@'' # host)" by (metis set_append Un_upper1)
  then have "CHR '':'' \<notin> set y" using clean(1) by auto
  moreover have "\<not> starts_with y ''/''"
    using z clean(2) by (cases u; cases y) auto
  ultimately have "is_local_url (''https://localhost:'' @ y)" by (rule localhost_is_local)
  then have "''remote'' \<notin> set (flags_of spec c)" for c
    using url by (auto simp: flags_of_def Let_def split: option.split)
  then have "''remote'' \<notin> set (ms_flags (mcp_from_json name spec agent owner source scope))"
    using mcp_fields(3) by metis
  then show ?thesis using url by (simp add: watched_url_def)
qed

section \<open>Examples\<close>

definition W_managed :: managed_server where
  "W_managed = \<lparr>mg_id = ''wiki'', mg_name = ''wiki'', mg_agent = ''claude'',
     mg_upstream = ''https://wiki.example/mcp'', mg_source = [], mg_owner = ''u'', mg_disabled = {}, mg_seen = []\<rparr>"

definition W_gateway :: gateway where
  "W_gateway = \<lparr>gw_mem = \<lparr>rg_servers = [(''wiki'', W_managed)], rg_held = []\<rparr>, gw_file = None\<rparr>"

definition W_call :: json where
  "W_call = JObj [(''id'', JNum ''7''), (''method'', JStr ''tools/call''),
     (''params'', JObj [(''name'', JStr ''erase'')])]"

definition W_proxy :: proxy_env where
  "W_proxy = \<lparr>pe_parse = (\<lambda>b. Some W_call), pe_print = (\<lambda>v. []), pe_now = 0, pe_nanos = None,
     pe_caller = (7, ''claude''), pe_send = (\<lambda>u. None), pe_write = Inr ()\<rparr>"

definition W_post :: proxy_request where
  "W_post = \<lparr>pq_method = ''POST'', pq_headers = [], pq_body = ''{}''\<rparr>"

lemma W_ordered: "registry_ordered (gw_mem W_gateway)" "gateway_ordered W_gateway"
  by (simp_all add: W_gateway_def registry_ordered_def gateway_ordered_def load_registry_def)

lemma W_tool_calls: "tool_calls W_call = [(JNum ''7'', ''erase'', JNull)]"
  by code_simp


definition W_off :: gateway where
  "W_off = W_gateway\<lparr>gw_mem := \<lparr>rg_servers = [(''wiki'', W_managed\<lparr>mg_disabled := {''erase''}\<rparr>)], rg_held = []\<rparr>\<rparr>"



definition W_list :: json where
  "W_list = JObj [(''id'', JNum ''2''), (''result'', JObj [(''tools'',
     JArr [JObj [(''name'', JStr ''erase'')], JObj [(''name'', JStr ''ask'')]])])]"

lemma W_lists: "has_list W_list" "listed_tools W_list = [JObj [(''name'', JStr ''erase'')], JObj [(''name'', JStr ''ask'')]]"
  by (simp_all add: W_list_def has_list_def filter_tool_list_def listed_tools_def)

theorem switched_off_tools_are_hidden_witness:
  "listed_tools (fst (fix_value {''erase''} W_list)) = [JObj [(''name'', JStr ''ask'')]]
   \<and> snd (fix_value {''erase''} W_list) = Some (listed_tools W_list)"
  using switched_off_tools_are_hidden[of W_list "{''erase''}"]
  by (simp add: W_lists tool_shown_def) (simp add: W_list_def)

theorem later_lists_are_not_filtered_witness:
  "fix_value {''erase''} (JArr ([W_call] @ W_list # [W_list]))
   = (JArr ([W_call] @ fst (the (filter_tool_list {''erase''} W_list)) # [W_list]), Some (listed_tools W_list))"
  by (rule later_lists_are_not_filtered)
    (simp_all add: W_lists, simp add: W_call_def has_list_def filter_tool_list_def)

definition W_row :: "string \<Rightarrow> string \<Rightarrow> mcp_server" where
  "W_row name url = mcp_from_json name (JObj [(''url'', JStr url)]) ''claude'' ''u'' ''/home/u/.claude.json'' ''user''"

definition W_url :: "string \<Rightarrow> (string option \<times> nat option) option" where
  "W_url u = (if u = ''https://new.example/mcp'' then Some (Some ''new.example'', Some 443) else None)"

definition W_resolve :: "string \<Rightarrow> ip_addr list option" where
  "W_resolve h = (if h = ''new.example:443'' then Some [V4 0x01020304] else None)"

definition W_told :: registry where
  "W_told = gw_mem (fst (watch_once (Inr ()) ''now'' (Some [W_row ''new'' ''https://new.example/mcp'']) W_gateway))"


theorem colliding_server_escapes_witness:
  "(case watch_once (Inr ()) ''now'' (Some [W_row ''New'' ''https://a.example/'', W_row ''new'' ''https://b.example/'']) W_gateway
    of (G', told, newly) \<Rightarrow>
      \<not> known_at (id_of (W_row ''New'' ''https://a.example/'')) ''https://a.example/'' (gw_mem G')
      \<and> length newly = 2)"
proof -
  let ?a = "W_row ''New'' ''https://a.example/''" and ?b = "W_row ''new'' ''https://b.example/''"
  have "id_of ?a = ''new-claude-u''" "id_of ?b = ''new-claude-u''"
    "watched_url ?a = Some ''https://a.example/''" "watched_url ?b = Some ''https://b.example/''"
    by code_simp+
  then show ?thesis
    using colliding_server_escapes[OF W_ordered(1), where ?m1.0 = ?a and ?m2.0 = ?b and before = "''then''"
        and ?u1.0 = "''https://a.example/''" and ?u2.0 = "''https://b.example/''" and wr = "Inr ()" and now = "''now''"]
    by (auto simp: W_gateway_def server_of_def held_of_def)
qed

theorem disguised_servers_are_not_watched_witness:
  "watched_url (mcp_from_json ''x'' (JObj [(''url'', JStr (''https://localhost:'' @ ''x'' @ CHR ''@'' # ''evil.example/mcp''))])
      ''claude'' ''u'' ''f'' ''user'') = None"
proof (rule disguised_servers_are_not_watched, rule disjI2, intro exI conjI)
  show "json_get (JObj [(''url'', JStr (''https://localhost:'' @ ''x'' @ CHR ''@'' # ''evil.example/mcp''))]) ''url''
     = Some (JStr (''https://localhost:'' @ ''x'' @ CHR ''@'' # ''evil.example/mcp''))"
    by (simp only: json_get.simps map_of.simps fst_conv snd_conv fun_upd_same)
qed simp_all

end
