(* ===== verification/HookGate.thy ===== *)
theory HookGate
  imports Jev Review Events PromptGuard "HOL-Library.AList"
begin

text \<open>
  The tool-call hook: the handler of POST /api/v1/hook-event in agent/src/api/routes.rs with its
  decision cache, the choice of a scorer in agent/src/checks_provider.rs, and the [checks] section of
  agent/src/config.rs. Arguments: the scorers' libraries, BLAKE3, the regex crate, the printers of
  numbers, the clock, whether the scorer answers within its budget, and the outcome of queue writes.
  The mutex of the cache is never poisoned: nothing panics while it is held.
\<close>

section \<open>The checks section\<close>

record jev_section =
  js_enabled :: bool
  js_api_key_file :: string
  js_model :: string
  js_base_url :: string
  js_timeout_ms :: nat

record checks_section =
  ck_enabled :: bool
  ck_provider :: string
  ck_jev :: jev_section
  ck_thresholds :: thresholds
  ck_workspace :: "string option"
  ck_approved_hosts :: "string list"
  ck_blocking :: bool
  ck_fail_mode :: "string option"
  ck_timeout_ms :: nat
  ck_cache_ttl_secs :: nat

definition default_jev_section :: jev_section where
  "default_jev_section =
     \<lparr>js_enabled = False, js_api_key_file = ''/etc/ringzero/typesafe.key'', js_model = ''jev-latest'',
      js_base_url = ''https://api.typesafe.ai'', js_timeout_ms = 1500\<rparr>"

definition default_checks_section :: checks_section where
  "default_checks_section =
     \<lparr>ck_enabled = False, ck_provider = ''jev'', ck_jev = default_jev_section,
      ck_thresholds = default_thresholds, ck_workspace = None, ck_approved_hosts = [],
      ck_blocking = False, ck_fail_mode = None, ck_timeout_ms = 1500, ck_cache_ttl_secs = 30\<rparr>"

text \<open>\<open>dbg\<close> is the debug printer of strings.\<close>

definition validate_blocking :: "(string \<Rightarrow> string) \<Rightarrow> checks_section \<Rightarrow> string + unit" where
  "validate_blocking dbg c =
     (if \<not> ck_blocking c then Inr ()
      else case ck_fail_mode c of
             Some m \<Rightarrow>
               if m = ''open'' \<or> m = ''closed'' then Inr ()
               else Inl (''[checks] fail_mode = '' @ dbg m @ '' is not valid; use '' @ dq @ ''open'' @ dq
                         @ '' or '' @ dq @ ''closed'' @ dq)
           | None \<Rightarrow>
               Inl (''[checks] blocking = true requires fail_mode = '' @ dq @ ''open'' @ dq @ '' or '' @ dq
                    @ ''closed'' @ dq @ ''. There is no default: with a network-backed scorer an outage ''
                    @ ''either blocks your developers (closed) or leaves that path unprotected (open), ''
                    @ ''and that is your decision to make.''))"

definition fail_closed :: "checks_section \<Rightarrow> bool" where
  "fail_closed c = (ck_fail_mode c = Some ''closed'')"

fun show_octal :: "nat \<Rightarrow> string" where
  "show_octal n = (if n < 8 then [digit_char n] else show_octal (n div 8) @ [digit_char (n mod 8)])"

declare show_octal.simps [simp del]

text \<open>\<open>meta\<close> is the mode of the key file, \<open>content\<close> its text; \<open>Inl\<close> an I/O error. The masks are the octal 077 and 777.\<close>

definition load_key :: "string + 32 word \<Rightarrow> string + string \<Rightarrow> jev_section \<Rightarrow> string + string" where
  "load_key meta content j =
     (case meta of
        Inl e \<Rightarrow> Inl (''cannot read '' @ js_api_key_file j @ '': '' @ e)
      | Inr mode \<Rightarrow>
          if and mode 0x3F \<noteq> 0 then
            Inl (js_api_key_file j @ '' is mode '' @ show_octal (unat (and mode 0x1FF))
                 @ ''; it must not be readable by group or others (chmod 600)'')
          else case content of
                 Inl e \<Rightarrow> Inl (''cannot read '' @ js_api_key_file j @ '': '' @ e)
               | Inr key \<Rightarrow> if trim key = [] then Inl (js_api_key_file j @ '' is empty'')
                            else Inr (trim key))"

section \<open>The scorer\<close>

text \<open>\<open>HostedJev E\<close>: the hosted model, reached through \<open>E\<close>.\<close>

datatype scoring_provider = DeterministicOnly | HostedJev jev_env

fun provider_name :: "scoring_provider \<Rightarrow> string" where
  "provider_name DeterministicOnly = ''deterministic''"
| "provider_name (HostedJev E) = ''jev''"

text \<open>\<open>E\<close> is the transport with the operator's redactor, \<open>key\<close> the result of \<open>load_key\<close>.\<close>

definition provider_from_config ::
  "(string \<Rightarrow> string) \<Rightarrow> jev_env \<Rightarrow> string + string \<Rightarrow> checks_section \<Rightarrow> string + scoring_provider" where
  "provider_from_config dbg E key c =
     (let name = to_ascii_lowercase (trim (ck_provider c))
      in if name = ''deterministic'' then Inr DeterministicOnly
         else if name = ''jev'' then
           (case key of
              Inl e \<Rightarrow> Inl e
            | Inr k \<Rightarrow>
                Inr (HostedJev (E\<lparr>api_key := k,
                       cfg := \<lparr>base_url = js_base_url (ck_jev c), model_name = js_model (ck_jev c),
                               timeout_ms = js_timeout_ms (ck_jev c)\<rparr>\<rparr>)))
         else Inl (''unknown checks provider '' @ dbg name @ ''; use '' @ dq @ ''jev'' @ dq @ '' or '' @ dq
                   @ ''deterministic'' @ dq))"

fun provider_score_tool_call ::
  "libs \<Rightarrow> scoring_provider \<Rightarrow> thresholds \<Rightarrow> tool_call_context
     \<Rightarrow> (check_result \<times> check_result) \<times> request list" where
  "provider_score_tool_call L DeterministicOnly t ctx =
     ((tool_call_argument_risk L t (ctx_tool ctx) (ctx_args ctx) (ctx_workspace ctx)
         (ctx_approved_hosts ctx),
       sensitive_data_exposure L t (json_text L (ctx_args ctx))), [])"
| "provider_score_tool_call L (HostedJev E) t ctx = score_tool_call L E t ctx"

fun provider_score_agent_output ::
  "libs \<Rightarrow> scoring_provider \<Rightarrow> thresholds \<Rightarrow> string \<Rightarrow> check_result \<times> request list" where
  "provider_score_agent_output L DeterministicOnly t txt = (agent_output_risk L t txt, [])"
| "provider_score_agent_output L (HostedJev E) t txt = score_agent_output L E t txt"

text \<open>The provider at start-up: none when the section is off or cannot be used.\<close>

definition start_provider ::
  "(string \<Rightarrow> string) \<Rightarrow> jev_env \<Rightarrow> string + string \<Rightarrow> checks_section \<Rightarrow> scoring_provider option" where
  "start_provider dbg E key c =
     (if ck_enabled c
      then (case provider_from_config dbg E key c of Inr p \<Rightarrow> Some p | Inl e \<Rightarrow> None)
      else None)"

section \<open>What of a call is kept\<close>

text \<open>The three bytes of an ellipsis, then the number of bytes that were cut.\<close>

definition cut_mark :: "nat \<Rightarrow> string" where
  "cut_mark n = [CHR 0xE2, CHR 0x80, CHR 0xA6] @ ''[truncated '' @ show_nat n @ '' bytes]''"

function truncate_json :: "nat \<Rightarrow> json \<Rightarrow> json" where
  "truncate_json m (JStr s) =
     (if m < length s
      then let cut = cut_back s m in JStr (take cut s @ cut_mark (length s - cut))
      else JStr s)"
| "truncate_json m (JArr xs) = JArr (map (truncate_json m) (take 256 xs))"
| "truncate_json m (JObj kvs) = JObj (map (\<lambda>(k, x). (k, truncate_json m x)) (take 256 kvs))"
| "truncate_json m JNull = JNull"
| "truncate_json m (JBool b) = JBool b"
| "truncate_json m (JNum n) = JNum n"
  by pat_completeness auto
termination
proof (relation "measure (size \<circ> snd)")
  fix m xs and x :: json
  assume "x \<in> set (take 256 xs)"
  then have "x \<in> set xs" by (rule in_set_takeD)
  then show "((m, x), m, JArr xs) \<in> measure (size \<circ> snd)"
    by (simp add: size_list_estimation' le_imp_less_Suc)
next
  fix m kvs and kv :: "string \<times> json" and k x
  assume "kv \<in> set (take 256 kvs)" and kv: "(k, x) = kv"
  then have "kv \<in> set kvs" by (meson in_set_takeD)
  then have "size x \<le> size_list (size_prod (\<lambda>_. 0) size) kvs"
    using kv by (intro size_list_estimation'[of kv]) auto
  then show "((m, x), m, JObj kvs) \<in> measure (size \<circ> snd)" by simp
qed simp

definition any_contains :: "string \<Rightarrow> string list \<Rightarrow> bool" where
  "any_contains t ws = list_ex (contains t) ws"

definition classify_tool_action :: "string \<Rightarrow> string" where
  "classify_tool_action tool =
     (let t = to_ascii_lowercase tool
      in if t \<in> {''read'', ''read_file'', ''view'', ''cat'', ''notebookread''} then ''file_read''
         else if t \<in> {''write'', ''write_file'', ''create_file'', ''notebookedit''} then ''file_write''
         else if t \<in> {''edit'', ''multiedit'', ''apply_patch'', ''str_replace_editor'', ''replace''}
           then ''file_edit''
         else if t \<in> {''bash'', ''shell'', ''exec_command'', ''run_command'', ''terminal'', ''execute'',
                     ''run''} then ''process_exec''
         else if t \<in> {''glob'', ''grep'', ''ls'', ''search'', ''find'', ''list_directory''} then ''file_search''
         else if t \<in> {''webfetch'', ''websearch'', ''fetch'', ''http'', ''browser''} then ''network''
         else if t \<in> {''task'', ''agent'', ''subagent''} then ''delegate''
         else if any_contains t [''write'', ''create''] then ''file_write''
         else if any_contains t [''edit'', ''patch''] then ''file_edit''
         else if any_contains t [''read'', ''view''] then ''file_read''
         else if any_contains t [''exec'', ''shell'', ''command''] then ''process_exec''
         else if any_contains t [''web'', ''http'', ''fetch''] then ''network''
         else ''other'')"

section \<open>The decision cache\<close>

record cached_decision =
  cd_deny :: bool
  cd_rule :: "string option"
  cd_at :: instant

type_synonym decision_cache = "(string \<times> cached_decision) list"

text \<open>\<open>hash\<close> is the hexadecimal BLAKE3 digest. \<open>ttl\<close> is in nanoseconds.\<close>

definition decision_cache_key :: "libs \<Rightarrow> (string \<Rightarrow> string) \<Rightarrow> string \<Rightarrow> json \<Rightarrow> string" where
  "decision_cache_key L hash tool args = take 32 (hash (tool @ [CHR 0x00] @ json_text L args))"

definition decision_cache_get ::
  "instant \<Rightarrow> nat \<Rightarrow> string \<Rightarrow> decision_cache \<Rightarrow> (bool \<times> string option) option \<times> decision_cache" where
  "decision_cache_get now ttl key c =
     (case map_of c key of
        Some e \<Rightarrow> if now - cd_at e < ttl then (Some (cd_deny e, cd_rule e), c)
                  else (None, AList.delete key c)
      | None \<Rightarrow> (None, c))"

definition decision_cache_put ::
  "instant \<Rightarrow> string \<Rightarrow> bool \<Rightarrow> string option \<Rightarrow> decision_cache \<Rightarrow> decision_cache" where
  "decision_cache_put now key deny rule c =
     AList.update key \<lparr>cd_deny = deny, cd_rule = rule, cd_at = now\<rparr>
       (if 4096 < length c then [] else c)"

section \<open>Judging a call\<close>

record hook_env =
  he_libs :: libs
  he_hash :: "string \<Rightarrow> string"
  he_captures :: captures
  he_number :: "f32 \<Rightarrow> json"
  he_two_places :: "f32 \<Rightarrow> string"

text \<open>
  What happens to the scorer's task: it answers in time, dies, or the budget runs out. The rest of a
  moment is what the handler reads from the clock, how long the scorer took, the mode of the prompt
  guard in the configuration file, and, for the n-th write to the review queue, whether it succeeds,
  its time and its fresh identifier.
\<close>

datatype scorer_outcome = ScorerAnswered | ScorerCrashed | ScorerTimedOut

record hook_moment =
  hm_get_at :: instant
  hm_put_at :: instant
  hm_outcome :: scorer_outcome
  hm_latency :: nat
  hm_guard :: guard_mode
  hm_nanos :: "int option"
  hm_now :: timestamp
  hm_response_now :: timestamp
  hm_review :: "nat \<Rightarrow> bool \<times> int \<times> string"

record decision =
  dn_deny :: bool
  dn_rule :: "string option"
  dn_provider :: string
  dn_latency :: nat
  dn_from_cache :: bool
  dn_fail_mode :: "string option"

definition no_decision :: decision where
  "no_decision = \<lparr>dn_deny = False, dn_rule = None, dn_provider = ''deterministic'', dn_latency = 0,
                  dn_from_cache = False, dn_fail_mode = None\<rparr>"

definition cached_or_new ::
  "checks_section \<Rightarrow> instant \<Rightarrow> string \<Rightarrow> decision_cache \<Rightarrow> decision \<times> decision_cache" where
  "cached_or_new C now key c =
     (if ck_blocking C then
        (case decision_cache_get now (from_secs (max (ck_cache_ttl_secs C) 1)) key c of
           (Some (deny, rule), c') \<Rightarrow>
             (no_decision\<lparr>dn_deny := deny, dn_rule := rule, dn_from_cache := True\<rparr>, c')
         | (None, c') \<Rightarrow> (no_decision, c'))
      else (no_decision, c))"

definition fail_mode_decides :: "checks_section \<Rightarrow> string \<Rightarrow> decision \<Rightarrow> decision" where
  "fail_mode_decides C rule d =
     d\<lparr>dn_fail_mode := Some (if fail_closed C then ''closed'' else ''open''),
       dn_deny := fail_closed C, dn_rule := Some rule\<rparr>"

definition answer_decides ::
  "checks_section \<Rightarrow> check_result \<Rightarrow> check_result \<Rightarrow> decision \<Rightarrow> decision" where
  "answer_decides C risk exposure d0 =
     (let d = d0\<lparr>dn_provider := (if cr_provider risk = ''jev'' \<or> cr_provider exposure = ''jev''
                                  then ''jev'' else ''deterministic'')\<rparr>
      in if cr_provider_error risk \<noteq> None \<or> cr_provider_error exposure \<noteq> None then
           fail_mode_decides C
             (case cr_provider_error risk of
                Some e \<Rightarrow> e
              | None \<Rightarrow> (case cr_provider_error exposure of Some e \<Rightarrow> e | None \<Rightarrow> ''scorer_unavailable'')) d
         else if is_flag risk then d\<lparr>dn_deny := True, dn_rule := Some (cr_option risk)\<rparr>
         else if is_flag exposure then d\<lparr>dn_deny := True, dn_rule := Some (cr_option exposure)\<rparr>
         else d)"

definition local_risk_of :: "hook_env \<Rightarrow> checks_section \<Rightarrow> string \<Rightarrow> json \<Rightarrow> check_result" where
  "local_risk_of H C tool input =
     tool_call_argument_risk (he_libs H) (ck_thresholds C) tool input (ck_workspace C)
       (ck_approved_hosts C)"

definition local_exposure_of :: "hook_env \<Rightarrow> checks_section \<Rightarrow> json \<Rightarrow> check_result" where
  "local_exposure_of H C input =
     sensitive_data_exposure (he_libs H) (ck_thresholds C) (json_text (he_libs H) input)"

definition call_context ::
  "hook_env \<Rightarrow> checks_section \<Rightarrow> string option \<Rightarrow> string \<Rightarrow> json \<Rightarrow> tool_call_context" where
  "call_context H C prompt tool input =
     \<lparr>ctx_tool = tool, ctx_args = input, ctx_workspace = ck_workspace C,
      ctx_approved_hosts = ck_approved_hosts C,
      ctx_task_hash = map_option (\<lambda>p. take 16 (he_hash H p)) prompt\<rparr>"

text \<open>The bounded call of the scorer; the requests are those it sends if it gets that far.\<close>

definition consult_scorer ::
  "hook_env \<Rightarrow> checks_section \<Rightarrow> scoring_provider \<Rightarrow> hook_moment \<Rightarrow> string option \<Rightarrow> string \<Rightarrow> json
     \<Rightarrow> decision \<Rightarrow> decision \<times> check_result list \<times> request list" where
  "consult_scorer H C P M prompt tool input d0 =
     (let ((risk, exposure), sent) = provider_score_tool_call (he_libs H) P (ck_thresholds C)
                                       (call_context H C prompt tool input);
          d = d0\<lparr>dn_latency := hm_latency M\<rparr>;
          floor = [local_risk_of H C tool input, local_exposure_of H C input]
      in case hm_outcome M of
           ScorerAnswered \<Rightarrow> (answer_decides C risk exposure d, [risk, exposure], sent)
         | ScorerCrashed \<Rightarrow> (fail_mode_decides C ''scorer_unavailable'' d, floor, sent)
         | ScorerTimedOut \<Rightarrow> (fail_mode_decides C ''scorer_timeout'' d, floor, sent))"

definition hard_local_deny :: "check_result \<Rightarrow> check_result \<Rightarrow> bool" where
  "hard_local_deny risk exposure =
     (cr_option risk = ''reads_sensitive_path'' \<or> cr_option exposure = ''secret_pattern_matched'')"

definition apply_hard_deny :: "check_result \<Rightarrow> check_result \<Rightarrow> decision \<Rightarrow> decision" where
  "apply_hard_deny risk exposure d =
     (if hard_local_deny risk exposure
      then d\<lparr>dn_deny := True,
             dn_rule := (case dn_rule d of
                Some r \<Rightarrow> Some r
              | None \<Rightarrow> Some (if cr_option risk = ''reads_sensitive_path'' then cr_option risk
                              else cr_option exposure))\<rparr>
      else d)"

definition judge_call ::
  "hook_env \<Rightarrow> checks_section \<Rightarrow> scoring_provider \<Rightarrow> hook_moment \<Rightarrow> string option \<Rightarrow> string \<Rightarrow> json
     \<Rightarrow> decision_cache \<Rightarrow> decision \<times> check_result list \<times> request list \<times> decision_cache" where
  "judge_call H C P M prompt tool input c =
     (let key = decision_cache_key (he_libs H) (he_hash H) tool input;
          (d0, c1) = cached_or_new C (hm_get_at M) key c;
          risk = local_risk_of H C tool input;
          exposure = local_exposure_of H C input;
          (d1, results, sent) =
            (if ck_blocking C \<and> \<not> dn_from_cache d0 \<and> (is_flag risk \<or> is_flag exposure)
             then consult_scorer H C P M prompt tool input d0
             else if \<not> dn_from_cache d0 then (d0, [risk, exposure], [])
             else (d0, [], []));
          fresh = (ck_blocking C \<and> \<not> dn_from_cache d0);
          d2 = (if fresh then apply_hard_deny risk exposure d1 else d1);
          c2 = (if fresh then decision_cache_put (hm_put_at M) key (dn_deny d2) (dn_rule d2) c1 else c1)
      in (d2, results, sent, c2))"

section \<open>The review queue\<close>

definition check_json :: "hook_env \<Rightarrow> check_result \<Rightarrow> json" where
  "check_json H r =
     JObj ([(''check'', JStr (cr_check r)), (''option'', JStr (cr_option r)),
            (''probability'', he_number H (cr_probability r))]
           @ (case cr_confidence r of Some q \<Rightarrow> [(''confidence'', he_number H q)] | None \<Rightarrow> [])
           @ [(''evidence'', JArr (map JStr (cr_evidence r))), (''provider'', JStr (cr_provider r))]
           @ (case cr_provider_error r of Some e \<Rightarrow> [(''provider_error'', JStr e)] | None \<Rightarrow> []))"

definition opt_str :: "string option \<Rightarrow> json" where
  "opt_str x = (case x of Some s \<Rightarrow> JStr s | None \<Rightarrow> JNull)"

definition verdict_word :: "bool \<Rightarrow> string" where
  "verdict_word deny = (if deny then ''deny'' else ''allow'')"

definition check_summary :: "hook_env \<Rightarrow> check_result \<Rightarrow> string" where
  "check_summary H r =
     ''check '' @ cr_check r @ '' scored '' @ cr_option r @ '' (p='' @ he_two_places H (cr_probability r)
       @ '', confidence='' @ (case cr_confidence r of Some q \<Rightarrow> he_two_places H q | None \<Rightarrow> ''n/a'') @ '')''"

record hook_frame =
  hf_event :: string
  hf_session :: string
  hf_agent :: string
  hf_prompt :: "string option"
  hf_tool :: "string option"
  hf_cwd :: "string option"
  hf_transcript :: "string option"
  hf_input :: "json option"
  hf_response :: "json option"
  hf_last_message :: "string option"
  hf_model :: "string option"

definition queue_flags ::
  "hook_env \<Rightarrow> hook_moment \<Rightarrow> hook_frame \<Rightarrow> decision \<Rightarrow> check_result list \<Rightarrow> review_tree \<Rightarrow> review_tree" where
  "queue_flags H M F d results q =
     foldl (\<lambda>q' (n, r).
        let (ok, pushed, uid) = hm_review M n
        in snd (review_push ok pushed uid CheckFlag (hf_session F) (check_summary H r)
             (JObj [(''check'', check_json H r), (''tool'', opt_str (hf_tool F)),
                    (''agent_type'', JStr (hf_agent F)), (''hook_event'', JStr (hf_event F)),
                    (''decision'', JStr (verdict_word (dn_deny d)))]) q'))
       q (enumerate 0 (filter is_flag results))"

section \<open>Reading the payload\<close>

definition str_at :: "json \<Rightarrow> string \<Rightarrow> string option" where
  "str_at v k = Option.bind (json_get v k) as_str"

text \<open>The value of the first key if it is there, whatever it is, else of the second.\<close>

definition first_of :: "json \<Rightarrow> string \<Rightarrow> string \<Rightarrow> json option" where
  "first_of v a b = (case json_get v a of Some x \<Rightarrow> Some x | None \<Rightarrow> json_get v b)"

definition or_default :: "string \<Rightarrow> string option \<Rightarrow> string" where
  "or_default d x = (case x of Some s \<Rightarrow> s | None \<Rightarrow> d)"

definition inferred_agent :: "json \<Rightarrow> string" where
  "inferred_agent v =
     (let path = str_at v ''transcript_path'';
          inside = (\<lambda>d. case path of Some p \<Rightarrow> contains p d | None \<Rightarrow> False)
      in if inside ''/.claude/'' then ''claude''
         else if inside ''/.codex/'' then ''codex''
         else if inside ''/.gemini/'' then ''gemini''
         else if json_get v ''hook_event_name'' \<noteq> None then ''claude''
         else ''unknown'')"

definition MAX_FIELD :: nat where
  "MAX_FIELD = 16 * 1024"

definition frame_of :: "json \<Rightarrow> hook_frame" where
  "frame_of v =
     \<lparr>hf_event = or_default ''unknown'' (Option.bind (first_of v ''hook_event_name'' ''type'') as_str),
      hf_session = or_default [] (str_at v ''session_id''),
      hf_agent = or_default (inferred_agent v) (str_at v ''agent_type''),
      hf_prompt = Option.bind (first_of v ''prompt'' ''last_assistant_message'') as_str,
      hf_tool = str_at v ''tool_name'',
      hf_cwd = str_at v ''cwd'',
      hf_transcript = str_at v ''transcript_path'',
      hf_input = map_option (truncate_json MAX_FIELD) (json_get v ''tool_input''),
      hf_response = map_option (truncate_json MAX_FIELD) (json_get v ''tool_response''),
      hf_last_message = str_at v ''last_assistant_message'',
      hf_model = str_at v ''model''\<rparr>"

definition PROMPT_EVENTS :: "string list" where
  "PROMPT_EVENTS = [''UserPromptSubmit'', ''UserInput'', ''user_input'']"

definition REPLY_EVENTS :: "string list" where
  "REPLY_EVENTS = [''MessageReceived'', ''assistant_message'', ''response.completed'']"

definition TOOL_EVENTS :: "string list" where
  "TOOL_EVENTS = [''ToolCall'', ''tool_call'', ''PreToolUse'', ''PostToolUse'']"

definition STOP_EVENTS :: "string list" where
  "STOP_EVENTS = [''Stop'', ''stop'']"

text \<open>The guard's answer on a prompt: nothing for other events; the outer \<open>None\<close> is a panic.\<close>

definition guard_prompt ::
  "hook_env \<Rightarrow> hook_moment \<Rightarrow> hook_frame \<Rightarrow> prompt_verdict option option" where
  "guard_prompt H M F =
     (if hf_event F \<in> set PROMPT_EVENTS
      then (case hf_prompt F of
              Some p \<Rightarrow> map_option Some (check_prompt (he_captures H) p (hm_guard M))
            | None \<Rightarrow> Some None)
      else Some None)"

section \<open>What is recorded\<close>

definition decision_json :: "decision \<Rightarrow> json" where
  "decision_json d =
     JObj ([(''decision'', JStr (verdict_word (dn_deny d))), (''provider'', JStr (dn_provider d)),
            (''latency_ms'', JNum (show_nat (dn_latency d))), (''blocked'', JBool (dn_deny d)),
            (''from_cache'', JBool (dn_from_cache d))]
           @ (case dn_rule d of Some r \<Rightarrow> [(''rule'', JStr r)] | None \<Rightarrow> [])
           @ (case dn_fail_mode d of Some m \<Rightarrow> [(''fail_mode_applied'', JStr m)] | None \<Rightarrow> []))"

definition field :: "string \<Rightarrow> json option \<Rightarrow> (string \<times> json) list" where
  "field k v = (case v of Some x \<Rightarrow> [(k, x)] | None \<Rightarrow> [])"

definition hook_extra ::
  "hook_env \<Rightarrow> checks_section \<Rightarrow> hook_frame \<Rightarrow> decision \<Rightarrow> check_result list \<Rightarrow> string
     \<Rightarrow> (string \<times> json) list" where
  "hook_extra H C F d results phase =
     [(''hook'', JStr (hf_event F)), (''phase'', JStr phase)]
     @ field ''cwd'' (map_option JStr (hf_cwd F))
     @ field ''transcript_path'' (map_option JStr (hf_transcript F))
     @ (if hf_session F \<noteq> [] then [(''agent_session_id'', JStr (hf_session F))] else [])
     @ field ''action'' (map_option (\<lambda>t. JStr (classify_tool_action t)) (hf_tool F))
     @ field ''tool_input'' (hf_input F)
     @ field ''tool_response'' (hf_response F)
     @ (if results \<noteq> [] then [(''checks'', JArr (map (check_json H) results))] else [])
     @ (if ck_blocking C then [(''hook_decision'', decision_json d)] else [])"

definition hook_security_event ::
  "hook_moment \<Rightarrow> hook_frame \<Rightarrow> string \<Rightarrow> event_kind \<Rightarrow> string \<Rightarrow> bool \<Rightarrow> string option
     \<Rightarrow> string option \<Rightarrow> string option \<Rightarrow> string option \<Rightarrow> (string \<times> json) list \<Rightarrow> security_event" where
  "hook_security_event M F label kind target allowed reason model text tool extra =
     \<lparr>ev_id = label @ hf_session F @ ''-'' @ show_int (case hm_nanos M of Some n \<Rightarrow> n | None \<Rightarrow> 0),
      ev_kind = kind, ev_pid = 0, ev_uid = 0, ev_process = hf_agent F, ev_target = target,
      ev_allowed = allowed, ev_reason = reason, ev_timestamp = hm_now M, ev_ppid = None,
      ev_parent_process = None,
      ev_llm_context = Some \<lparr>lc_provider = hf_agent F, lc_model = model, lc_response_text = text,
                            lc_tool_call = tool, lc_usage = None, lc_response_ts = hm_response_now M\<rparr>,
      ev_extra = Some (JObj extra)\<rparr>"

fun secret_kind_name :: "secret_kind \<Rightarrow> string" where
  "secret_kind_name AwsAccessKey = ''aws_access_key''"
| "secret_kind_name AwsSecretKey = ''aws_secret_key''"
| "secret_kind_name GitHubToken = ''git_hub_token''"
| "secret_kind_name OpenAiKey = ''open_ai_key''"
| "secret_kind_name AnthropicKey = ''anthropic_key''"
| "secret_kind_name GcpServiceAccount = ''gcp_service_account''"
| "secret_kind_name SlackToken = ''slack_token''"
| "secret_kind_name PrivateKey = ''private_key''"
| "secret_kind_name GenericApiKey = ''generic_api_key''"
| "secret_kind_name GenericSecret = ''generic_secret''"
| "secret_kind_name Password = ''password''"

definition guard_json :: "prompt_verdict \<Rightarrow> (string \<times> json) list" where
  "guard_json v =
     [(''prompt_guard'', JObj
        [(''blocked'', JBool (pv_block v)),
         (''findings'', JArr (map (\<lambda>f. JObj
            [(''kind'', JStr (secret_kind_name (pf_kind f))), (''label'', JStr (pf_label f)),
             (''masked'', JStr (pf_masked f))]) (pv_findings v)))])]"

definition prompt_event ::
  "hook_moment \<Rightarrow> hook_frame \<Rightarrow> prompt_verdict option \<Rightarrow> string \<Rightarrow> (string \<times> json) list \<Rightarrow> security_event" where
  "prompt_event M F gv raw extra =
     (let text = (case gv of Some v \<Rightarrow> pv_redacted v | None \<Rightarrow> raw);
          (allowed, reason) = (case gv of
             Some v \<Rightarrow> if pv_findings v \<noteq> [] then (\<not> pv_block v, verdict_reason v) else (True, None)
           | None \<Rightarrow> (True, None));
          guard = (case gv of
             Some v \<Rightarrow> if pv_findings v \<noteq> [] then guard_json v else [] | None \<Rightarrow> [])
      in hook_security_event M F ''hook-'' LlmRequest
           (hf_agent F @ (if allowed \<and> reason = None then '':hook'' else '':prompt-secret''))
           allowed reason None (Some text) None (extra @ guard))"

definition recorded_events ::
  "hook_env \<Rightarrow> checks_section \<Rightarrow> hook_moment \<Rightarrow> hook_frame \<Rightarrow> prompt_verdict option \<Rightarrow> decision
     \<Rightarrow> check_result list \<Rightarrow> security_event list" where
  "recorded_events H C M F gv d results =
     (let extra = hook_extra H C F d results; e = hf_event F; chat = hf_agent F @ '':hook''
      in if e \<in> set PROMPT_EVENTS then
           (case hf_prompt F of
              Some p \<Rightarrow> [prompt_event M F gv p (extra ''prompt'')] | None \<Rightarrow> [])
         else if e \<in> set REPLY_EVENTS then
           (case hf_prompt F of
              Some p \<Rightarrow> [hook_security_event M F ''hook-resp-'' LlmResponse chat True None None (Some p)
                          None (extra ''response'')]
            | None \<Rightarrow> [])
         else if e \<in> set TOOL_EVENTS then
           (case hf_tool F of
              Some t \<Rightarrow> [hook_security_event M F ''hook-tool-'' LlmToolCall t True None None None
                          (Some t) (extra (if e = ''PostToolUse'' then ''post'' else ''pre''))]
            | None \<Rightarrow> [])
         else if e \<in> set STOP_EVENTS then
           (case hf_last_message F of
              Some m \<Rightarrow> [hook_security_event M F ''hook-stop-'' LlmResponse chat True None (hf_model F)
                          (Some m) None (extra ''response'')]
            | None \<Rightarrow> [])
         else [])"

section \<open>The handler\<close>

record hook_answer =
  ha_deny :: bool
  ha_rule :: "string option"
  ha_reason :: "string option"
  ha_provider :: string
  ha_latency :: nat
  ha_fail_mode :: "string option"

definition answer_of :: "prompt_verdict option \<Rightarrow> decision \<Rightarrow> hook_answer" where
  "answer_of gv d =
     (let blocked = (case gv of Some v \<Rightarrow> if pv_block v then Some v else None | None \<Rightarrow> None);
          deny = (dn_deny d \<or> blocked \<noteq> None);
          rule = (if blocked \<noteq> None then Some ''secret in prompt'' else dn_rule d)
      in \<lparr>ha_deny = deny, ha_rule = rule,
          ha_reason =
            (case blocked of
               Some v \<Rightarrow> verdict_reason v
             | None \<Rightarrow>
                 if deny
                 then map_option (\<lambda>r. ''Ring Zero policy: '' @ r
                        @ ''. This tool call is out of policy for this agent.'') rule
                 else None),
          ha_provider = dn_provider d, ha_latency = dn_latency d, ha_fail_mode = dn_fail_mode d\<rparr>)"

record hook_state =
  hs_cache :: decision_cache
  hs_queue :: review_tree

record hook_outcome =
  ho_answer :: hook_answer
  ho_events :: "security_event list"
  ho_sent :: "request list"

definition judge_frame ::
  "hook_env \<Rightarrow> checks_section \<Rightarrow> scoring_provider option \<Rightarrow> hook_moment \<Rightarrow> hook_frame \<Rightarrow> hook_state
     \<Rightarrow> decision \<times> check_result list \<times> request list \<times> hook_state" where
  "judge_frame H C P M F S =
     (case (P, hf_tool F, hf_input F) of
        (Some p, Some tool, Some input) \<Rightarrow>
          (let (d, results, sent, c) = judge_call H C p M (hf_prompt F) tool input (hs_cache S)
           in (d, results, sent,
               \<lparr>hs_cache = c, hs_queue = queue_flags H M F d results (hs_queue S)\<rparr>))
      | _ \<Rightarrow> (no_decision, [], [], S))"

definition receive_hook_event ::
  "hook_env \<Rightarrow> checks_section \<Rightarrow> scoring_provider option \<Rightarrow> hook_moment \<Rightarrow> json \<Rightarrow> hook_state
     \<Rightarrow> (hook_outcome \<times> hook_state) option" where
  "receive_hook_event H C P M payload S =
     (let F = frame_of payload
      in map_option
           (\<lambda>gv.
              let (d, results, sent, S') = judge_frame H C P M F S
              in (\<lparr>ho_answer = answer_of gv d,
                   ho_events = recorded_events H C M F gv d results, ho_sent = sent\<rparr>, S'))
           (guard_prompt H M F))"

section \<open>The scorer is above the floor\<close>

lemma provider_keeps_flags:
  assumes "provider_score_tool_call L P t ctx = ((risk, exposure), sent)"
  shows "is_flag (tool_call_argument_risk L t (ctx_tool ctx) (ctx_args ctx) (ctx_workspace ctx)
            (ctx_approved_hosts ctx)) \<Longrightarrow> is_flag risk"
    and "is_flag (sensitive_data_exposure L t (json_text L (ctx_args ctx))) \<Longrightarrow> is_flag exposure"
proof -
  let ?risk0 = "tool_call_argument_risk L t (ctx_tool ctx) (ctx_args ctx) (ctx_workspace ctx)
            (ctx_approved_hosts ctx)"
    and ?exposure0 = "sensitive_data_exposure L t (json_text L (ctx_args ctx))"
  have floor: "wf_result ToolCallArgumentRisk risk \<and> wf_result SensitiveDataExposure exposure
       \<and> severity_rank ToolCallArgumentRisk (cr_option ?risk0)
           \<le> severity_rank ToolCallArgumentRisk (cr_option risk)
       \<and> severity_rank SensitiveDataExposure (cr_option ?exposure0)
           \<le> severity_rank SensitiveDataExposure (cr_option exposure)"
  proof (cases P)
    case DeterministicOnly
    then show ?thesis using assms by (auto simp: scorers_wf)
  next
    case (HostedJev E)
    then show ?thesis
      using assms tool_floor.step_inv tool_floor.step_mono exposure_floor.step_inv exposure_floor.step_mono
      by (cases "ask E ctx"; cases "fst (ask E ctx)")
        (auto simp: score_tool_call_def Let_def scorers_wf intro!: with_error_wf)
  qed
  show "is_flag ?risk0 \<Longrightarrow> is_flag risk"
    using floor is_flag_iff_rank[OF tool_risk_wf] is_flag_iff_rank[of ToolCallArgumentRisk risk]
    by (metis order_less_le_trans)
  show "is_flag ?exposure0 \<Longrightarrow> is_flag exposure"
    using floor is_flag_iff_rank[OF exposure_wf] is_flag_iff_rank[of SensitiveDataExposure exposure]
    by (metis order_less_le_trans)
qed

lemma provider_sends_at_most_one: "length (snd (provider_score_tool_call L P t ctx)) \<le> 1"
proof (cases P)
  case (HostedJev E)
  have "snd (score_tool_call L E t ctx) = snd (exchange E (tool_state ctx) tool_questions)"
    by (simp add: score_tool_call_def ask_def Let_def split: prod.split)
  then show ?thesis using exchange_at_most_one HostedJev by simp
qed simp

lemma hard_local_deny_flags: "hard_local_deny risk exposure \<Longrightarrow> is_flag risk \<or> is_flag exposure"
  by (auto simp: hard_local_deny_def is_flag_def)

section \<open>One judgement\<close>

text \<open>The scorer answers in time, and neither of its two results is a fallback.\<close>

definition scorer_answers ::
  "hook_env \<Rightarrow> checks_section \<Rightarrow> scoring_provider \<Rightarrow> hook_moment \<Rightarrow> string option \<Rightarrow> string \<Rightarrow> json \<Rightarrow> bool" where
  "scorer_answers H C P M prompt tool input =
     (let ((risk, exposure), sent) = provider_score_tool_call (he_libs H) P (ck_thresholds C)
                                       (call_context H C prompt tool input)
      in hm_outcome M = ScorerAnswered \<and> cr_provider_error risk = None
         \<and> cr_provider_error exposure = None)"

lemma fail_mode_simps [simp]:
  "dn_deny (fail_mode_decides C rule d) = fail_closed C"
  "dn_from_cache (fail_mode_decides C rule d) = dn_from_cache d"
  "dn_rule (fail_mode_decides C rule d) = Some rule"
  by (simp_all add: fail_mode_decides_def)

lemma apply_hard_simps [simp]:
  "dn_deny (apply_hard_deny r e d) \<longleftrightarrow> dn_deny d \<or> hard_local_deny r e"
  "dn_from_cache (apply_hard_deny r e d) = dn_from_cache d"
  by (simp_all add: apply_hard_deny_def)

lemma answer_from_cache [simp]: "dn_from_cache (answer_decides C r e d) = dn_from_cache d"
  by (simp add: answer_decides_def Let_def)

lemma no_decision_simps [simp]:
  "\<not> dn_deny no_decision" "\<not> dn_from_cache no_decision" "dn_rule no_decision = None"
  "dn_fail_mode no_decision = None" "dn_provider no_decision = ''deterministic''"
  by (simp_all add: no_decision_def)

lemma cached_or_new_not_cached:
  "\<not> dn_from_cache (fst (cached_or_new C now key c)) \<Longrightarrow> fst (cached_or_new C now key c) = no_decision"
  by (auto simp: cached_or_new_def split: prod.splits option.splits)

lemma consult_decides:
  assumes "is_flag (local_risk_of H C tool input) \<or> is_flag (local_exposure_of H C input)"
    and "\<not> dn_deny d0"
  shows "dn_deny (fst (consult_scorer H C P M prompt tool input d0))
           \<longleftrightarrow> scorer_answers H C P M prompt tool input \<or> fail_closed C"
    and "dn_from_cache (fst (consult_scorer H C P M prompt tool input d0)) = dn_from_cache d0"
    and "snd (snd (consult_scorer H C P M prompt tool input d0))
           = snd (provider_score_tool_call (he_libs H) P (ck_thresholds C) (call_context H C prompt tool input))"
proof -
  obtain risk exposure sent where p: "provider_score_tool_call (he_libs H) P (ck_thresholds C)
      (call_context H C prompt tool input) = ((risk, exposure), sent)"
    by (metis prod.exhaust)
  have "is_flag risk \<or> is_flag exposure"
    using provider_keeps_flags[OF p] assms(1)
    by (auto simp: call_context_def local_risk_of_def local_exposure_of_def)
  then show "dn_deny (fst (consult_scorer H C P M prompt tool input d0))
           \<longleftrightarrow> scorer_answers H C P M prompt tool input \<or> fail_closed C"
    and "dn_from_cache (fst (consult_scorer H C P M prompt tool input d0)) = dn_from_cache d0"
    and "snd (snd (consult_scorer H C P M prompt tool input d0))
           = snd (provider_score_tool_call (he_libs H) P (ck_thresholds C) (call_context H C prompt tool input))"
    using p by (auto simp: consult_scorer_def scorer_answers_def answer_decides_def Let_def
        split: scorer_outcome.split)
qed

lemma judge_fresh:
  assumes "judge_call H C P M prompt tool input c = (d, results, sent, c')"
    and "\<not> dn_from_cache d"
  obtains c1 where "cached_or_new C (hm_get_at M)
      (decision_cache_key (he_libs H) (he_hash H) tool input) c = (no_decision, c1)"
  using assms consult_decides(2)[of H C tool input _ P M prompt]
    cached_or_new_not_cached[of C "hm_get_at M" "decision_cache_key (he_libs H) (he_hash H) tool input" c]
  by (auto simp: judge_call_def Let_def split: prod.splits if_splits)

lemma judge_new:
  assumes "judge_call H C P M prompt tool input c = (d, results, sent, c')"
    and "cached_or_new C (hm_get_at M) (decision_cache_key (he_libs H) (he_hash H) tool input) c
           = (no_decision, c1)"
  obtains d1 where
    "(if ck_blocking C \<and> (is_flag (local_risk_of H C tool input) \<or> is_flag (local_exposure_of H C input))
      then consult_scorer H C P M prompt tool input no_decision
      else (no_decision, [local_risk_of H C tool input, local_exposure_of H C input], []))
       = (d1, results, sent)"
    "d = (if ck_blocking C
          then apply_hard_deny (local_risk_of H C tool input) (local_exposure_of H C input) d1 else d1)"
    "c' = (if ck_blocking C
           then decision_cache_put (hm_put_at M) (decision_cache_key (he_libs H) (he_hash H) tool input)
                  (dn_deny d) (dn_rule d) c1
           else c1)"
proof (cases "ck_blocking C \<and> (is_flag (local_risk_of H C tool input) \<or> is_flag (local_exposure_of H C input))")
  case True
  obtain d1 r s where "consult_scorer H C P M prompt tool input no_decision = (d1, r, s)"
    by (metis prod.exhaust)
  then show ?thesis using assms True that[of d1] by (auto simp: judge_call_def Let_def)
next
  case False
  then show ?thesis using assms that[of no_decision] by (auto simp: judge_call_def Let_def)
qed

text \<open>
  C16. A call that is not answered from the cache is denied exactly when blocking is on, one of the two
  local scorers flags it, and either the scorer answers, whatever it says, or the operator chose to
  fail closed, or the call is a hard deny. The scorer is asked only about such a flagged call and only
  when blocking is on, and sends at most one request.
\<close>

theorem flagged_calls_pass_only_by_fail_mode:
  assumes "judge_call H C P M prompt tool input c = (d, results, sent, c')"
    and "\<not> dn_from_cache d"
  shows "(dn_deny d \<longleftrightarrow> ck_blocking C
            \<and> (is_flag (local_risk_of H C tool input) \<or> is_flag (local_exposure_of H C input))
            \<and> (scorer_answers H C P M prompt tool input \<or> fail_closed C
               \<or> hard_local_deny (local_risk_of H C tool input) (local_exposure_of H C input)))
    \<and> length sent \<le> 1
    \<and> (sent \<noteq> [] \<longrightarrow> ck_blocking C
         \<and> (is_flag (local_risk_of H C tool input) \<or> is_flag (local_exposure_of H C input)))"
proof -
  let ?risk = "local_risk_of H C tool input" and ?exposure = "local_exposure_of H C input"
  obtain c1 where c1: "cached_or_new C (hm_get_at M)
      (decision_cache_key (he_libs H) (he_hash H) tool input) c = (no_decision, c1)"
    using assms by (rule judge_fresh)
  show ?thesis
  proof (cases "ck_blocking C \<and> (is_flag ?risk \<or> is_flag ?exposure)")
    case True
    obtain d1 res sent1 where r: "consult_scorer H C P M prompt tool input no_decision = (d1, res, sent1)"
      by (cases "consult_scorer H C P M prompt tool input no_decision") auto
    then have "d = apply_hard_deny ?risk ?exposure d1" "sent = sent1"
      using assms(1) c1 True by (auto simp: judge_call_def Let_def)
    then show ?thesis
      using True consult_decides(1,3)[of H C tool input no_decision P M prompt] r provider_sends_at_most_one
      by simp
  next
    case False
    then have "dn_deny d \<longleftrightarrow> ck_blocking C \<and> hard_local_deny ?risk ?exposure" "sent = []"
      using assms(1) c1 by (auto simp: judge_call_def Let_def split: if_splits)
    then show ?thesis using False hard_local_deny_flags by auto
  qed
qed

section \<open>The cache over a history\<close>

lemma length_AList_update: "length (AList.update k v c) \<le> Suc (length c)"
  by (induction c) auto

lemma cached_or_new_cases:
  obtains (hit) e where "map_of c key = Some e"
      "now - cd_at e < from_secs (max (ck_cache_ttl_secs C) 1)" "ck_blocking C"
      "cached_or_new C now key c
         = (no_decision\<lparr>dn_deny := cd_deny e, dn_rule := cd_rule e, dn_from_cache := True\<rparr>, c)"
  | (miss) c1 where "cached_or_new C now key c = (no_decision, c1)" "\<And>k e. map_of c1 k = Some e \<Longrightarrow> map_of c k = Some e"
      "length c1 \<le> length c"
proof (cases "ck_blocking C \<and> (\<exists>e. map_of c key = Some e
                \<and> now - cd_at e < from_secs (max (ck_cache_ttl_secs C) 1))")
  case True
  then show ?thesis by (auto simp: cached_or_new_def decision_cache_get_def intro: hit)
next
  case False
  have "\<exists>c1. cached_or_new C now key c = (no_decision, c1) \<and> (\<forall>k e. map_of c1 k = Some e \<longrightarrow> map_of c k = Some e)
          \<and> length c1 \<le> length c"
    using False length_delete_le[of key c]
    by (auto simp: cached_or_new_def decision_cache_get_def delete_conv'
        split: option.splits if_splits)
  then show ?thesis using miss by blast
qed

text \<open>Everything a judgement does to the cache.\<close>

lemma judge_call_cache:
  assumes "judge_call H C P M prompt tool input c = (d, results, sent, c')"
  defines "key \<equiv> decision_cache_key (he_libs H) (he_hash H) tool input"
  shows "map_of c' k = Some e \<Longrightarrow> map_of c k = Some e
      \<or> k = key \<and> ck_blocking C \<and> \<not> dn_from_cache d \<and> cd_deny e = dn_deny d"
    and "length c \<le> 4097 \<Longrightarrow> length c' \<le> 4097"
    and "dn_from_cache d \<Longrightarrow> \<exists>e. map_of c key = Some e \<and> ck_blocking C
           \<and> d = no_decision\<lparr>dn_deny := cd_deny e, dn_rule := cd_rule e, dn_from_cache := True\<rparr>
           \<and> results = [] \<and> sent = [] \<and> c' = c"
    and "\<not> dn_from_cache d \<Longrightarrow> ck_blocking C \<Longrightarrow>
           hard_local_deny (local_risk_of H C tool input) (local_exposure_of H C input) \<Longrightarrow> dn_deny d"
    and "\<not> ck_blocking C \<Longrightarrow> d = no_decision \<and> sent = [] \<and> c' = c"
proof -
  let ?risk = "local_risk_of H C tool input" and ?exposure = "local_exposure_of H C input"
  consider (hit) e where "map_of c key = Some e" "ck_blocking C"
      "cached_or_new C (hm_get_at M) key c
         = (no_decision\<lparr>dn_deny := cd_deny e, dn_rule := cd_rule e, dn_from_cache := True\<rparr>, c)"
    | (miss) c1 where "cached_or_new C (hm_get_at M) key c = (no_decision, c1)"
        "\<And>k e. map_of c1 k = Some e \<Longrightarrow> map_of c k = Some e" "length c1 \<le> length c"
    using cached_or_new_cases[of c key "hm_get_at M" C] by metis
  then have "(map_of c' k = Some e \<longrightarrow> map_of c k = Some e
      \<or> k = key \<and> ck_blocking C \<and> \<not> dn_from_cache d \<and> cd_deny e = dn_deny d)
    \<and> (length c \<le> 4097 \<longrightarrow> length c' \<le> 4097)
    \<and> (dn_from_cache d \<longrightarrow> (\<exists>e. map_of c key = Some e \<and> ck_blocking C
           \<and> d = no_decision\<lparr>dn_deny := cd_deny e, dn_rule := cd_rule e, dn_from_cache := True\<rparr>
           \<and> results = [] \<and> sent = [] \<and> c' = c))
    \<and> (\<not> dn_from_cache d \<and> ck_blocking C \<and> hard_local_deny ?risk ?exposure \<longrightarrow> dn_deny d)
    \<and> (\<not> ck_blocking C \<longrightarrow> d = no_decision \<and> sent = [] \<and> c' = c)"
  proof cases
    case hit
    then show ?thesis
      using assms(1) by (auto simp: judge_call_def key_def[symmetric] Let_def)
  next
    case miss
    define asked where "asked = (ck_blocking C \<and> (is_flag ?risk \<or> is_flag ?exposure))"
    obtain d1 where one: "(if asked then consult_scorer H C P M prompt tool input no_decision
        else (no_decision, [?risk, ?exposure], [])) = (d1, results, sent)"
      and d: "d = (if ck_blocking C then apply_hard_deny ?risk ?exposure d1 else d1)"
      and c1: "c' = (if ck_blocking C then decision_cache_put (hm_put_at M) key (dn_deny d) (dn_rule d) c1
        else c1)"
      unfolding asked_def key_def by (rule judge_new[OF assms(1) miss(1)[unfolded key_def]])
    have d1: "\<not> dn_from_cache d1"
      using one consult_decides(2)[of H C tool input no_decision P M prompt]
      by (auto simp: asked_def split: if_splits)
    have "map_of c' k = Some e \<longrightarrow> map_of c k = Some e \<or> k = key \<and> ck_blocking C \<and> cd_deny e = dn_deny d"
      using miss(2) by (auto simp: c1 decision_cache_put_def update_conv' split: if_splits)
    moreover have "length c \<le> 4097 \<longrightarrow> length c' \<le> 4097"
      using miss(3) length_AList_update[of key _ c1] length_AList_update[of key _ "[]"]
      by (fastforce simp: c1 decision_cache_put_def intro: order_trans)
    moreover have "\<not> ck_blocking C \<longrightarrow> d = no_decision \<and> sent = [] \<and> c' = c"
      using one miss(1) by (auto simp: d c1 asked_def cached_or_new_def)
    moreover have "\<not> dn_from_cache d" using d1 by (simp add: d)
    ultimately show ?thesis by (auto simp: d)
  qed
  then show "map_of c' k = Some e \<Longrightarrow> map_of c k = Some e
      \<or> k = key \<and> ck_blocking C \<and> \<not> dn_from_cache d \<and> cd_deny e = dn_deny d"
    and "length c \<le> 4097 \<Longrightarrow> length c' \<le> 4097"
    and "dn_from_cache d \<Longrightarrow> \<exists>e. map_of c key = Some e \<and> ck_blocking C
           \<and> d = no_decision\<lparr>dn_deny := cd_deny e, dn_rule := cd_rule e, dn_from_cache := True\<rparr>
           \<and> results = [] \<and> sent = [] \<and> c' = c"
    and "\<not> dn_from_cache d \<Longrightarrow> ck_blocking C \<Longrightarrow> hard_local_deny ?risk ?exposure \<Longrightarrow> dn_deny d"
    and "\<not> ck_blocking C \<Longrightarrow> d = no_decision \<and> sent = [] \<and> c' = c"
    by blast+
qed

section \<open>What a request is read as\<close>

lemma frame_of_cong:
  assumes "\<And>q. q \<noteq> ''tool_input'' \<Longrightarrow> json_get v q = json_get w q"
    and "map_option (truncate_json MAX_FIELD) (json_get v ''tool_input'')
           = map_option (truncate_json MAX_FIELD) (json_get w ''tool_input'')"
  shows "frame_of v = frame_of w"
proof -
  have str: "q \<noteq> ''tool_input'' \<Longrightarrow> str_at v q = str_at w q" for q by (simp add: str_at_def assms(1))
  have two: "a \<noteq> ''tool_input'' \<Longrightarrow> b \<noteq> ''tool_input'' \<Longrightarrow> first_of v a b = first_of w a b" for a b
    using assms(1)[of a] assms(1)[of b] by (simp add: first_of_def split: option.split)
  have "inferred_agent v = inferred_agent w"
  proof -
    have "str_at v ''transcript_path'' = str_at w ''transcript_path''" by (rule str) simp
    moreover have "json_get v ''hook_event_name'' = json_get w ''hook_event_name''" by (rule assms(1)) simp
    ultimately show ?thesis unfolding inferred_agent_def by (simp only:)
  qed
  then show ?thesis using assms(2) by (simp add: frame_of_def str two assms(1))
qed

section \<open>Histories of requests\<close>

type_synonym hook_request = "hook_moment \<times> json"

definition hook_step ::
  "hook_env \<Rightarrow> checks_section \<Rightarrow> scoring_provider option \<Rightarrow> hook_state \<Rightarrow> hook_request \<Rightarrow> hook_state" where
  "hook_step H C P S = (\<lambda>(M, payload).
     case receive_hook_event H C P M payload S of Some (out, S') \<Rightarrow> S' | None \<Rightarrow> S)"

text \<open>The call a request is about: its tool and what is kept of the tool's input.\<close>

definition call_of :: "json \<Rightarrow> (string \<times> json) option" where
  "call_of payload =
     (case (hf_tool (frame_of payload), hf_input (frame_of payload)) of
        (Some tool, Some input) \<Rightarrow> Some (tool, input) | _ \<Rightarrow> None)"

definition calls_of :: "hook_request list \<Rightarrow> (string \<times> json) list" where
  "calls_of rs = List.map_filter (\<lambda>(M, payload). call_of payload) rs"

abbreviation call_key :: "hook_env \<Rightarrow> string \<times> json \<Rightarrow> string" where
  "call_key H \<equiv> \<lambda>(tool, input). decision_cache_key (he_libs H) (he_hash H) tool input"

text \<open>
  What a request does to the cache: nothing, or what judging its call does.
\<close>

lemma receive_parts:
  assumes "receive_hook_event H C P M payload S = Some (out, S')"
  obtains gv d results where "guard_prompt H M (frame_of payload) = Some gv"
    "judge_frame H C P M (frame_of payload) S = (d, results, ho_sent out, S')"
    "ho_answer out = answer_of gv d"
    "ho_events out = recorded_events H C M (frame_of payload) gv d results"
proof -
  obtain d results sent S2 where "judge_frame H C P M (frame_of payload) S = (d, results, sent, S2)"
    by (metis prod.exhaust)
  then show ?thesis using assms that by (auto simp: receive_hook_event_def Let_def)
qed

lemma receive_judges:
  assumes "receive_hook_event H C (Some p) M payload S = Some (out, S')"
    and "call_of payload = Some (tool, input)"
  obtains d results c' where
    "judge_call H C p M (hf_prompt (frame_of payload)) tool input (hs_cache S) = (d, results, ho_sent out, c')"
    "hs_cache S' = c'" "dn_deny d \<Longrightarrow> ha_deny (ho_answer out)"
  using assms
  by (auto simp: receive_hook_event_def Let_def judge_frame_def call_of_def answer_of_def
      split: prod.splits option.splits)

lemma receive_without_call:
  assumes "receive_hook_event H C P M payload S = Some (out, S')"
    and "call_of payload = None \<or> P = None"
  shows "S' = S"
  using assms
  by (auto simp: receive_hook_event_def Let_def judge_frame_def call_of_def
      split: prod.splits option.splits)

lemma hook_step_cache:
  obtains (same) "hs_cache (hook_step H C P S (M, payload)) = hs_cache S"
  | (judged) p tool input d results sent where
      "P = Some p" "call_of payload = Some (tool, input)"
      "judge_call H C p M (hf_prompt (frame_of payload)) tool input (hs_cache S)
         = (d, results, sent, hs_cache (hook_step H C P S (M, payload)))"
proof (cases "receive_hook_event H C P M payload S")
  case None
  then show ?thesis by (intro same) (simp add: hook_step_def)
next
  case (Some r)
  obtain out S' where r: "r = (out, S')" by (cases r)
  show ?thesis
  proof (cases "call_of payload = None \<or> P = None")
    case True
    then have "S' = S" using receive_without_call[of H C P M payload S out S'] Some r by simp
    then show ?thesis using Some r by (intro same) (simp add: hook_step_def)
  next
    case False
    then obtain p tool input where "P = Some p" "call_of payload = Some (tool, input)"
      by (metis option.exhaust prod.exhaust)
    moreover from this obtain d results c' where
      "judge_call H C p M (hf_prompt (frame_of payload)) tool input (hs_cache S)
         = (d, results, ho_sent out, c')" "hs_cache S' = c'"
      using receive_judges[of H C p M payload S out S' tool input] Some r by metis
    moreover have "hook_step H C P S (M, payload) = S'" using Some r by (simp add: hook_step_def)
    ultimately show ?thesis using judged by simp
  qed
qed

text \<open>The cache never holds more than 4097 decisions.\<close>

interpretation cache_size: invariant_system "hook_step H C P" "\<lambda>S :: hook_state. length (hs_cache S) \<le> 4097"
proof
  fix S :: hook_state and r :: hook_request
  assume bound: "length (hs_cache S) \<le> 4097"
  obtain M payload where r: "r = (M, payload)" by (cases r)
  show "length (hs_cache (hook_step H C P S r)) \<le> 4097"
    unfolding r by (cases rule: hook_step_cache[of H C P S M payload]) (use bound judge_call_cache(2) in auto)
qed

text \<open>
  A history with the calls it has judged so far beside the state. Every decision in the cache is one
  about a judged call with its key, and is a denial when that call is a hard deny.
\<close>

definition tracked_step ::
  "hook_env \<Rightarrow> checks_section \<Rightarrow> scoring_provider option \<Rightarrow> (string \<times> json) list \<times> hook_state
     \<Rightarrow> hook_request \<Rightarrow> (string \<times> json) list \<times> hook_state" where
  "tracked_step H C P = (\<lambda>(calls, S) r. (calls @ calls_of [r], hook_step H C P S r))"

definition hard_call :: "hook_env \<Rightarrow> checks_section \<Rightarrow> string \<times> json \<Rightarrow> bool" where
  "hard_call H C = (\<lambda>(tool, input). hard_local_deny (local_risk_of H C tool input) (local_exposure_of H C input))"

definition decisions_sound ::
  "hook_env \<Rightarrow> checks_section \<Rightarrow> (string \<times> json) list \<times> hook_state \<Rightarrow> bool" where
  "decisions_sound H C = (\<lambda>(calls, S).
     \<forall>k e. map_of (hs_cache S) k = Some e \<longrightarrow>
       (\<exists>call \<in> set calls. k = call_key H call \<and> (hard_call H C call \<longrightarrow> cd_deny e)))"

interpretation decisions: invariant_system "tracked_step H C P" "decisions_sound H C"
proof
  fix T and r :: hook_request
  assume sound: "decisions_sound H C T"
  obtain calls S where T: "T = (calls, S)" by (cases T)
  obtain M payload where r: "r = (M, payload)" by (cases r)
  show "decisions_sound H C (tracked_step H C P T r)"
  proof (cases rule: hook_step_cache[of H C P S M payload])
    case same
    then show ?thesis using sound by (auto simp: T r decisions_sound_def tracked_step_def)
  next
    case (judged p tool input d results sent)
    have call: "(tool, input) \<in> set (calls @ calls_of [r])"
      using judged(2) by (simp add: calls_of_def r List.map_filter_def)
    have "\<exists>call \<in> set (calls @ calls_of [r]). k = call_key H call \<and> (hard_call H C call \<longrightarrow> cd_deny e)"
      if e: "map_of (hs_cache (hook_step H C P S r)) k = Some e" for k e
    proof (cases "map_of (hs_cache S) k = Some e")
      case True
      then have "\<exists>call \<in> set calls. k = call_key H call \<and> (hard_call H C call \<longrightarrow> cd_deny e)"
        using sound by (simp add: T decisions_sound_def)
      then obtain call where "call \<in> set calls" "k = call_key H call" "hard_call H C call \<longrightarrow> cd_deny e"
        by blast
      then show ?thesis by (intro bexI[of _ call]) auto
    next
      case False
      then have "k = call_key H (tool, input)" "ck_blocking C" "\<not> dn_from_cache d" "cd_deny e = dn_deny d"
        using judge_call_cache(1)[OF judged(3), of k e] e r by auto
      then show ?thesis
        using call judge_call_cache(4)[OF judged(3)]
        by (intro bexI[of _ "(tool, input)"]) (auto simp: hard_call_def)
    qed
    then show ?thesis by (simp add: T decisions_sound_def tracked_step_def)
  qed
qed

lemma tracked_run:
  "foldl (tracked_step H C P) (calls, S) rs = (calls @ calls_of rs, foldl (hook_step H C P) S rs)"
  by (induction rs arbitrary: calls S)
    (auto simp: tracked_step_def calls_of_def List.map_filter_def)

section \<open>Properties\<close>


text \<open>
  The decision cache starts empty and never holds more than 4097 decisions.
\<close>

theorem decision_cache_is_bounded:
  assumes "hs_cache S = []"
  shows "length (hs_cache (foldl (hook_step H C P) S history)) \<le> 4097"
  using cache_size.run_inv[of S H C P history] assms by simp

text \<open>
  With blocking off the hook observes: no request is sent, the cache is not used, and the answer is
  to deny only when the prompt guard blocks a prompt.
\<close>

theorem hook_without_blocking_observes:
  assumes "\<not> ck_blocking C"
    and "receive_hook_event H C P M payload S = Some (out, S')"
  shows "ho_sent out = [] \<and> hs_cache S' = hs_cache S
    \<and> (ha_deny (ho_answer out) \<longleftrightarrow>
         (\<exists>v. guard_prompt H M (frame_of payload) = Some (Some v) \<and> pv_block v))"
proof -
  obtain gv d results where g: "guard_prompt H M (frame_of payload) = Some gv"
    and j: "judge_frame H C P M (frame_of payload) S = (d, results, ho_sent out, S')"
    and out: "ho_answer out = answer_of gv d"
    using assms(2) by (rule receive_parts)
  have "d = no_decision \<and> ho_sent out = [] \<and> hs_cache S' = hs_cache S"
    using j judge_call_cache(5) assms(1)
    by (auto simp: judge_frame_def split: option.splits prod.splits)
  then show ?thesis by (auto simp: out g answer_of_def Let_def split: option.split)
qed

text \<open>
  A decision is used again for the same call until it expires, without asking the scorer and with
  no result; only its verdict and rule are kept, so a call let through because the scorer could not
  answer is let through again with no trace of the fail mode.
\<close>

theorem decision_is_reused:
  assumes "judge_call H C P M prompt tool input c = (d, results, sent, c')"
    and "\<not> dn_from_cache d" and "ck_blocking C"
    and "hm_get_at M' - hm_put_at M < from_secs (max (ck_cache_ttl_secs C) 1)"
  shows "judge_call H C P M' prompt' tool input c'
    = (no_decision\<lparr>dn_deny := dn_deny d, dn_rule := dn_rule d, dn_from_cache := True\<rparr>, [], [], c')"
proof -
  let ?key = "decision_cache_key (he_libs H) (he_hash H) tool input"
  obtain c1 where "cached_or_new C (hm_get_at M) ?key c = (no_decision, c1)"
    using assms(1,2) by (rule judge_fresh)
  from judge_new[OF assms(1) this] have "c' = decision_cache_put (hm_put_at M) ?key (dn_deny d) (dn_rule d) c1"
    using assms(3) by metis
  then have "map_of c' ?key = Some \<lparr>cd_deny = dn_deny d, cd_rule = dn_rule d, cd_at = hm_put_at M\<rparr>"
    by (simp add: decision_cache_put_def update_conv')
  then show ?thesis
    using assms(3,4) by (simp add: judge_call_def cached_or_new_def decision_cache_get_def Let_def)
qed

text \<open>
  Only the first 16 KiB of a command are judged: two requests whose commands have the same length
  and agree on them have the same answer, the same records and the same cache afterwards, whatever
  their commands hold behind.
\<close>

theorem text_behind_the_limit_is_not_judged:
  assumes "is_ascii pad" and "is_ascii s" and "is_ascii s'"
    and "length pad = 16384" and "length s = length s'"
  shows "receive_hook_event H C P M (JObj ((''tool_input'', JObj [(k, JStr (pad @ s))]) # rest)) S
    = receive_hook_event H C P M (JObj ((''tool_input'', JObj [(k, JStr (pad @ s'))]) # rest)) S"
proof -
  have cut: "cut_back (pad @ t) 16384 = 16384" if "is_ascii t" for t
  proof -
    have "is_char_boundary (pad @ t) 16384"
      using that assms(4) by (cases t) (auto simp: is_char_boundary_def is_cont_def nth_append)
    then show ?thesis by (subst cut_back.simps) simp
  qed
  have "truncate_json MAX_FIELD (JObj [(k, JStr (pad @ s))]) = truncate_json MAX_FIELD (JObj [(k, JStr (pad @ s'))])"
    using cut[OF assms(2)] cut[OF assms(3)] assms(4,5) by (cases s; cases s') (simp_all add: MAX_FIELD_def Let_def)
  then have "frame_of (JObj ((''tool_input'', JObj [(k, JStr (pad @ s))]) # rest))
      = frame_of (JObj ((''tool_input'', JObj [(k, JStr (pad @ s'))]) # rest))"
    by (intro frame_of_cong) simp_all
  then show ?thesis by (simp add: receive_hook_event_def)
qed

text \<open>
  The record of a tool call says that the call was allowed and gives no reason, whatever the
  decision on it was.
\<close>

theorem denied_call_is_recorded_as_allowed:
  assumes "receive_hook_event H C P M payload S = Some (out, S')"
    and "hf_event (frame_of payload) \<in> {''ToolCall'', ''tool_call'', ''PreToolUse'', ''PostToolUse''}"
    and "hf_tool (frame_of payload) = Some tool"
  shows "\<exists>ev. ho_events out = [ev] \<and> ev_kind ev = LlmToolCall \<and> ev_target ev = tool
    \<and> ev_allowed ev \<and> ev_reason ev = None"
proof -
  have "hf_event (frame_of payload) \<in> set TOOL_EVENTS"
    "hf_event (frame_of payload) \<notin> set PROMPT_EVENTS" "hf_event (frame_of payload) \<notin> set REPLY_EVENTS"
    using assms(2) by (auto simp: TOOL_EVENTS_def PROMPT_EVENTS_def REPLY_EVENTS_def)
  then show ?thesis
    using assms(3) by (cases rule: receive_parts[OF assms(1)])
      (simp add: recorded_events_def hook_security_event_def Let_def)
qed

text \<open>
  C36. A prompt in which the guard finds a secret is refused in block mode, under the rule that says so
  and with the sentence that names the kinds of secret, whatever was decided on a tool call in the
  same request; what is recorded of it is refused too, and holds the masked prompt.
\<close>

theorem blocked_prompt_is_refused_and_masked:
  assumes "receive_hook_event H C P M payload S = Some (out, S')"
    and "hf_event (frame_of payload) \<in> {''UserPromptSubmit'', ''UserInput'', ''user_input''}"
    and "hf_prompt (frame_of payload) = Some p" and "hm_guard M = GuardBlock"
    and "check_prompt (he_captures H) p GuardBlock = Some v" and "pv_findings v \<noteq> []"
  shows "ha_deny (ho_answer out) \<and> ha_rule (ho_answer out) = Some ''secret in prompt''
    \<and> ha_reason (ho_answer out) = verdict_reason v
    \<and> (\<exists>ev ctx. ho_events out = [ev] \<and> ev_kind ev = LlmRequest \<and> \<not> ev_allowed ev
         \<and> ev_target ev = hf_agent (frame_of payload) @ '':prompt-secret''
         \<and> ev_llm_context ev = Some ctx \<and> lc_response_text ctx = Some (pv_redacted v))"
proof -
  have event: "hf_event (frame_of payload) \<in> set PROMPT_EVENTS"
    using assms(2) by (simp add: PROMPT_EVENTS_def)
  then have guard: "guard_prompt H M (frame_of payload) = Some (Some v)"
    using assms(3,4,5) by (simp add: guard_prompt_def)
  have block: "pv_block v" using assms(5,6) by (auto simp: check_prompt_def)
  obtain d results where out: "ho_answer out = answer_of (Some v) d"
    "ho_events out = recorded_events H C M (frame_of payload) (Some v) d results"
    using receive_parts[OF assms(1)] guard by (metis option.inject)
  show ?thesis
    using event assms(3,6) block
    by (simp add: out answer_of_def recorded_events_def prompt_event_def hook_security_event_def Let_def)
qed

text \<open>
  When the configured scorer cannot be used at start-up, there is none, and then no tool call is
  denied, checked or recorded with a result, in whatever fail mode: only a prompt can be refused.
\<close>

theorem unusable_scorer_denies_nothing:
  assumes "to_ascii_lowercase (trim (ck_provider C)) = ''jev''"
    and "receive_hook_event H C (start_provider dbg E (Inl err) C) M payload S = Some (out, S')"
    and "\<not> (\<exists>v. guard_prompt H M (frame_of payload) = Some (Some v) \<and> pv_block v)"
  shows "\<not> ha_deny (ho_answer out) \<and> ho_sent out = [] \<and> S' = S"
proof -
  have "start_provider dbg E (Inl err) C = None"
    using assms(1) by (simp add: start_provider_def provider_from_config_def)
  then obtain gv d results where "guard_prompt H M (frame_of payload) = Some gv"
    "judge_frame H C None M (frame_of payload) S = (d, results, ho_sent out, S')"
    "ho_answer out = answer_of gv d"
    using assms(2) by (auto elim: receive_parts)
  then show ?thesis using assms(3) by (auto simp: judge_frame_def answer_of_def Let_def split: option.splits)
qed

section \<open>Examples\<close>

text \<open>A shell call, its text as the libraries print it, and a scorer that only works locally.\<close>

fun W_text :: "json \<Rightarrow> string" where
  "W_text (JObj ((k, JStr s) # _)) = s"
| "W_text _ = []"

definition W_env :: hook_env where
  "W_env = \<lparr>he_libs = ascii_libs\<lparr>json_text := W_text\<rparr>, he_hash = id, he_captures = W_caps,
            he_number = (\<lambda>_. JNull), he_two_places = (\<lambda>_. [])\<rparr>"

definition W_checks :: checks_section where
  "W_checks = default_checks_section\<lparr>ck_enabled := True, ck_blocking := True, ck_fail_mode := Some ''open''\<rparr>"

definition W_moment :: hook_moment where
  "W_moment = \<lparr>hm_get_at = 5, hm_put_at = 6, hm_outcome = ScorerTimedOut, hm_latency = 0,
               hm_guard = GuardBlock, hm_nanos = None, hm_now = 0, hm_response_now = 0,
               hm_review = (\<lambda>_. (False, 0, []))\<rparr>"

definition W_request :: "string \<Rightarrow> json" where
  "W_request cmd = JObj [(''tool_input'', JObj [(''command'', JStr cmd)]),
     (''hook_event_name'', JStr ''PreToolUse''), (''tool_name'', JStr ''Bash'')]"

definition W_input :: "string \<Rightarrow> json" where
  "W_input cmd = JObj [(''command'', JStr cmd)]"

definition W_start :: hook_state where
  "W_start = \<lparr>hs_cache = [], hs_queue = []\<rparr>"

lemma W_frame:
  "length cmd \<le> 16384 \<Longrightarrow> hf_input (frame_of (W_request cmd)) = Some (W_input cmd)"
  "hf_tool (frame_of (W_request cmd)) = Some ''Bash''"
  "hf_event (frame_of (W_request cmd)) = ''PreToolUse''"
  by (simp_all add: frame_of_def W_request_def W_input_def str_at_def first_of_def or_default_def MAX_FIELD_def)

lemma W_call: "length cmd \<le> 16384 \<Longrightarrow> call_of (W_request cmd) = Some (''Bash'', W_input cmd)"
  by (simp add: call_of_def W_frame)

lemma W_guard: "guard_prompt W_env M (frame_of (W_request cmd)) = Some None"
  by (simp add: guard_prompt_def W_frame PROMPT_EVENTS_def)

lemma W_receives: "\<exists>out S'. receive_hook_event W_env C P M (W_request cmd) S = Some (out, S')"
  by (simp add: receive_hook_event_def W_guard Let_def split: prod.split)

definition W_read :: string where
  "W_read = ''cat .aws/credentials''"

lemma W_read_is_hard:
  "cr_option (local_risk_of W_env W_checks ''Bash'' (W_input W_read)) = ''reads_sensitive_path''"
  "is_flag (local_risk_of W_env W_checks ''Bash'' (W_input W_read))"
  by code_simp+

lemma W_keys:
  "decision_cache_key (he_libs W_env) (he_hash W_env) ''Bash'' (W_input cmd) = take 32 (''Bash'' @ [CHR 0x00] @ cmd)"
  by (simp add: decision_cache_key_def W_env_def W_input_def)


theorem decision_cache_is_bounded_witness:
  "length (hs_cache (foldl (hook_step W_env W_checks None) W_start [(W_moment, W_request ''ls'')])) \<le> 4097"
  by (rule decision_cache_is_bounded) (simp add: W_start_def)

lemma W_judged:
  obtains d results sent c' where
    "judge_call W_env W_checks DeterministicOnly W_moment None ''Bash'' (W_input W_read) [] = (d, results, sent, c')"
    "\<not> dn_from_cache d"
proof -
  obtain d results sent c' where
    j: "judge_call W_env W_checks DeterministicOnly W_moment None ''Bash'' (W_input W_read) [] = (d, results, sent, c')"
    by (metis prod.exhaust)
  moreover have "\<not> dn_from_cache d" using judge_call_cache(3)[OF j] by auto
  ultimately show ?thesis using that by blast
qed

theorem flagged_calls_pass_only_by_fail_mode_witness:
  "\<exists>d results sent c'. judge_call W_env W_checks DeterministicOnly W_moment None ''Bash'' (W_input W_read) []
       = (d, results, sent, c') \<and> dn_deny d"
proof (rule W_judged)
  fix d results sent c'
  assume j: "judge_call W_env W_checks DeterministicOnly W_moment None ''Bash'' (W_input W_read) []
       = (d, results, sent, c')" "\<not> dn_from_cache d"
  have "ck_blocking W_checks" by (simp add: W_checks_def)
  then have "dn_deny d"
    using flagged_calls_pass_only_by_fail_mode[OF j] by (simp add: W_read_is_hard hard_local_deny_def)
  then show ?thesis using j(1) by blast
qed

theorem decision_is_reused_witness:
  "\<exists>d results sent c'. judge_call W_env W_checks DeterministicOnly W_moment None ''Bash'' (W_input W_read) []
       = (d, results, sent, c')
     \<and> judge_call W_env W_checks DeterministicOnly (W_moment\<lparr>hm_get_at := 7\<rparr>) None ''Bash'' (W_input W_read) c'
       = (no_decision\<lparr>dn_deny := dn_deny d, dn_rule := dn_rule d, dn_from_cache := True\<rparr>, [], [], c')"
proof (rule W_judged)
  fix d results sent c'
  assume j: "judge_call W_env W_checks DeterministicOnly W_moment None ''Bash'' (W_input W_read) []
       = (d, results, sent, c')" "\<not> dn_from_cache d"
  have "ck_blocking W_checks"
    "hm_get_at (W_moment\<lparr>hm_get_at := 7\<rparr>) - hm_put_at W_moment < from_secs (max (ck_cache_ttl_secs W_checks) 1)"
    by (simp_all add: W_checks_def W_moment_def from_secs_def default_checks_section_def)
  from decision_is_reused[OF j this] show ?thesis using j(1) by blast
qed

theorem hook_without_blocking_observes_witness:
  "\<exists>out S'. receive_hook_event W_env default_checks_section (Some DeterministicOnly) W_moment (W_request W_read) W_start
       = Some (out, S') \<and> ho_sent out = [] \<and> \<not> ha_deny (ho_answer out)"
proof -
  obtain out S' where r: "receive_hook_event W_env default_checks_section (Some DeterministicOnly) W_moment
      (W_request W_read) W_start = Some (out, S')" using W_receives by blast
  have "\<not> ck_blocking default_checks_section" by (simp add: default_checks_section_def)
  from hook_without_blocking_observes[OF this r] show ?thesis using r by (simp add: W_guard)
qed

theorem text_behind_the_limit_is_not_judged_witness:
  "receive_hook_event W_env W_checks (Some DeterministicOnly) W_moment
      (W_request (replicate 16384 (CHR '' '') @ W_read)) W_start
   = receive_hook_event W_env W_checks (Some DeterministicOnly) W_moment
      (W_request (replicate 16384 (CHR '' '') @ replicate 20 (CHR ''x''))) W_start"
proof -
  have "is_ascii (replicate n (CHR '' ''))" "is_ascii (replicate n (CHR ''x''))" for n
    by (induction n) (simp_all add: byte_def)
  moreover have "is_ascii W_read" "length W_read = length (replicate 20 (CHR ''x''))"
    by (simp_all add: W_read_def byte_def)
  ultimately show ?thesis
    unfolding W_request_def by (intro text_behind_the_limit_is_not_judged) simp_all
qed

theorem denied_call_is_recorded_as_allowed_witness:
  "\<exists>out S'. receive_hook_event W_env W_checks (Some DeterministicOnly) W_moment (W_request W_read) W_start
       = Some (out, S') \<and> (\<exists>ev. ho_events out = [ev] \<and> ev_allowed ev \<and> ev_target ev = ''Bash'')"
proof -
  obtain out S' where r: "receive_hook_event W_env W_checks (Some DeterministicOnly) W_moment
      (W_request W_read) W_start = Some (out, S')" using W_receives by blast
  have "hf_event (frame_of (W_request W_read)) \<in> {''ToolCall'', ''tool_call'', ''PreToolUse'', ''PostToolUse''}"
    by (simp add: W_frame)
  from denied_call_is_recorded_as_allowed[OF r this W_frame(2)] r show ?thesis by blast
qed

definition W_submit :: json where
  "W_submit = JObj [(''hook_event_name'', JStr ''UserPromptSubmit''), (''prompt'', JStr W_password)]"

lemma W_submit_frame:
  "hf_event (frame_of W_submit) = ''UserPromptSubmit''" "hf_prompt (frame_of W_submit) = Some W_password"
  by (simp_all add: frame_of_def W_submit_def str_at_def first_of_def or_default_def)

theorem blocked_prompt_is_refused_and_masked_witness:
  "\<exists>out S'. receive_hook_event W_env W_checks None W_moment W_submit W_start = Some (out, S')
     \<and> ha_deny (ho_answer out)"
proof -
  obtain v where v: "check_prompt W_caps W_password GuardBlock = Some v" "pv_findings v \<noteq> []"
    by (cases "check_prompt W_caps W_password GuardBlock")
      (simp_all add: check_prompt_def W_spans, auto simp: W_password_def slice_def mask_value_def
        is_char_boundary_def is_cont_def byte_def)
  then have c: "check_prompt (he_captures W_env) W_password GuardBlock = Some v" by (simp add: W_env_def)
  then have "guard_prompt W_env W_moment (frame_of W_submit) = Some (Some v)"
    by (simp add: guard_prompt_def W_submit_frame PROMPT_EVENTS_def W_moment_def)
  then obtain out S' where r: "receive_hook_event W_env W_checks None W_moment W_submit W_start = Some (out, S')"
    by (cases "judge_frame W_env W_checks None W_moment (frame_of W_submit) W_start")
      (simp add: receive_hook_event_def)
  have "hf_event (frame_of W_submit) \<in> {''UserPromptSubmit'', ''UserInput'', ''user_input''}"
    by (simp add: W_submit_frame)
  from blocked_prompt_is_refused_and_masked[OF r this W_submit_frame(2) _ c v(2)] r
  show ?thesis by (auto simp: W_moment_def)
qed

definition W_closed :: checks_section where
  "W_closed = W_checks\<lparr>ck_fail_mode := Some ''closed''\<rparr>"

theorem unusable_scorer_denies_nothing_witness:
  "\<exists>out S'. receive_hook_event W_env W_closed
       (start_provider id (answering_env (Inl Timeout) exfil_answer) (Inl ''no key'') W_closed)
       W_moment (W_request W_read) W_start = Some (out, S') \<and> \<not> ha_deny (ho_answer out)"
proof -
  obtain out S' where r: "receive_hook_event W_env W_closed
       (start_provider id (answering_env (Inl Timeout) exfil_answer) (Inl ''no key'') W_closed)
       W_moment (W_request W_read) W_start = Some (out, S')" using W_receives by blast
  have "ck_provider W_closed = ''jev''" by (simp add: W_closed_def W_checks_def default_checks_section_def)
  then have "to_ascii_lowercase (trim (ck_provider W_closed)) = ''jev''" by (simp only:) code_simp
  from unusable_scorer_denies_nothing[OF this r] show ?thesis using r by (simp add: W_guard)
qed

end
