(* ===== verification/Spec2Isabelle.thy ===== *)
theory Spec2Isabelle
  imports Jev Enforcement Acl AuditLog DnsAllow Capability Network AgentDetect Review Caller Auth
    PackageGuard ToolPolicy FileRules KernelMaps Observer Profiles IntentPolicy IntentDiff
    Sessions TranscriptTaint Correlation McpGateway HookGate
begin

text \<open>
  Ring Zero is a runtime security daemon for AI coding agents: kernel programs refuse file opens,
  executions and connections according to maps, and a user-space daemon (agent/src) decides what
  goes into the maps, judges the events the kernel reports, keeps a tamper-evident audit log, a
  review queue and the sessions of the agents, and serves an API to the operator. A library of
  deterministic checks (checks/src) scores tool calls, prompts and skills, optionally with a hosted
  provider behind it.

  \<^bold>\<open>Parts and theories\<close>

  \<^item> The vocabulary. \<open>Prelude\<close>: Rust's string operations on UTF-8 bytes, results as sums, iterator
    helpers. \<open>Values\<close>: decimal numbers, single-precision floats, JSON values, instants, and the
    interfaces \<open>invariant_system\<close> and \<open>monotone_system\<close> of components whose operations keep a property.
    \<open>Sled\<close>: the embedded store and the contract \<open>store\<close>. \<open>Events\<close>: common/event.rs,
    common/policy.rs.
  \<^item> The checks library. \<open>Thresholds\<close> (checks/src/thresholds.rs), \<open>Checks\<close> (checks/src/lib.rs),
    \<open>Jev\<close> (checks/src/jev.rs): the scorers, the bands and the merge of a hosted answer, which may
    only make a result more severe.
  \<^item> Records. \<open>AuditLog\<close> (audit/log.rs): the hash chain, its serial and interleaved histories.
    \<open>Review\<close> (review.rs): the queue in newest-first order. \<open>Sessions\<close> (session/store.rs): the
    sessions of agents, their states, the index from processes to sessions and their events.
  \<^item> Policies in user space. \<open>Enforcement\<close> (enforcement.rs), \<open>Acl\<close> (policy/acl.rs), \<open>Network\<close>
    (policy/network.rs), \<open>Capability\<close> (policy/capability.rs), \<open>DnsAllow\<close> (dns_allow.rs), with the
    addresses they share in \<open>NetAddr\<close>. \<open>Observer\<close> (analyzer/observer.rs): the
    baseline policy of a session; \<open>Profiles\<close> (policy/profile.rs, policy/user_rules.rs): the four
    layers over it; \<open>IntentPolicy\<close> (policy/intent_policy.rs); \<open>IntentDiff\<close>
    (analyzer/intent_diff.rs): declared intent against observed action. \<open>AgentDetect\<close>
    (common/agent_detect.rs) recognises agents, \<open>PackageGuard\<close> (policy/package_guard.rs)
    recognises package installs, \<open>ToolPolicy\<close> (analyzer/tool_call.rs, analyzer/rule_compiler.rs)
    compiles what a small model asks for into rules.
  \<^item> The local API. \<open>Caller\<close> (api/caller.rs) says who is calling, \<open>Auth\<close> (api/auth.rs) decides what
    the caller may do, \<open>FileRules\<close> (policy/file_rule.rs and the file-access handlers of
    api/routes.rs) stores what the operator forbids.
  \<^item> The kernel side. \<open>KernelMaps\<close> (ebpf_loader.rs and the lookups of GPL/bpf/ringzero.bpf.c):
    every command that changes a map, the seeding at start-up, and what the kernel then refuses.
    \<open>TranscriptTaint\<close> (transcript_taint.rs) reads what agents append to their transcripts and raises
    taint on the tree of an agent that took in external content.
  \<^item> Detection and the gateway. \<open>Correlation\<close> (analyzer/correlation.rs): the sliding window of
    events per process and the ten attack patterns matched in it. \<open>McpInventory\<close> (the MCP part
    of scanner/inventory.rs) lists the servers a configuration file declares; \<open>McpGateway\<close>
    (mcp_gateway.rs and the kernel's test of an upstream) relays calls to them and refuses the
    tools an operator switched off.
  \<^item> The hook of the agents. \<open>PromptGuard\<close> (secrets/prompt_guard.rs and the span search of
    secrets/detector.rs) masks secrets in a prompt; \<open>HookGate\<close> (the hook-event handler and the
    decision cache of api/routes.rs, checks_provider.rs, the checks section of config.rs) judges a
    tool call before it runs.

  The components call one another as the imports say: the capability engine asks the recogniser for
  the class of a process and hands its state to the kernel; the access lists are told of the
  operator's blocks by the API; a save of file rules ends as commands to the kernel, and the
  theorems of \<open>KernelMaps\<close> follow a rule from the request body to the refusal of an open.

  \<^bold>\<open>Conventions\<close>

  A struct is a record, an enum a datatype, \<open>Result<T, E>\<close> the sum of the error and the value. A
  panic, a failed slice or an unwrap of nothing is \<open>None\<close>. Pids, uids and addresses are words; a
  counter or length that cannot reach its width in the life of a machine is a natural number.
  Hash maps whose order the code can observe are association lists, others are maps; a set iterated
  by the code is a list. A JSON object has each key once. Locks are held for a whole operation
  unless a theory says otherwise, so an operation is one step; the audit log and the API tokens, where
  the interleaving matters, are modelled as step sequences. BPF maps have their capacity and, when
  they are LRU maps, the key a full map gives up. Code outside the repository is an argument:
  \<open>str::to_lowercase\<close>, \<open>from_utf8_lossy\<close>, the debug printers, the regex crate, the JSON and date
  printers, SHA-256, the resolver and the transport, /proc, the file system, libc's device numbers,
  the clock, fresh identifiers and the outcome of writes. What a theorem needs of an argument is
  a hypothesis of the theorem. A command sent to the kernel is taken to arrive (the channel is
  bounded and drops a command when it is full).

  \<^bold>\<open>What the lemmas show\<close>

  For each component: the invariant its operations keep (well-formed engine, bounded buffers,
  ordered trees, distinct rows, monotone taint), what each operation answers on each branch, errors
  included, and the relation to a simpler description where there is one: the leftmost-first glob
  to the usual one, the suffix test to the list of labels, the binary DNS reader to the message it was
  given, the kernel's longest-prefix tries to the engine's own check, a bounded buffer to the end of
  the unbounded history. The interfaces are locales, each interpreted on the component that provides
  it: \<open>store\<close> on the tree of sled, \<open>invariant_system\<close> and \<open>monotone_system\<close> on the engines, the
  kernel maps and the logs, \<open>deny_list\<close> on the three access lists.

  \<^bold>\<open>Bounds\<close>

  Loops are structural or have a measure. The walks the code itself bounds are bounded by the same
  number: 32 ancestors in the capability engine, 64 in the caller check, 16 compression jumps in
  a DNS name, 32 directory levels in the kernel.

  \<^bold>\<open>Not modelled\<close>

  Regular-expression scanners (secrets, skill scanner), the graph database and the local model, the
  HTTP and TLS plumbing, fanotify, the command line and the viewer, reporting: they are I/O, rest on
  code outside the repository, or only format.
\<close>

end
